(* ===== verification/Link_Prelude.thy ===== *)
theory Link_Prelude
  imports Main "HOL-Library.Word" "HOL-Library.Numeral_Type" "HOL-Library.List_Lexorder"
begin

text \<open>
  Shared vocabulary of the development: machine integers, byte strings, Rust's
  fixed-size arrays, big-endian integers, UTF-8 text, and the three interfaces the
  components are checked against (\<open>codec\<close>: a wire format with one spelling per
  value; \<open>prefix_codec\<close>: a format read from the front of a stream; \<open>machine\<close>:
  a component driven by a sequence of operations that keeps an invariant).
\<close>

named_theorems wire_defs \<open>definitions of wire encoders and decoders\<close>
named_theorems step_defs \<open>definitions of the operations of stateful components\<close>

section \<open>Machine integers and byte strings\<close>

type_synonym u8 = "8 word"
type_synonym u16 = "16 word"
type_synonym u32 = "32 word"
type_synonym u64 = "64 word"
type_synonym bytes = "u8 list"

text \<open>Rust's \<open>checked_sub\<close>, \<open>checked_add\<close>, \<open>saturating_add\<close> and
  \<open>checked_add_signed\<close> with \<open>-1\<close>, \<open>0\<close> or \<open>1\<close> on \<open>u64\<close>.\<close>

definition checked_sub :: "u64 \<Rightarrow> u64 \<Rightarrow> u64 option" where
  "checked_sub a b = (if b \<le> a then Some (a - b) else None)"

definition saturating_add :: "u64 \<Rightarrow> u64 \<Rightarrow> u64" where
  "saturating_add a b = (if unat a + unat b < 2 ^ 64 then a + b else - 1)"

definition checked_add_signed :: "u64 \<Rightarrow> int \<Rightarrow> u64 option" where
  "checked_add_signed a i =
     (if 0 \<le> uint a + i \<and> uint a + i < 2 ^ 64 then Some (word_of_int (uint a + i)) else None)"

lemma unat_saturating_add:
  "unat (saturating_add a b) = min (unat a + unat b) (2 ^ 64 - 1)"
proof (cases "unat a + unat b < 2 ^ 64")
  case True
  then show ?thesis
    by (simp add: saturating_add_def unat_word_ariths)
next
  case False
  then show ?thesis
    by (simp add: saturating_add_def unsigned_minus_1_eq_mask mask_eq_exp_minus_1)
qed

lemma word_of_nat_eq_iff_unat:
  "n < 2 ^ LENGTH('a) \<and> word_of_nat n = (w :: ('a::len) word) \<longleftrightarrow> n = unat w"
  by (auto simp: unat_of_nat)

section \<open>Fixed-size byte arrays\<close>

text \<open>\<open>'n arr\<close> is Rust's \<open>[u8; N]\<close>: its length is part of its type.\<close>

typedef (overloaded) ('n::len) arr = "{xs :: bytes. length xs = LENGTH('n)}"
  morphisms bytes_of Arr
proof
  show "replicate LENGTH('n) 0 \<in> {xs :: bytes. length xs = LENGTH('n)}" by simp
qed

setup_lifting type_definition_arr

lemma length_bytes_of [simp]: "length (bytes_of (a :: ('n::len) arr)) = LENGTH('n)"
  using bytes_of [of a] by simp

text \<open>\<open>mk_arr\<close> is \<open>[0u8; N]\<close> overwritten from the front with the given bytes.\<close>

lift_definition mk_arr :: "bytes \<Rightarrow> ('n::len) arr"
  is "\<lambda>xs :: bytes. take LENGTH('n) (xs @ replicate LENGTH('n) 0)"
  by simp

text \<open>\<open>to_arr\<close> is \<open>try_into().ok()\<close>: the length must be exact.\<close>

definition to_arr :: "bytes \<Rightarrow> ('n::len) arr option" where
  "to_arr xs = (if length xs = LENGTH('n) then Some (mk_arr xs) else None)"

lemma bytes_of_mk_arr [simp]:
  "length xs = LENGTH('n) \<Longrightarrow> bytes_of (mk_arr xs :: ('n::len) arr) = xs"
  by transfer simp

lemma mk_arr_bytes_of [simp]: "mk_arr (bytes_of a) = a"
  by transfer simp

lemma to_arr_bytes_of [simp]: "to_arr (bytes_of a) = Some a"
  by (simp add: to_arr_def)

lemma to_arr_eq_Some [simp]: "to_arr xs = Some a \<longleftrightarrow> xs = bytes_of a"
  by (auto simp: to_arr_def split: if_splits)

lemma to_arr_eq_None [simp]:
  "(to_arr xs :: ('n::len) arr option) = None \<longleftrightarrow> length xs \<noteq> LENGTH('n)"
  by (simp add: to_arr_def)

lemma bytes_of_eq_iff [simp]: "bytes_of a = bytes_of b \<longleftrightarrow> a = b"
  by (rule bytes_of_inject)

lemma mk_arr_inject:
  "length xs = LENGTH('n) \<Longrightarrow> length ys = LENGTH('n) \<Longrightarrow>
   (mk_arr xs :: ('n::len) arr) = mk_arr ys \<longleftrightarrow> xs = ys"
  by (metis bytes_of_mk_arr)

instantiation arr :: (len) equal
begin

definition equal_arr :: "'a arr \<Rightarrow> 'a arr \<Rightarrow> bool" where
  "equal_arr a b \<longleftrightarrow> bytes_of a = bytes_of b"

instance
  by standard (simp add: equal_arr_def)

end

text \<open>Rust orders arrays lexicographically.\<close>

instantiation arr :: (len) linorder
begin

definition less_eq_arr :: "'a arr \<Rightarrow> 'a arr \<Rightarrow> bool" where
  "less_eq_arr a b \<longleftrightarrow> bytes_of a \<le> bytes_of b"

definition less_arr :: "'a arr \<Rightarrow> 'a arr \<Rightarrow> bool" where
  "less_arr a b \<longleftrightarrow> bytes_of a < bytes_of b"

instance
  by standard (auto simp: less_eq_arr_def less_arr_def less_le)

end

section \<open>Big-endian integers\<close>

primrec be_digits :: "nat \<Rightarrow> nat \<Rightarrow> bytes" where
  "be_digits 0 k = []"
| "be_digits (Suc n) k = word_of_nat (k div 256 ^ n) # be_digits n k"

primrec be_nat :: "bytes \<Rightarrow> nat" where
  "be_nat [] = 0"
| "be_nat (b # bs) = unat b * 256 ^ length bs + be_nat bs"

text \<open>\<open>to_be_bytes\<close> and \<open>from_be_bytes\<close> of the unsigned types.\<close>

definition to_be :: "('a::len) word \<Rightarrow> bytes" where
  "to_be w = be_digits (LENGTH('a) div 8) (unat w)"

definition from_be :: "bytes \<Rightarrow> ('a::len) word" where
  "from_be bs = word_of_nat (be_nat bs)"

lemma length_be_digits [simp]: "length (be_digits n k) = n"
  by (induction n) auto

lemma length_to_be [simp]: "length (to_be (w :: ('a::len) word)) = LENGTH('a) div 8"
  by (simp add: to_be_def)

lemma be_nat_digits: "be_nat (be_digits n k) = k mod 256 ^ n"
proof (induction n)
  case 0
  then show ?case by simp
next
  case (Suc n)
  have "unat (word_of_nat (k div 256 ^ n) :: u8) = k div 256 ^ n mod 256"
    by (simp add: unat_of_nat)
  moreover have "k mod 256 ^ Suc n = (k div 256 ^ n mod 256) * 256 ^ n + k mod 256 ^ n"
    using mod_mult2_eq [of k "256 ^ n" 256] by (simp add: mult.commute)
  ultimately show ?case using Suc by simp
qed

lemma be_nat_less: "be_nat bs < 256 ^ length bs"
proof (induction bs)
  case Nil
  then show ?case by simp
next
  case (Cons b bs)
  have "unat b < 256" using unsigned_less [of b, where 'a = nat] by simp
  then have "Suc (unat b) * 256 ^ length bs \<le> 256 * 256 ^ length bs"
    by (intro mult_right_mono) auto
  with Cons show ?case by (simp only: be_nat.simps list.size mult_Suc power_Suc add.right_neutral
        add_Suc_right)
qed

lemma be_digits_add:
  assumes "n \<le> m"
  shows "be_digits n (c * 256 ^ m + k) = be_digits n k"
  using assms
proof (induction n)
  case 0
  then show ?case by simp
next
  case (Suc n)
  then obtain d where m: "m = Suc n + d" using le_Suc_ex by blast
  have "(c * 256 ^ m + k) div 256 ^ n = 256 * (c * 256 ^ d) + k div 256 ^ n"
    using div_mult_self1 [of "256 ^ n" k "c * 256 ^ d * 256"]
    by (simp add: m power_add mult_ac add_ac)
  moreover have "(word_of_nat (256 * x) :: u8) = 0" for x
    by (subst word_of_nat_eq_0_iff) simp
  ultimately have "(word_of_nat ((c * 256 ^ m + k) div 256 ^ n) :: u8) = word_of_nat (k div 256 ^ n)"
    by (simp only: of_nat_add add_0)
  with Suc show ?case by simp
qed

lemma be_digits_nat: "be_digits (length bs) (be_nat bs) = bs"
proof (induction bs)
  case Nil
  then show ?case by simp
next
  case (Cons b bs)
  have "(unat b * 256 ^ length bs + be_nat bs) div 256 ^ length bs = unat b"
    using be_nat_less [of bs] by simp
  with Cons show ?case by (simp add: be_digits_add)
qed

lemma from_be_to_be:
  assumes "8 dvd LENGTH('a)"
  shows "from_be (to_be w) = (w :: ('a::len) word)"
proof -
  obtain k where k: "LENGTH('a) = 8 * k" using assms by (auto simp: dvd_def)
  have "(256::nat) ^ k = 2 ^ LENGTH('a)" by (simp add: k power_mult)
  then have "unat w < 256 ^ k" using unsigned_less [of w, where 'a = nat] by simp
  then show ?thesis by (simp add: from_be_def to_be_def be_nat_digits k)
qed

lemma to_be_from_be:
  assumes "8 dvd LENGTH('a)" and "length bs = LENGTH('a) div 8"
  shows "to_be (from_be bs :: ('a::len) word) = bs"
proof -
  have *: "(256::nat) ^ length bs = 2 ^ LENGTH('a)"
    using assms by (auto simp: dvd_def power_mult)
  have "unat (word_of_nat (be_nat bs) :: 'a word) = be_nat bs"
    using be_nat_less [of bs] by (simp add: * unat_of_nat)
  then show ?thesis
    using be_digits_nat [of bs] assms by (simp add: to_be_def from_be_def)
qed

lemma be_word_round_trip [simp]:
  "from_be (to_be (a :: u16)) = a"
  "from_be (to_be (b :: u32)) = b"
  "from_be (to_be (c :: u64)) = c"
  "from_be (to_be (d :: 128 word)) = d"
  by (simp_all add: from_be_to_be)

lemma to_be_from_be_word [simp]:
  "length bs = 2 \<Longrightarrow> to_be (from_be bs :: u16) = bs"
  "length bs = 4 \<Longrightarrow> to_be (from_be bs :: u32) = bs"
  "length bs = 8 \<Longrightarrow> to_be (from_be bs :: u64) = bs"
  "length bs = 16 \<Longrightarrow> to_be (from_be bs :: 128 word) = bs"
  by (simp_all add: to_be_from_be)

lemma to_be_u64_iff: "length bs = 8 \<Longrightarrow> to_be (w :: u64) = bs \<longleftrightarrow> w = from_be bs"
  by auto

section \<open>Slices\<close>

text \<open>\<open>slice b i j\<close> is \<open>&b[i..j]\<close>; the callers below check the bounds first, as the
  source does.\<close>

definition slice :: "'a list \<Rightarrow> nat \<Rightarrow> nat \<Rightarrow> 'a list" where
  "slice xs i j = take (j - i) (drop i xs)"

lemma length_slice [simp]: "length (slice xs i j) = min (j - i) (length xs - i)"
  by (simp add: slice_def min.commute)

lemma slice_append_left [simp]:
  "i = 0 \<Longrightarrow> j = length xs \<Longrightarrow> slice (xs @ ys) i j = xs"
  by (simp add: slice_def)

lemma slice_append_right [simp]:
  "length xs \<le> i \<Longrightarrow> slice (xs @ ys) i j = slice ys (i - length xs) (j - length xs)"
  by (simp add: slice_def)

lemma slice_full [simp]: "j = length xs \<Longrightarrow> slice xs 0 j = xs"
  by (simp add: slice_def)

lemma slice_Cons_pos [simp]: "0 < i \<Longrightarrow> slice (x # xs) i j = slice xs (i - 1) (j - 1)"
  by (cases i) (simp_all add: slice_def)

lemma slice_split: "i \<le> j \<Longrightarrow> j \<le> k \<Longrightarrow> slice xs i j @ slice xs j k = slice xs i k"
proof -
  assume "i \<le> j" "j \<le> k"
  then have "take (j - i) (drop i xs) @ take (k - j) (drop (j - i) (drop i xs)) =
    take ((j - i) + (k - j)) (drop i xs)"
    by (simp only: take_add)
  with \<open>i \<le> j\<close> \<open>j \<le> k\<close> show ?thesis by (simp add: slice_def)
qed

lemma slice_nth: "i < j \<Longrightarrow> i < length xs \<Longrightarrow> slice xs i j = xs ! i # slice xs (Suc i) j"
  by (simp add: slice_def Suc_diff_Suc take_Cons' flip: Cons_nth_drop_Suc)

lemma slice_empty [simp]: "j \<le> i \<Longrightarrow> slice xs i j = []"
  by (simp add: slice_def)

lemma take_slice: "take n xs = slice xs 0 n"
  by (simp add: slice_def)

lemma to_be_u16_iff: "to_be (w :: u16) = [a, b] \<longleftrightarrow> w = from_be [a, b]"
  by (metis be_word_round_trip(1) to_be_from_be_word(1) length_Cons list.size(3) numeral_2_eq_2)

lemma to_be_u16_pair: "\<exists>a b. to_be (w :: u16) = [a, b]"
proof -
  have "length (to_be w) = Suc (Suc 0)" by simp
  then show ?thesis by (auto simp only: length_Suc_conv length_0_conv)
qed

lemma to_be_u16_append: "to_be (w :: u16) @ v = a # b # v' \<longleftrightarrow> w = from_be [a, b] \<and> v = v'"
proof -
  have "to_be w @ v = [a, b] @ v' \<longleftrightarrow> to_be w = [a, b] \<and> v = v'"
    by (rule append_eq_append_conv) simp
  then show ?thesis by (simp add: to_be_u16_iff)
qed

section \<open>Text\<close>

text \<open>
  A Rust \<open>str\<close> is the \<open>string\<close> of its UTF-8 bytes, one \<open>char\<close> per byte, so its
  \<open>len()\<close> is the \<open>length\<close> of the string. \<open>from_utf8\<close> is the standard library's
  validation: overlong forms, surrogates and values above U+10FFFF are refused.
\<close>

definition byte_of_char :: "char \<Rightarrow> u8" where
  "byte_of_char c = word_of_nat (of_char c)"

definition char_of_byte :: "u8 \<Rightarrow> char" where
  "char_of_byte b = char_of (unat b)"

definition as_bytes :: "string \<Rightarrow> bytes" where
  "as_bytes s = map byte_of_char s"

definition cont_byte :: "u8 \<Rightarrow> bool" where
  "cont_byte b \<longleftrightarrow> 128 \<le> b \<and> b < 192"

fun utf8_valid :: "bytes \<Rightarrow> bool" where
  "utf8_valid [] = True"
| "utf8_valid (a # bs) =
     (if a < 128 then utf8_valid bs
      else case bs of
        [] \<Rightarrow> False
      | b # cs \<Rightarrow>
          if 0xC2 \<le> a \<and> a \<le> 0xDF then cont_byte b \<and> utf8_valid cs
          else case cs of
            [] \<Rightarrow> False
          | c # ds \<Rightarrow>
              if 0xE0 \<le> a \<and> a \<le> 0xEF then
                (if a = 0xE0 then 0xA0 \<le> b \<and> b < 0xC0
                 else if a = 0xED then 0x80 \<le> b \<and> b < 0xA0
                 else cont_byte b) \<and> cont_byte c \<and> utf8_valid ds
              else case ds of
                [] \<Rightarrow> False
              | d # es \<Rightarrow>
                  0xF0 \<le> a \<and> a \<le> 0xF4 \<and>
                  (if a = 0xF0 then 0x90 \<le> b \<and> b < 0xC0
                   else if a = 0xF4 then 0x80 \<le> b \<and> b < 0x90
                   else cont_byte b) \<and> cont_byte c \<and> cont_byte d \<and> utf8_valid es)"

definition from_utf8 :: "bytes \<Rightarrow> string option" where
  "from_utf8 bs = (if utf8_valid bs then Some (map char_of_byte bs) else None)"

lemma char_of_byte_of_char [simp]: "char_of_byte (byte_of_char c) = c"
  by (simp add: char_of_byte_def byte_of_char_def unat_of_nat)

lemma byte_of_char_of_byte [simp]: "byte_of_char (char_of_byte b) = b"
proof -
  have "unat b < 256" using unsigned_less [of b, where 'a = nat] by simp
  then show ?thesis by (simp add: char_of_byte_def byte_of_char_def)
qed

lemma as_bytes_inject [simp]: "as_bytes s = as_bytes t \<longleftrightarrow> s = t"
  unfolding as_bytes_def by (metis char_of_byte_of_char inj_map_eq_map inj_onI)

lemma length_as_bytes [simp]: "length (as_bytes s) = length s"
  by (simp add: as_bytes_def)

lemma as_bytes_append [simp]: "as_bytes (s @ t) = as_bytes s @ as_bytes t"
  by (simp add: as_bytes_def)

text \<open>A string is text when its bytes are valid UTF-8, as every Rust \<open>str\<close> is.\<close>

definition is_str :: "string \<Rightarrow> bool" where
  "is_str s \<longleftrightarrow> utf8_valid (as_bytes s)"

lemma from_utf8_as_bytes [simp]: "is_str s \<Longrightarrow> from_utf8 (as_bytes s) = Some s"
  by (simp add: from_utf8_def is_str_def as_bytes_def comp_def)

lemma from_utf8_eq_Some: "from_utf8 bs = Some s \<longleftrightarrow> is_str s \<and> bs = as_bytes s"
  by (auto simp: from_utf8_def is_str_def as_bytes_def comp_def split: if_splits)

lemma utf8_valid_ascii: "\<forall>b\<in>set bs. b < 128 \<Longrightarrow> utf8_valid bs"
  by (induction bs) auto

section \<open>Interfaces\<close>

text \<open>
  A wire format with exactly one spelling per value: what is encoded decodes to
  itself, and whatever decodes is the encoding of what it decoded to.
\<close>

locale codec =
  fixes enc :: "'a \<Rightarrow> 'w"
    and dec :: "'w \<Rightarrow> 'a option"
    and ok :: "'a \<Rightarrow> bool"
  assumes dec_enc: "ok x \<Longrightarrow> dec (enc x) = Some x"
    and dec_sound: "dec b = Some x \<Longrightarrow> ok x \<and> enc x = b"
begin

lemma dec_iff: "dec b = Some x \<longleftrightarrow> ok x \<and> b = enc x"
  using dec_enc dec_sound by blast

lemma enc_inject: "ok x \<Longrightarrow> ok y \<Longrightarrow> enc x = enc y \<longleftrightarrow> x = y"
  by (metis dec_enc option.inject)

lemma one_spelling: "dec b = Some x \<Longrightarrow> dec c = Some x \<Longrightarrow> b = c"
  using dec_sound by blast

lemma rejects_iff: "dec b = None \<longleftrightarrow> (\<nexists>x. ok x \<and> b = enc x)"
  using dec_iff by (metis not_Some_eq)

end

text \<open>
  A format read from the front of a stream: the decoder returns the value and the
  number of bytes it used, and ignores what follows.
\<close>

locale prefix_codec =
  fixes enc :: "'a \<Rightarrow> bytes"
    and dec :: "bytes \<Rightarrow> ('a \<times> nat) option"
    and ok :: "'a \<Rightarrow> bool"
  assumes dec_enc_append: "ok x \<Longrightarrow> dec (enc x @ rest) = Some (x, length (enc x))"
    and dec_prefix: "dec b = Some (x, n) \<Longrightarrow> ok x \<and> n \<le> length b \<and> enc x = take n b"
begin

lemma dec_enc_exact: "ok x \<Longrightarrow> dec (enc x) = Some (x, length (enc x))"
  using dec_enc_append [of x "[]"] by simp

lemma dec_used: "dec b = Some (x, n) \<Longrightarrow> n = length (enc x)"
  using dec_prefix [of b x n] by simp

lemma prefix_free: "ok x \<Longrightarrow> ok y \<Longrightarrow> enc x @ r = enc y @ s \<Longrightarrow> x = y \<and> r = s"
  using dec_enc_append [of x r] dec_enc_append [of y s] by auto

end

text \<open>
  A component driven one operation at a time: if every operation keeps the
  invariant, so does every sequence of operations.
\<close>

locale machine =
  fixes step :: "'e \<Rightarrow> 's \<Rightarrow> 's"
    and inv :: "'s \<Rightarrow> bool"
  assumes step_inv: "inv s \<Longrightarrow> inv (step e s)"
begin

lemma run_inv: "inv s \<Longrightarrow> inv (fold step es s)"
  by (induction es arbitrary: s) (simp_all add: step_inv)

lemma run_prefix_inv: "inv s \<Longrightarrow> inv (fold step (take n es) s)"
  by (rule run_inv)

end

end
