(* ===== verification/Primitives.thy ===== *)
theory Primitives
  imports Link_Prelude
begin

text \<open>
  The cryptographic primitives the program takes from third-party crates
  (\<open>ed25519-dalek\<close>, \<open>sha2\<close>, \<open>hmac\<close>, \<open>hkdf\<close>, \<open>k256\<close>). They are fields of
  a record every definition that needs one takes as an argument; what a theorem relies on is
  one of the named predicates below, each a documented behaviour of the crate.
\<close>

record crypto =
  ed_decompress :: "32 arr \<Rightarrow> bool"
    \<comment> \<open>\<open>VerifyingKey::from_bytes\<close> succeeds\<close>
  ed_verify_strict :: "32 arr \<Rightarrow> bytes \<Rightarrow> 64 arr \<Rightarrow> bool"
    \<comment> \<open>\<open>VerifyingKey::verify_strict\<close> succeeds\<close>
  ed_public :: "32 arr \<Rightarrow> 32 arr"
    \<comment> \<open>\<open>SigningKey::from_bytes(seed).verifying_key().to_bytes()\<close>\<close>
  ed_sign :: "32 arr \<Rightarrow> bytes \<Rightarrow> 64 arr"
    \<comment> \<open>\<open>SigningKey::sign\<close>\<close>
  sha256 :: "bytes \<Rightarrow> 32 arr"
  hmac_sha256 :: "bytes \<Rightarrow> bytes \<Rightarrow> 32 arr"
    \<comment> \<open>key, then message\<close>
  hkdf_sha256_16 :: "bytes \<Rightarrow> bytes \<Rightarrow> bytes \<Rightarrow> 16 arr"
    \<comment> \<open>salt, input key material, info; 16 bytes expanded\<close>
  secp_point :: "bytes \<Rightarrow> bool"
    \<comment> \<open>\<open>k256::PublicKey::from_sec1_bytes\<close> succeeds\<close>
  secp_scalar :: "32 arr \<Rightarrow> bool"
    \<comment> \<open>\<open>k256::SecretKey::from_slice\<close> succeeds\<close>
  secp_dh :: "32 arr \<Rightarrow> bytes \<Rightarrow> 32 arr"
    \<comment> \<open>raw x coordinate of the shared point\<close>
  secp_public :: "32 arr \<Rightarrow> 33 arr"
    \<comment> \<open>compressed SEC1 public key of a scalar\<close>

text \<open>RFC 8032 and the crate's documentation: a public key made from a seed is a valid
  key and strictly verifies every signature made with that seed.\<close>

definition ed25519_correct :: "crypto \<Rightarrow> bool" where
  "ed25519_correct cr \<longleftrightarrow>
     (\<forall>seed. ed_decompress cr (ed_public cr seed)) \<and>
     (\<forall>seed m. ed_verify_strict cr (ed_public cr seed) m (ed_sign cr seed m))"

text \<open>Diffie-Hellman commutes: the two ends of an exchange compute the same x coordinate.\<close>

definition secp_dh_correct :: "crypto \<Rightarrow> bool" where
  "secp_dh_correct cr \<longleftrightarrow>
     (\<forall>a b. secp_scalar cr a \<and> secp_scalar cr b \<longrightarrow>
        secp_dh cr a (bytes_of (secp_public cr b)) = secp_dh cr b (bytes_of (secp_public cr a)) \<and>
        secp_point cr (bytes_of (secp_public cr a)) \<and>
        hd (bytes_of (secp_public cr a)) \<in> {2, 3})"

text \<open>
  A concrete instance of the record, with no cryptographic strength, which satisfies every
  predicate above. It is only the input at which theorems with such a hypothesis are evaluated.
\<close>

definition plain_crypto :: crypto where
  "plain_crypto =
     \<lparr>ed_decompress = \<lambda>_. True,
      ed_verify_strict = \<lambda>k m s. s = mk_arr (bytes_of k @ rev m),
      ed_public = \<lambda>seed. seed,
      ed_sign = \<lambda>seed m. mk_arr (bytes_of seed @ rev m),
      sha256 = \<lambda>m. mk_arr (rev m),
      hmac_sha256 = \<lambda>k m. mk_arr (rev m @ k),
      hkdf_sha256_16 = \<lambda>salt ikm info. mk_arr (rev info @ rev ikm),
      secp_point = \<lambda>b. length b = 33,
      secp_scalar = \<lambda>s. True,
      secp_dh = \<lambda>a B. mk_arr (map2 (+) (bytes_of a) (tl B)),
      secp_public = \<lambda>a. mk_arr (2 # bytes_of a)\<rparr>"

lemma plain_crypto_ed25519: "ed25519_correct plain_crypto"
  by (simp add: ed25519_correct_def plain_crypto_def)

lemma map2_add_commute: "map2 (+) xs ys = map2 (+) ys (xs :: 'a :: ab_semigroup_add list)"
  by (induction xs ys rule: list_induct2') (simp_all add: add.commute)

lemma plain_crypto_secp: "secp_dh_correct plain_crypto"
  by (simp add: secp_dh_correct_def plain_crypto_def map2_add_commute)

end
