(* ===== verification/Net_Addr.thy ===== *)
theory Net_Addr
  imports Link_Prelude
begin

text \<open>
  Socket addresses as the standard library has them, and the two conversions of
  \<open>link-core/src/card.rs\<close> between an address and the 16-octet form the wire formats
  carry. The flow label and scope id of an IPv6 socket address are left out: they are zero
  in every address the program builds.
\<close>

datatype ip_addr = V4 u32 | V6 "128 word"

record socket_addr =
  ip :: ip_addr
  port :: u16

abbreviation socket :: "ip_addr \<Rightarrow> u16 \<Rightarrow> socket_addr" where
  "socket a p \<equiv> \<lparr>ip = a, port = p\<rparr>"

text \<open>\<open>Ipv4Addr::to_ipv6_mapped\<close> is \<open>::ffff:a.b.c.d\<close>; \<open>to_ipv4_mapped\<close> undoes exactly
  that form.\<close>

definition to_ipv6_mapped :: "u32 \<Rightarrow> 128 word" where
  "to_ipv6_mapped v4 = word_of_nat (0xFFFF00000000 + unat v4)"

definition to_ipv4_mapped :: "128 word \<Rightarrow> u32 option" where
  "to_ipv4_mapped v6 =
     (if unat v6 div 2 ^ 32 = 0xFFFF then Some (word_of_nat (unat v6)) else None)"

fun to_ipv6 :: "ip_addr \<Rightarrow> 128 word" where
  "to_ipv6 (V6 v6) = v6"
| "to_ipv6 (V4 v4) = to_ipv6_mapped v4"

definition unmap_ipv6 :: "socket_addr \<Rightarrow> socket_addr" where
  "unmap_ipv6 addr =
     (case ip addr of
        V6 v6 \<Rightarrow> (case to_ipv4_mapped v6 of
                   Some v4 \<Rightarrow> socket (V4 v4) (port addr)
                 | None \<Rightarrow> addr)
      | V4 _ \<Rightarrow> addr)"

lemma to_ipv4_mapped_mapped [simp]: "to_ipv4_mapped (to_ipv6_mapped v4) = Some v4"
proof -
  have "unat v4 < 2 ^ 32" using unsigned_less [of v4, where 'a = nat] by simp
  then have *: "unat (to_ipv6_mapped v4) = 0xFFFF * 2 ^ 32 + unat v4"
    unfolding to_ipv6_mapped_def by (subst unat_of_nat) simp
  have "(word_of_nat (0xFFFF * 2 ^ 32 + unat v4) :: u32) = v4"
    by (simp add: word_of_nat_eq_iff take_bit_eq_mod)
  then show ?thesis
    using \<open>unat v4 < 2 ^ 32\<close> by (simp add: to_ipv4_mapped_def *)
qed

lemma to_ipv4_mapped_SomeD: "to_ipv4_mapped v6 = Some v4 \<Longrightarrow> to_ipv6_mapped v4 = v6"
proof -
  assume "to_ipv4_mapped v6 = Some v4"
  then have d: "unat v6 div 2 ^ 32 = 0xFFFF" and v4: "v4 = word_of_nat (unat v6)"
    by (auto simp: to_ipv4_mapped_def split: if_splits)
  have "unat v4 = unat v6 mod 2 ^ 32" unfolding v4 by (subst unat_of_nat) simp
  moreover have "0xFFFF * 2 ^ 32 + unat v6 mod 2 ^ 32 = unat v6"
    using div_mult_mod_eq [of "unat v6" "2 ^ 32"] by (simp only: d)
  ultimately have "0xFFFF00000000 + unat v4 = unat v6" by simp
  then show "to_ipv6_mapped v4 = v6" by (simp only: to_ipv6_mapped_def) simp
qed

text \<open>An address is in socket form when it is not a v4-mapped IPv6 address, the form
  \<open>unmap_ipv6\<close> always returns.\<close>

definition unmapped :: "socket_addr \<Rightarrow> bool" where
  "unmapped addr \<longleftrightarrow> unmap_ipv6 addr = addr"

lemma unmap_wire_form: "unmap_ipv6 (socket (V6 (to_ipv6 (ip a))) (port a)) = unmap_ipv6 a"
  by (cases a; cases "ip a") (auto simp: unmap_ipv6_def split: option.splits)

lemma unmap_idem [simp]: "unmap_ipv6 (unmap_ipv6 a) = unmap_ipv6 a"
  by (auto simp: unmap_ipv6_def split: ip_addr.splits option.splits)

lemma to_ipv6_unmap [simp]: "to_ipv6 (ip (unmap_ipv6 a)) = to_ipv6 (ip a)"
  by (auto simp: unmap_ipv6_def to_ipv4_mapped_SomeD split: ip_addr.splits option.splits)

lemma port_unmap [simp]: "port (unmap_ipv6 a) = port a"
  by (auto simp: unmap_ipv6_def split: ip_addr.splits option.splits)

text \<open>Two addresses have one wire form exactly when they are one socket address.\<close>

lemma unmap_eq_iff:
  "unmap_ipv6 a = unmap_ipv6 b \<longleftrightarrow> to_ipv6 (ip a) = to_ipv6 (ip b) \<and> port a = port b"
  by (metis unmap_wire_form to_ipv6_unmap port_unmap)

end
