(* ===== verification/Node_Id.thy ===== *)
theory Node_Id
  imports Primitives Net_Addr
begin

text \<open>
  \<open>link-core/src/id.rs\<close>: node ids, their base32 text, the SPKI that carries them in TLS,
  the synthetic address QUIC uses for a peer, and transport keys. The base32 routines keep
  the source's 32-bit shift register; they are related to plain base-32 digits of the key
  read as one big-endian number.
\<close>

unbundle bit_operations_syntax

datatype node_id = NodeId (node_bytes: "32 arr")

lemma node_bytes_eq_iff [simp]: "node_bytes a = node_bytes b \<longleftrightarrow> a = b"
  by (cases a; cases b) simp

instantiation node_id :: linorder
begin

definition less_eq_node_id :: "node_id \<Rightarrow> node_id \<Rightarrow> bool" where
  "less_eq_node_id a b \<longleftrightarrow> node_bytes a \<le> node_bytes b"

definition less_node_id :: "node_id \<Rightarrow> node_id \<Rightarrow> bool" where
  "less_node_id a b \<longleftrightarrow> node_bytes a < node_bytes b"

instance
  by standard (auto simp: less_eq_node_id_def less_node_id_def less_le)

end

definition ADDR_DOMAIN :: bytes where
  "ADDR_DOMAIN = as_bytes ''forgesworn-link/addr/v1'' @ [0]"

definition SPKI_ED25519_PREFIX :: bytes where
  "SPKI_ED25519_PREFIX =
     [0x30, 0x2a, 0x30, 0x05, 0x06, 0x03, 0x2b, 0x65, 0x70, 0x03, 0x21, 0x00]"

definition PKCS8_ED25519_PREFIX :: bytes where
  "PKCS8_ED25519_PREFIX =
     [0x30, 0x2e, 0x02, 0x01, 0x00, 0x30, 0x05, 0x06, 0x03, 0x2b, 0x65, 0x70, 0x04, 0x22, 0x04, 0x20]"

definition SYNTHETIC_PORT :: u16 where
  "SYNTHETIC_PORT = 7"

definition BASE32_ALPHABET :: string where
  "BASE32_ALPHABET = ''abcdefghijklmnopqrstuvwxyz234567''"

definition from_slice :: "bytes \<Rightarrow> node_id option" where
  "from_slice b = map_option NodeId (to_arr b)"

section \<open>Base32 text\<close>

text \<open>The inner \<open>while bits >= 5\<close> loop of \<open>to_base32\<close>: the characters pushed and the
  bits left.\<close>

fun b32_drain :: "u32 \<Rightarrow> nat \<Rightarrow> string \<times> nat" where
  "b32_drain acc bits =
     (if 5 \<le> bits then
        let c = BASE32_ALPHABET ! unat (drop_bit (bits - 5) acc AND 31);
            (out, rest) = b32_drain acc (bits - 5)
        in (c # out, rest)
      else ([], bits))"

declare b32_drain.simps [simp del]

text \<open>The \<open>for byte in self.0\<close> loop, over the register, the bits it holds and the output.\<close>

fun b32_encode_loop :: "bytes \<Rightarrow> u32 \<Rightarrow> nat \<Rightarrow> string \<Rightarrow> u32 \<times> nat \<times> string" where
  "b32_encode_loop [] acc bits out = (acc, bits, out)"
| "b32_encode_loop (byte # rest) acc bits out =
     (let acc = push_bit 8 acc OR ucast byte;
          (chars, bits) = b32_drain acc (bits + 8)
      in b32_encode_loop rest acc bits (out @ chars))"

definition to_base32 :: "node_id \<Rightarrow> string" where
  "to_base32 self =
     (let (acc, bits, out) = b32_encode_loop (bytes_of (node_bytes self)) 0 0 []
      in if 0 < bits then out @ [BASE32_ALPHABET ! unat (push_bit (5 - bits) acc AND 31)] else out)"

text \<open>\<open>iter().position\<close> on the alphabet.\<close>

fun position :: "'a \<Rightarrow> 'a list \<Rightarrow> nat option" where
  "position x [] = None"
| "position x (y # ys) = (if y = x then Some 0 else map_option Suc (position x ys))"

fun b32_decode_loop :: "string \<Rightarrow> u32 \<Rightarrow> nat \<Rightarrow> bytes \<Rightarrow> bytes option" where
  "b32_decode_loop [] acc bits out = Some out"
| "b32_decode_loop (ch # rest) acc bits out =
     (case position ch BASE32_ALPHABET of
        None \<Rightarrow> None
      | Some value \<Rightarrow>
          let acc = push_bit 5 acc OR word_of_nat value;
              bits = bits + 5
          in if 8 \<le> bits
             then b32_decode_loop rest acc (bits - 8)
                    (out @ [ucast (drop_bit (bits - 8) acc AND 0xff)])
             else b32_decode_loop rest acc bits out)"

definition from_base32 :: "string \<Rightarrow> node_id option" where
  "from_base32 text =
     (if length text \<noteq> 52 then None
      else case b32_decode_loop text 0 0 [] of
        None \<Rightarrow> None
      | Some out \<Rightarrow>
          (case from_slice out of
             None \<Rightarrow> None
           | Some node \<Rightarrow> if to_base32 node \<noteq> text then None else Some node))"

section \<open>Keys, SPKI and the synthetic address\<close>

definition node_verify :: "crypto \<Rightarrow> node_id \<Rightarrow> bytes \<Rightarrow> 64 arr \<Rightarrow> bool" where
  "node_verify cr self message signature \<longleftrightarrow>
     (if ed_decompress cr (node_bytes self)
      then ed_verify_strict cr (node_bytes self) message signature
      else False)"

definition spki_der :: "node_id \<Rightarrow> 44 arr" where
  "spki_der self = mk_arr (SPKI_ED25519_PREFIX @ bytes_of (node_bytes self))"

definition synthetic_addr :: "crypto \<Rightarrow> node_id \<Rightarrow> socket_addr" where
  "synthetic_addr cr self =
     (let digest = bytes_of (sha256 cr (ADDR_DOMAIN @ bytes_of (node_bytes self)));
          octets = [0xfd, 0x00] @ take 14 digest
      in socket (V6 (from_be octets)) SYNTHETIC_PORT)"

definition node_id_from_spki :: "bytes \<Rightarrow> node_id option" where
  "node_id_from_spki der =
     (if length der \<noteq> 44 \<or> take 12 der \<noteq> SPKI_ED25519_PREFIX then None
      else from_slice (drop 12 der))"

record transport_key =
  seed :: "32 arr"
  key_node_id :: node_id

definition from_seed :: "crypto \<Rightarrow> 32 arr \<Rightarrow> transport_key" where
  "from_seed cr s = \<lparr>seed = s, key_node_id = NodeId (ed_public cr s)\<rparr>"

definition key_sign :: "crypto \<Rightarrow> transport_key \<Rightarrow> bytes \<Rightarrow> 64 arr" where
  "key_sign cr self message = ed_sign cr (seed self) message"

definition pkcs8_der :: "transport_key \<Rightarrow> 48 arr" where
  "pkcs8_der self = mk_arr (PKCS8_ED25519_PREFIX @ bytes_of (seed self))"

section \<open>The base32 routines compute base-32 digits\<close>

text \<open>Reference definition: the last \<open>n\<close> base-32 digits of a number, and their value.\<close>

primrec b32_digits :: "nat \<Rightarrow> nat \<Rightarrow> nat list" where
  "b32_digits 0 k = []"
| "b32_digits (Suc n) k = (k div 32 ^ n mod 32) # b32_digits n k"

primrec b32_nat :: "nat list \<Rightarrow> nat" where
  "b32_nat [] = 0"
| "b32_nat (v # vs) = v * 32 ^ length vs + b32_nat vs"

abbreviation b32_text :: "nat list \<Rightarrow> string" where
  "b32_text \<equiv> map ((!) BASE32_ALPHABET)"

lemma length_b32_digits [simp]: "length (b32_digits n k) = n"
  by (induction n) auto

lemma b32_digits_less: "v \<in> set (b32_digits n k) \<Longrightarrow> v < 32"
  by (induction n) auto

lemma b32_digits_add: "b32_digits (m + n) k = b32_digits m (k div 32 ^ n) @ b32_digits n k"
  by (induction m) (simp_all flip: div_mult2_eq add: power_add mult.commute)

lemma b32_nat_digits: "b32_nat (b32_digits n k) = k mod 32 ^ n"
proof (induction n)
  case 0
  then show ?case by simp
next
  case (Suc n)
  then show ?case
    using mod_mult2_eq [of k "32 ^ n" 32] by (simp add: mult.commute)
qed

lemma b32_nat_less: "\<forall>v\<in>set vs. v < 32 \<Longrightarrow> b32_nat vs < 32 ^ length vs"
proof (induction vs)
  case Nil
  then show ?case by simp
next
  case (Cons v vs)
  then have "Suc v * 32 ^ length vs \<le> 32 * 32 ^ length vs" by (intro mult_right_mono) auto
  moreover have "b32_nat vs < 32 ^ length vs" using Cons by simp
  ultimately show ?case
    by (simp only: b32_nat.simps list.size power_Suc mult_Suc add_Suc_right add.right_neutral)
qed

lemma pow2_32: "(2::nat) ^ a * 32 ^ n = 2 ^ (a + 5 * n)"
  and pow2_256: "(2::nat) ^ a * 256 ^ n = 2 ^ (a + 8 * n)"
  by (simp_all add: power_add power_mult)

lemma shift_register:
  assumes "unat b < 2 ^ n"
  shows "push_bit n (word_of_nat N) OR b = (word_of_nat (N * 2 ^ n + unat b) :: u32)"
proof -
  have "push_bit n (word_of_nat N) AND b = 0"
  proof (rule bit_word_eqI)
    fix i
    have "\<not> bit b i" if "n \<le> i"
    proof -
      have "take_bit n (unat b) = unat b" using assms by (simp add: take_bit_nat_eq_self)
      then have "\<not> bit (unat b) i" using that by (metis bit_take_bit_iff not_less)
      then show ?thesis by (simp add: bit_unsigned_iff bit_imp_le_length)
    qed
    then show "bit (push_bit n (word_of_nat N) AND b) i \<longleftrightarrow> bit (0 :: u32) i"
      by (auto simp: bit_simps)
  qed
  then have "push_bit n (word_of_nat N) OR b = push_bit n (word_of_nat N) + b"
    by (rule disjunctive_add_eq_or [symmetric])
  then show ?thesis by (simp add: push_bit_eq_mult)
qed

lemma register_window:
  assumes "j + w \<le> 32"
  shows "unat (take_bit w (drop_bit j (word_of_nat N :: u32))) = N div 2 ^ j mod 2 ^ w"
proof -
  have "take_bit w (drop_bit j (take_bit 32 N)) = take_bit w (drop_bit j N)"
    using assms by (intro bit_eqI) (auto simp: bit_simps)
  then show ?thesis
    by (simp add: unsigned_take_bit_eq unsigned_drop_bit_eq unsigned_of_nat
        flip: take_bit_eq_mod drop_bit_eq_div)
qed

lemma and_31: "x AND 31 = take_bit 5 (x :: u32)"
  and and_255: "x AND 255 = take_bit 8 (x :: u32)"
  by (simp_all add: take_bit_eq_mask mask_eq_exp_minus_1)

lemma b32_drain_digits:
  assumes "bits \<le> 32"
  shows "b32_drain (word_of_nat N) bits =
    (b32_text (b32_digits (bits div 5) (N div 2 ^ (bits mod 5))), bits mod 5)"
  using assms
proof (induction bits rule: less_induct)
  case (less bits)
  show ?case
  proof (cases "5 \<le> bits")
    case True
    then obtain d where d: "bits = d + 5" using le_Suc_ex by (metis add.commute)
    have "N div 2 ^ (d mod 5) div 32 ^ (d div 5) = N div 2 ^ d"
      by (simp add: pow2_32 flip: div_mult2_eq)
    moreover have "b32_drain (word_of_nat N) d =
      (b32_text (b32_digits (d div 5) (N div 2 ^ (d mod 5))), d mod 5)"
      using less d by simp
    moreover have "unat (drop_bit d (word_of_nat N :: u32) AND 31) = N div 2 ^ d mod 32"
      using register_window [of d 5 N] less.prems d by (simp add: and_31)
    moreover have "(d + 5) div 5 = Suc (d div 5)" by simp
    ultimately show ?thesis
      by (subst b32_drain.simps) (simp only: d, simp)
  next
    case False
    then show ?thesis by (subst b32_drain.simps) simp
  qed
qed

lemma drain_arith:
  "(x mod 5 + y) mod 5 = (x + y) mod (5::nat)"
  "x div 5 + (x mod 5 + y) div 5 = (x + y) div (5::nat)"
proof -
  show "(x mod 5 + y) mod 5 = (x + y) mod (5::nat)" by (rule mod_add_left_eq)
  have "x + y = (x mod 5 + y) + 5 * (x div 5)" by simp
  then show "x div 5 + (x mod 5 + y) div 5 = (x + y) div (5::nat)"
    using div_mult_self2 [of 5 "x mod 5 + y" "x div 5"] by simp
qed

lemma b32_encode_loop_digits:
  assumes "bits < 5" and "out = b32_text (b32_digits m (N div 2 ^ bits))"
  shows "b32_encode_loop bs (word_of_nat N) bits out =
    (let N' = N * 256 ^ length bs + be_nat bs; t = bits + 8 * length bs
     in (word_of_nat N', t mod 5, b32_text (b32_digits (m + t div 5) (N' div 2 ^ (t mod 5)))))"
  using assms
proof (induction bs arbitrary: N bits out m)
  case Nil
  then show ?case by (simp add: Let_def)
next
  case (Cons b bs)
  define N1 where "N1 = N * 256 + unat b"
  define r q where "r = (bits + 8) mod 5" and "q = (bits + 8) div 5"
  have "unat b < 2 ^ 8" using unsigned_less [of b, where 'a = nat] by simp
  then have byte: "unat (ucast b :: u32) = unat b" "unat b < 2 ^ 8"
    by (simp_all add: unsigned_ucast_eq take_bit_nat_eq_self)
  have acc: "push_bit 8 (word_of_nat N) OR ucast b = (word_of_nat N1 :: u32)"
    using shift_register [of "ucast b" 8 N] byte by (simp add: N1_def)
  have drain: "b32_drain (word_of_nat N1) (bits + 8) = (b32_text (b32_digits q (N1 div 2 ^ r)), r)"
    using b32_drain_digits [of "bits + 8" N1] Cons.prems by (simp add: r_def q_def)
  have "N1 div 2 ^ r div 32 ^ q = N1 div 2 ^ 8 div 2 ^ bits"
    by (simp add: pow2_32 r_def q_def power_add mult.commute flip: div_mult2_eq)
  also have "\<dots> = N div 2 ^ bits" using byte by (simp add: N1_def)
  finally have out: "out @ b32_text (b32_digits q (N1 div 2 ^ r)) = b32_text (b32_digits (m + q) (N1 div 2 ^ r))"
    using Cons.prems by (simp add: b32_digits_add)
  have arith: "(r + 8 * length bs) mod 5 = (bits + 8 * length (b # bs)) mod 5"
    "q + (r + 8 * length bs) div 5 = (bits + 8 * length (b # bs)) div 5"
    using drain_arith [of "bits + 8" "8 * length bs"] by (simp_all add: r_def q_def add.assoc)
  have "N1 * 256 ^ length bs + be_nat bs = N * 256 ^ length (b # bs) + be_nat (b # bs)"
    by (simp add: N1_def algebra_simps)
  then show ?case
    using Cons.IH [of r "out @ b32_text (b32_digits q (N1 div 2 ^ r))" "m + q" N1] out arith
    by (simp add: acc drain Let_def r_def add.assoc)
qed

text \<open>The text of a node id is its key as a 260-bit number, four zero bits at the end, in
  52 base-32 digits.\<close>

lemma to_base32_digits:
  "to_base32 self = b32_text (b32_digits 52 (16 * be_nat (bytes_of (node_bytes self))))"
proof -
  define N where "N = be_nat (bytes_of (node_bytes self))"
  have loop: "b32_encode_loop (bytes_of (node_bytes self)) 0 0 [] =
    (word_of_nat N, 1, b32_text (b32_digits 51 (N div 2)))"
    using b32_encode_loop_digits [of 0 "[]" 0 0 "bytes_of (node_bytes self)"]
    by (simp add: N_def Let_def)
  have "unat (push_bit 4 (word_of_nat N) AND 31 :: u32) = 16 * N mod 32"
    using register_window [of 0 5 "16 * N"] by (simp add: and_31 push_bit_eq_mult mult.commute)
  moreover have "b32_digits 52 (16 * N) = b32_digits (51 + 1) (16 * N)" by simp
  ultimately show ?thesis
    by (simp only: b32_digits_add) (simp add: to_base32_def loop N_def [symmetric])
qed

lemma position_nth: "distinct ys \<Longrightarrow> i < length ys \<Longrightarrow> position (ys ! i) ys = Some i"
proof (induction ys arbitrary: i)
  case Nil
  then show ?case by simp
next
  case (Cons y ys)
  then show ?case by (cases i) auto
qed

lemma position_alphabet: "v < 32 \<Longrightarrow> position (BASE32_ALPHABET ! v) BASE32_ALPHABET = Some v"
  by (rule position_nth) (simp_all add: BASE32_ALPHABET_def)

lemma b32_decode_loop_digits:
  assumes "bits < 8" and "\<forall>v\<in>set vs. v < 32"
  shows "b32_decode_loop (b32_text vs) (word_of_nat N) bits out =
    (let N' = N * 32 ^ length vs + b32_nat vs; t = bits + 5 * length vs
     in Some (out @ be_digits (t div 8) (N' div 2 ^ (t mod 8))))"
  using assms
proof (induction vs arbitrary: N bits out)
  case Nil
  then show ?case by (simp add: Let_def)
next
  case (Cons v vs)
  define N1 where "N1 = N * 32 + v"
  define N' where "N' = N * 32 ^ length (v # vs) + b32_nat (v # vs)"
  define t where "t = bits + 5 * length (v # vs)"
  have v: "unat (word_of_nat v :: u32) = v" using Cons.prems by (simp add: unat_of_nat)
  have acc: "push_bit 5 (word_of_nat N) OR word_of_nat v = (word_of_nat N1 :: u32)"
    using shift_register [of "word_of_nat v" 5 N] Cons.prems v by (simp add: N1_def)
  have N': "N1 * 32 ^ length vs + b32_nat vs = N'" by (simp add: N1_def N'_def algebra_simps)
  have pos: "position (BASE32_ALPHABET ! v) BASE32_ALPHABET = Some v"
    using Cons.prems by (simp add: position_alphabet)
  show ?case
  proof (cases "8 \<le> bits + 5")
    case False
    then show ?thesis
      using Cons.IH [of "bits + 5" N1 out] Cons.prems
      by (simp add: pos acc Let_def N1_def algebra_simps)
  next
    case True
    define u where "u = (bits + 5 - 8) + 5 * length vs"
    have "t = u + 8" using True by (simp add: t_def u_def)
    then have t: "t div 8 = Suc (u div 8)" "t mod 8 = u mod 8" by simp_all
    have less: "b32_nat vs < 32 ^ length vs" using Cons.prems b32_nat_less by simp
    have "(2::nat) ^ (u mod 8) * 256 ^ (u div 8) = 32 ^ length vs * 2 ^ (bits + 5 - 8)"
      using pow2_32 [of "bits + 5 - 8" "length vs"] by (simp add: pow2_256 u_def mult.commute)
    then have "N' div 2 ^ (u mod 8) div 256 ^ (u div 8) = N' div 32 ^ length vs div 2 ^ (bits + 5 - 8)"
      by (simp only: div_mult2_eq [symmetric])
    also have "N' div 32 ^ length vs = N1" using less by (simp flip: N')
    finally have X: "N' div 2 ^ (u mod 8) div 256 ^ (u div 8) = N1 div 2 ^ (bits + 5 - 8)" .
    have "ucast (drop_bit (bits + 5 - 8) (word_of_nat N1 :: u32) AND 255) =
      (word_of_nat (N1 div 2 ^ (bits + 5 - 8)) :: u8)"
      using register_window [of "bits + 5 - 8" 8 N1] Cons.prems
      by (intro unsigned_word_eqI [where ?'a = nat])
        (simp add: and_255 unsigned_ucast_eq unat_of_nat take_bit_eq_mod)
    then have "b32_decode_loop (b32_text (v # vs)) (word_of_nat N) bits out =
      b32_decode_loop (b32_text vs) (word_of_nat N1) (bits + 5 - 8)
        (out @ [word_of_nat (N1 div 2 ^ (bits + 5 - 8))])"
      using True by (simp add: pos acc Let_def)
    also have "\<dots> = Some (out @ be_digits (Suc (u div 8)) (N' div 2 ^ (u mod 8)))"
      using Cons.IH [of "bits + 5 - 8" N1] Cons.prems N' X
      by (simp add: Let_def u_def)
    finally show ?thesis
      unfolding Let_def N'_def [symmetric] t_def [symmetric] t .
  qed
qed

lemma from_slice_eq_Some [simp]: "from_slice b = Some n \<longleftrightarrow> b = bytes_of (node_bytes n)"
  by (cases n) (auto simp: from_slice_def)

lemma from_slice_bytes [simp]: "from_slice (bytes_of a) = Some (NodeId a)"
  by simp

lemma length_to_base32 [simp]: "length (to_base32 self) = 52"
  by (simp add: to_base32_digits)

lemma b32_decode_to_base32:
  "b32_decode_loop (to_base32 self) 0 0 [] = Some (bytes_of (node_bytes self))"
proof -
  define N where "N = be_nat (bytes_of (node_bytes self))"
  have "N < 256 ^ 32" using be_nat_less [of "bytes_of (node_bytes self)"] by (simp add: N_def)
  then have "b32_nat (b32_digits 52 (16 * N)) = 16 * N"
    by (simp add: b32_nat_digits)
  moreover have "be_digits 32 N = bytes_of (node_bytes self)"
    using be_digits_nat [of "bytes_of (node_bytes self)"] by (simp add: N_def)
  ultimately show ?thesis
    using b32_decode_loop_digits [of 0 "b32_digits 52 (16 * N)" 0 "[]"] b32_digits_less
    by (simp add: to_base32_digits Let_def flip: N_def)
qed

interpretation base32: codec to_base32 from_base32 "\<lambda>_. True"
proof
  show "from_base32 (to_base32 x) = Some x" for x
    by (simp add: from_base32_def b32_decode_to_base32)
  show "True \<and> to_base32 x = b" if "from_base32 b = Some x" for b x
    using that by (auto simp: from_base32_def split: if_splits option.splits)
qed

section \<open>Keys and SPKI\<close>

lemma bytes_of_spki_der: "bytes_of (spki_der n) = SPKI_ED25519_PREFIX @ bytes_of (node_bytes n)"
  by (simp add: spki_der_def SPKI_ED25519_PREFIX_def)

interpretation spki: codec "\<lambda>n. bytes_of (spki_der n)" node_id_from_spki "\<lambda>_. True"
proof
  have p: "length SPKI_ED25519_PREFIX = 12" by (simp add: SPKI_ED25519_PREFIX_def)
  show "node_id_from_spki (bytes_of (spki_der x)) = Some x" for x
    by (simp add: node_id_from_spki_def bytes_of_spki_der p)
  show "True \<and> bytes_of (spki_der x) = b" if "node_id_from_spki b = Some x" for b x
    using that by (auto simp: node_id_from_spki_def bytes_of_spki_der split: if_splits)
      (metis append_take_drop_id)
qed

lemma node_verify_own_signature:
  "ed25519_correct cr \<Longrightarrow> node_verify cr (key_node_id (from_seed cr s)) m (key_sign cr (from_seed cr s) m)"
  by (simp add: ed25519_correct_def node_verify_def from_seed_def key_sign_def)

section \<open>Properties\<close>

text \<open>C34: node id text is canonical. Every node id has a 52-character text that decodes to it,
  and a text decodes to a node id only when it is exactly the text \<open>to_base32\<close> gives, so no
  second spelling (upper case, other pad bits, another length) names a node.\<close>

theorem base32_canonical:
  "from_base32 text = Some n \<longleftrightarrow> length text = 52 \<and> text = to_base32 n"
  using base32.dec_iff by auto

text \<open>The 32-bit shift register of \<open>to_base32\<close> computes plain base32: the 52 base-32
  digits of the key, read as one big-endian number followed by four zero bits.\<close>

theorem to_base32_reference:
  "to_base32 n = map ((!) BASE32_ALPHABET) (b32_digits 52 (16 * be_nat (bytes_of (node_bytes n))))"
  by (rule to_base32_digits)

text \<open>The SPKI form of a node id is its only one: \<open>node_id_from_spki\<close> accepts exactly the
  44 bytes \<open>spki_der\<close> produces.\<close>

theorem spki_canonical:
  "node_id_from_spki der = Some n \<longleftrightarrow> der = bytes_of (spki_der n)"
  using spki.dec_iff by auto

end
