(* ===== verification/Rendezvous.thy ===== *)
theory Rendezvous
  imports Node_Id
begin

text \<open>
  \<open>link-core/src/rendezvous.rs\<close>: the derivation of rendezvous tags. HKDF, and the
  secp256k1 operations, are fields of the \<open>crypto\<close> record. The lemmas show that the bytes fed
  to HKDF determine the mode, the secret material, the relay host and the epoch, so two
  different inputs share a tag only through an HKDF collision.
\<close>

definition RENDEZVOUS_SALT :: bytes where
  "RENDEZVOUS_SALT = as_bytes ''forgesworn-link/rendezvous/v1''"

definition EPOCH_SECONDS :: u64 where "EPOCH_SECONDS = 3600"
definition TAG_BYTES :: nat where "TAG_BYTES = 16"
definition PAIRING_CASE :: u8 where "PAIRING_CASE = 3"
definition PAIRED_ROUTE_CASE :: u8 where "PAIRED_ROUTE_CASE = 4"

datatype tag_case = CaseNone | CaseOne | CaseBoth

fun case_byte :: "tag_case \<Rightarrow> u8" where
  "case_byte CaseNone = 0"
| "case_byte CaseOne = 1"
| "case_byte CaseBoth = 2"

definition case_from_byte :: "u8 \<Rightarrow> tag_case option" where
  "case_from_byte b =
     (if b = 0 then Some CaseNone else if b = 1 then Some CaseOne
      else if b = 2 then Some CaseBoth else None)"

datatype tag = Tag (tag_bytes: "16 arr")

lemma tag_bytes_eq_iff [simp]: "tag_bytes a = tag_bytes b \<longleftrightarrow> a = b"
  by (cases a; cases b) simp

definition epoch_index :: "u64 \<Rightarrow> u64" where
  "epoch_index unix_seconds = unix_seconds div EPOCH_SECONDS"

definition derive_info :: "string \<Rightarrow> u64 \<Rightarrow> bytes" where
  "derive_info relay_host epoch = as_bytes relay_host @ [0] @ to_be epoch"

definition derive_from_ikm :: "crypto \<Rightarrow> bytes \<Rightarrow> string \<Rightarrow> u64 \<Rightarrow> tag" where
  "derive_from_ikm cr ikm relay_host epoch =
     Tag (hkdf_sha256_16 cr RENDEZVOUS_SALT ikm (derive_info relay_host epoch))"

definition derive_tag :: "crypto \<Rightarrow> tag_case \<Rightarrow> 32 arr \<Rightarrow> 32 arr \<Rightarrow> string \<Rightarrow> u64 \<Rightarrow> tag" where
  "derive_tag cr c static_x eph_x relay_host epoch =
     derive_from_ikm cr ([case_byte c] @ bytes_of static_x @ bytes_of eph_x) relay_host epoch"

definition derive_pairing_tag :: "crypto \<Rightarrow> 16 arr \<Rightarrow> string \<Rightarrow> u64 \<Rightarrow> tag" where
  "derive_pairing_tag cr pairing_secret relay_host epoch =
     derive_from_ikm cr ([PAIRING_CASE] @ bytes_of pairing_secret) relay_host epoch"

definition derive_paired_route_tag :: "crypto \<Rightarrow> 32 arr \<Rightarrow> string \<Rightarrow> u64 \<Rightarrow> tag" where
  "derive_paired_route_tag cr secret relay_host epoch =
     derive_from_ikm cr ([PAIRED_ROUTE_CASE] @ bytes_of secret) relay_host epoch"

definition ecdh_x :: "crypto \<Rightarrow> 32 arr \<Rightarrow> 33 arr \<Rightarrow> 32 arr option" where
  "ecdh_x cr private_scalar compressed_public =
     (let pub = bytes_of compressed_public
      in if pub ! 0 \<notin> {2, 3} then None
         else if \<not> secp_scalar cr private_scalar then None
         else if \<not> secp_point cr pub then None
         else Some (secp_dh cr private_scalar pub))"

definition valid_compressed_point :: "crypto \<Rightarrow> bytes \<Rightarrow> bool" where
  "valid_compressed_point cr b \<longleftrightarrow> length b = 33 \<and> b ! 0 \<in> {2, 3} \<and> secp_point cr b"

section \<open>Lemmas\<close>

lemma case_from_byte_iff: "case_from_byte b = Some c \<longleftrightarrow> b = case_byte c"
  by (cases c) (auto simp: case_from_byte_def)

lemma case_byte_inject [simp]: "case_byte a = case_byte b \<longleftrightarrow> a = b"
  by (cases a; cases b) simp_all

lemma unat_epoch_index: "unat (epoch_index t) = unat t div 3600"
  by (simp add: epoch_index_def EPOCH_SECONDS_def unat_div)

lemma derive_info_inject [simp]:
  "derive_info h e = derive_info h' e' \<longleftrightarrow> h = h' \<and> e = e'"
proof -
  have "to_be e = to_be e' \<longleftrightarrow> e = e'" by (metis be_word_round_trip(3))
  then show ?thesis by (simp add: derive_info_def)
qed

text \<open>The three kinds of rendezvous material, and the key bytes each feeds to HKDF.\<close>

datatype rv_material =
    CardKeys tag_case "32 arr" "32 arr"
  | PairingSecret "16 arr"
  | PairedRoute "32 arr"

fun rv_ikm :: "rv_material \<Rightarrow> bytes" where
  "rv_ikm (CardKeys c s e) = [case_byte c] @ bytes_of s @ bytes_of e"
| "rv_ikm (PairingSecret s) = [PAIRING_CASE] @ bytes_of s"
| "rv_ikm (PairedRoute s) = [PAIRED_ROUTE_CASE] @ bytes_of s"

fun rv_tag :: "crypto \<Rightarrow> rv_material \<Rightarrow> string \<Rightarrow> u64 \<Rightarrow> tag" where
  "rv_tag cr (CardKeys c s e) = derive_tag cr c s e"
| "rv_tag cr (PairingSecret s) = derive_pairing_tag cr s"
| "rv_tag cr (PairedRoute s) = derive_paired_route_tag cr s"

lemma rv_tag_eq: "rv_tag cr m h e = derive_from_ikm cr (rv_ikm m) h e"
  by (cases m) (simp_all add: derive_tag_def derive_pairing_tag_def derive_paired_route_tag_def)

lemma rv_ikm_inject [simp]: "rv_ikm m = rv_ikm m' \<longleftrightarrow> m = m'"
proof -
  have "case_byte c \<noteq> PAIRING_CASE" "case_byte c \<noteq> PAIRED_ROUTE_CASE" for c
    by (cases c; simp add: PAIRING_CASE_def PAIRED_ROUTE_CASE_def)+
  moreover have "PAIRING_CASE \<noteq> PAIRED_ROUTE_CASE"
    by (simp add: PAIRING_CASE_def PAIRED_ROUTE_CASE_def)
  ultimately show ?thesis by (cases m; cases m') (auto dest: sym)
qed

lemma ecdh_x_agree:
  assumes "secp_dh_correct cr" "secp_scalar cr a" "secp_scalar cr b"
  shows "ecdh_x cr a (secp_public cr b) = ecdh_x cr b (secp_public cr a) \<and>
    ecdh_x cr a (secp_public cr b) \<noteq> None"
proof -
  have "hd (bytes_of (secp_public cr x)) = bytes_of (secp_public cr x) ! 0" for x
    by (rule hd_conv_nth) (metis length_bytes_of list.size(3) len_not_eq_0)
  then show ?thesis using assms by (auto simp: secp_dh_correct_def ecdh_x_def Let_def)
qed

section \<open>Properties\<close>



end
