(* ===== verification/Card.thy ===== *)
theory Card
  imports Rendezvous
begin

text \<open>
  \<open>link-core/src/card.rs\<close>: the address card \<open>FSL-CARD-1\<close>. A card is a fixed header, up to
  sixteen length-prefixed hints and a signature over the domain-prefixed body. \<open>card_sign\<close>
  builds one, \<open>card_verify\<close> applies the nine ordered rules. The lemmas relate both to
  \<open>card_ok\<close>, the declarative meaning of an acceptable card, and to \<open>rule_holds\<close>, the
  meaning of each single rule.
\<close>

section \<open>Constants and data\<close>

definition CARD_DOMAIN :: bytes where
  "CARD_DOMAIN = as_bytes ''forgesworn-link/card/v1'' @ [0]"

definition CARD_MAGIC :: bytes where "CARD_MAGIC = as_bytes ''FSL1''"
definition CARD_VERSION :: u8 where "CARD_VERSION = 1"
definition MIN_CARD_BYTES :: nat where "MIN_CARD_BYTES = 126"
definition MAX_CARD_BYTES :: nat where "MAX_CARD_BYTES = 4096"
definition MAX_HINTS :: nat where "MAX_HINTS = 16"
definition CLOCK_SKEW_SECONDS :: u64 where "CLOCK_SKEW_SECONDS = 300"
definition MAX_LIFETIME_SECONDS :: u64 where "MAX_LIFETIME_SECONDS = 604800"
definition HINT_RELAY :: u8 where "HINT_RELAY = 1"
definition MAX_RELAY_HINT_BYTES :: nat where "MAX_RELAY_HINT_BYTES = 255"
definition HINT_UDP :: u8 where "HINT_UDP = 2"
definition HINT_ONION :: u8 where "HINT_ONION = 3"
definition HINT_EPHEMERAL :: u8 where "HINT_EPHEMERAL = 4"
definition HEADER_BYTES :: nat where "HEADER_BYTES = 62"
definition SIGNATURE_BYTES :: nat where "SIGNATURE_BYTES = 64"

lemmas card_consts [wire_defs] =
  MIN_CARD_BYTES_def MAX_CARD_BYTES_def MAX_HINTS_def MAX_RELAY_HINT_BYTES_def
  HEADER_BYTES_def SIGNATURE_BYTES_def

lemmas hint_consts [wire_defs] = HINT_RELAY_def HINT_UDP_def HINT_ONION_def HINT_EPHEMERAL_def

record hint =
  hint_kind :: u8
  hint_value :: bytes

definition hint_relay :: "string \<Rightarrow> hint" where
  "hint_relay url = \<lparr>hint_kind = HINT_RELAY, hint_value = as_bytes url\<rparr>"

definition hint_udp :: "socket_addr \<Rightarrow> hint" where
  "hint_udp addr =
     \<lparr>hint_kind = HINT_UDP, hint_value = to_be (to_ipv6 (ip addr)) @ to_be (port addr)\<rparr>"

definition hint_onion :: "string \<Rightarrow> u16 \<Rightarrow> hint" where
  "hint_onion host p = \<lparr>hint_kind = HINT_ONION, hint_value = as_bytes host @ to_be p\<rparr>"

definition as_relay :: "hint \<Rightarrow> string option" where
  "as_relay self = (if hint_kind self \<noteq> HINT_RELAY then None else from_utf8 (hint_value self))"

definition as_udp :: "hint \<Rightarrow> socket_addr option" where
  "as_udp self =
     (if hint_kind self \<noteq> HINT_UDP \<or> length (hint_value self) \<noteq> 18 then None
      else Some (socket (V6 (from_be (take 16 (hint_value self))))
                   (from_be [hint_value self ! 16, hint_value self ! 17])))"

definition as_onion :: "hint \<Rightarrow> (string \<times> u16) option" where
  "as_onion self =
     (if hint_kind self \<noteq> HINT_ONION \<or> length (hint_value self) \<noteq> 58 then None
      else case from_utf8 (take 56 (hint_value self)) of
        None \<Rightarrow> None
      | Some host \<Rightarrow> Some (host, from_be [hint_value self ! 56, hint_value self ! 57]))"

definition encoded_len :: "hint \<Rightarrow> nat" where
  "encoded_len self = 3 + length (hint_value self)"

record card =
  card_node_id :: node_id
  issued_at :: u64
  expires_at :: u64
  serial :: u64
  hints :: "hint list"
  raw :: bytes

record rule_violation =
  rule :: nat
  detail :: string

abbreviation fail :: "nat \<Rightarrow> string \<Rightarrow> rule_violation + 'a" where
  "fail r d \<equiv> Inl \<lparr>rule = r, detail = d\<rparr>"

record verify_context =
  now :: u64
  highest_seen_serial :: u64
  expected_node_id :: "node_id option"

definition verify_context_new :: "u64 \<Rightarrow> verify_context" where
  "verify_context_new t = \<lparr>now = t, highest_seen_serial = 0, expected_node_id = None\<rparr>"

definition expecting :: "verify_context \<Rightarrow> node_id \<Rightarrow> verify_context" where
  "expecting self n = self\<lparr>expected_node_id := Some n\<rparr>"

definition after_serial :: "verify_context \<Rightarrow> u64 \<Rightarrow> verify_context" where
  "after_serial self s = self\<lparr>highest_seen_serial := s\<rparr>"

section \<open>Encoding and signing\<close>

definition encode_hint :: "hint \<Rightarrow> bytes" where
  "encode_hint h =
     [hint_kind h] @ to_be (word_of_nat (length (hint_value h)) :: u16) @ hint_value h"

definition encode_body :: "node_id \<Rightarrow> u64 \<Rightarrow> u64 \<Rightarrow> u64 \<Rightarrow> hint list \<Rightarrow> bytes" where
  "encode_body n iss expi ser hs =
     CARD_MAGIC @ [CARD_VERSION] @ bytes_of (node_bytes n) @ to_be iss @ to_be expi @ to_be ser
     @ [word_of_nat (length hs)] @ concat (map encode_hint hs)"

definition card_sign ::
  "crypto \<Rightarrow> transport_key \<Rightarrow> u64 \<Rightarrow> u64 \<Rightarrow> u64 \<Rightarrow> hint list \<Rightarrow> card" where
  "card_sign cr key iss expi ser hs =
     (let body = encode_body (key_node_id key) iss expi ser hs;
          signature = key_sign cr key (CARD_DOMAIN @ body)
      in \<lparr>card_node_id = key_node_id key, issued_at = iss, expires_at = expi, serial = ser,
          hints = hs, raw = body @ bytes_of signature\<rparr>)"

definition signing_input :: "card \<Rightarrow> bytes" where
  "signing_input self = CARD_DOMAIN @ take (length (raw self) - SIGNATURE_BYTES) (raw self)"

definition signature :: "card \<Rightarrow> 64 arr" where
  "signature self = mk_arr (drop (length (raw self) - SIGNATURE_BYTES) (raw self))"

definition relay_urls :: "card \<Rightarrow> string list" where
  "relay_urls self = List.map_filter as_relay (hints self)"

definition udp_candidates :: "card \<Rightarrow> socket_addr list" where
  "udp_candidates self = List.map_filter as_udp (hints self)"

section \<open>Verification\<close>

text \<open>\<open>usize::checked_add\<close>, for a 64-bit \<open>usize\<close>.\<close>

definition checked_add_usize :: "nat \<Rightarrow> nat \<Rightarrow> nat option" where
  "checked_add_usize a b = (if a + b < 2 ^ 64 then Some (a + b) else None)"

text \<open>The match on the hint kind: the rule 3 message, if the hint is malformed.\<close>

definition hint_error :: "crypto \<Rightarrow> u8 \<Rightarrow> bytes \<Rightarrow> string option" where
  "hint_error cr k v =
     (if k = HINT_RELAY \<and> (length v = 0 \<or> length v > MAX_RELAY_HINT_BYTES)
      then Some ''relay hint is not 1 to 255 bytes''
      else if k = HINT_UDP \<and> length v \<noteq> 18 then Some ''udp hint is not 18 bytes''
      else if k = HINT_ONION \<and> length v \<noteq> 58 then Some ''onion hint is not 58 bytes''
      else if k = HINT_EPHEMERAL then
        (if length v \<noteq> 33 then Some ''ephemeral hint is not 33 bytes''
         else if \<not> valid_compressed_point cr v
         then Some ''ephemeral hint does not decompress to a curve point''
         else None)
      else None)"

text \<open>The hint loop of rule 3: \<open>n\<close> hints still to read from \<open>offset\<close>.\<close>

fun parse_hints ::
  "crypto \<Rightarrow> bytes \<Rightarrow> nat \<Rightarrow> nat \<Rightarrow> nat \<Rightarrow> hint list \<Rightarrow> rule_violation + (hint list \<times> nat)" where
  "parse_hints cr bs hints_end 0 offset hs = Inr (hs, offset)"
| "parse_hints cr bs hints_end (Suc n) offset hs =
     (if offset + 3 > hints_end then fail 3 ''hint header runs past the signature''
      else
        let k = bs ! offset;
            len = unat (from_be [bs ! (offset + 1), bs ! (offset + 2)] :: u16);
            value_start = offset + 3
        in case checked_add_usize value_start len of
             None \<Rightarrow> fail 3 ''hint length overflows''
           | Some value_end \<Rightarrow>
               if value_end > hints_end then fail 3 ''hint value runs past the signature''
               else
                 let v = slice bs value_start value_end
                 in case hint_error cr k v of
                      Some d \<Rightarrow> fail 3 d
                    | None \<Rightarrow> parse_hints cr bs hints_end n value_end
                                (hs @ [\<lparr>hint_kind = k, hint_value = v\<rparr>]))"

definition card_verify :: "crypto \<Rightarrow> bytes \<Rightarrow> verify_context \<Rightarrow> rule_violation + card" where
  "card_verify cr bs ctx =
     (if length bs < MIN_CARD_BYTES then fail 1 ''card shorter than the 126 byte minimum''
      else if length bs > MAX_CARD_BYTES then fail 1 ''card longer than the 4096 byte maximum''
      else if take 4 bs \<noteq> CARD_MAGIC then fail 2 ''magic is not FSL1''
      else if bs ! 4 \<noteq> CARD_VERSION then fail 2 ''version is not 0x01''
      else
        let n = NodeId (mk_arr (slice bs 5 37));
            iss = from_be (slice bs 37 45);
            expi = from_be (slice bs 45 53);
            ser = from_be (slice bs 53 61);
            hint_count = unat (bs ! 61);
            hints_end = length bs - SIGNATURE_BYTES
        in if hint_count > MAX_HINTS then fail 3 ''hint_count above 16''
           else case parse_hints cr bs hints_end hint_count HEADER_BYTES [] of
             Inl e \<Rightarrow> Inl e
           | Inr (hs, offset) \<Rightarrow>
               if offset \<noteq> hints_end then fail 3 ''hints do not end exactly at the signature''
               else if length (filter (\<lambda>h. hint_kind h = HINT_EPHEMERAL) hs) > 1
               then fail 3 ''more than one ephemeral hint''
               else if \<not> node_verify cr n (CARD_DOMAIN @ take hints_end bs)
                           (mk_arr (drop hints_end bs))
               then fail 4 ''signature does not verify under node_id''
               else if iss > saturating_add (now ctx) CLOCK_SKEW_SECONDS
               then fail 5 ''issued_at is beyond the allowed clock skew''
               else if expi \<le> now ctx then fail 6 ''card has expired''
               else if expi \<le> iss then fail 7 ''expires_at is not after issued_at''
               else if expi - iss > MAX_LIFETIME_SECONDS then fail 7 ''lifetime longer than seven days''
               else if ser \<le> highest_seen_serial ctx
               then fail 8 ''serial is not above the highest previously accepted''
               else if (case expected_node_id ctx of Some e \<Rightarrow> e \<noteq> n | None \<Rightarrow> False)
               then fail 9 ''node_id is not the expected peer''
               else Inr \<lparr>card_node_id = n, issued_at = iss, expires_at = expi, serial = ser,
                         hints = hs, raw = bs\<rparr>)"

section \<open>The hint region\<close>

definition hint_wf :: "crypto \<Rightarrow> hint \<Rightarrow> bool" where
  "hint_wf cr h \<longleftrightarrow>
     hint_error cr (hint_kind h) (hint_value h) = None \<and> length (hint_value h) < 2 ^ 16"

lemma encode_hint_slice:
  assumes "ve \<le> length bs" "offset + 3 \<le> ve"
  shows "length (hint_value h) < 2 ^ 16 \<and> encode_hint h = slice bs offset ve \<longleftrightarrow>
    hint_kind h = bs ! offset \<and>
    ve = offset + 3 + unat (from_be [bs ! (offset + 1), bs ! (offset + 2)] :: u16) \<and>
    hint_value h = slice bs (offset + 3) ve"
proof -
  let ?w = "from_be [bs ! (offset + 1), bs ! (offset + 2)] :: u16"
  let ?L = "length (hint_value h)"
  have s: "slice bs offset ve =
    [bs ! offset] @ [bs ! (offset + 1), bs ! (offset + 2)] @ slice bs (offset + 3) ve"
    using assms by (simp add: slice_nth numeral_3_eq_3 numeral_2_eq_2)
  have "encode_hint h = slice bs offset ve \<longleftrightarrow>
    hint_kind h = bs ! offset \<and> word_of_nat ?L = ?w \<and> hint_value h = slice bs (offset + 3) ve"
    unfolding s encode_hint_def by (simp add: to_be_u16_append)
  moreover have "?L < 2 ^ 16 \<and> word_of_nat ?L = ?w \<longleftrightarrow> ?L = unat ?w"
    using word_of_nat_eq_iff_unat [of ?L ?w] by simp
  moreover have "?L = ve - (offset + 3)" if "hint_value h = slice bs (offset + 3) ve"
    using that assms by simp
  ultimately show ?thesis using assms by auto
qed

lemma length_encode_hint [simp]: "length (encode_hint h) = encoded_len h"
  by (simp add: encode_hint_def encoded_len_def)

text \<open>The hint whose header stands at \<open>offset\<close>, and where its value ends.\<close>

definition value_end_at :: "bytes \<Rightarrow> nat \<Rightarrow> nat" where
  "value_end_at bs offset = offset + 3 + unat (from_be [bs ! (offset + 1), bs ! (offset + 2)] :: u16)"

definition hint_at :: "bytes \<Rightarrow> nat \<Rightarrow> hint" where
  "hint_at bs offset =
     \<lparr>hint_kind = bs ! offset, hint_value = slice bs (offset + 3) (value_end_at bs offset)\<rparr>"

lemma encode_hint_at:
  assumes "value_end_at bs offset \<le> length bs"
  shows "encode_hint (hint_at bs offset) = slice bs offset (value_end_at bs offset)"
  using encode_hint_slice [of "value_end_at bs offset" bs offset "hint_at bs offset"] assms
  by (simp add: hint_at_def value_end_at_def)

lemma first_hint_split:
  assumes "hints_end \<le> length bs"
  shows "slice bs offset off = concat (map encode_hint (h # new)) \<and> hint_wf cr h \<and>
      offset \<le> off \<and> off \<le> hints_end \<longleftrightarrow>
    h = hint_at bs offset \<and> hint_wf cr h \<and> value_end_at bs offset \<le> off \<and> off \<le> hints_end \<and>
      slice bs (value_end_at bs offset) off = concat (map encode_hint new)"
    (is "?L \<longleftrightarrow> ?R")
proof
  assume L: ?L
  define e where "e = offset + encoded_len h"
  have "off \<le> length bs" using L assms by simp
  then have "length (slice bs offset off) = off - offset" by simp
  moreover have "length (slice bs offset off) = encoded_len h + length (concat (map encode_hint new))"
    using L by (simp only: list.map concat.simps length_append length_encode_hint)
  ultimately have e: "offset + 3 \<le> e" "e \<le> off" "e \<le> length bs"
    using L assms by (auto simp: e_def encoded_len_def)
  then have "slice bs offset e @ slice bs e off = encode_hint h @ concat (map encode_hint new)"
    using L slice_split [of offset e off bs] by simp
  moreover have "length (slice bs offset e) = length (encode_hint h)"
    using e by (simp add: e_def)
  ultimately have "encode_hint h = slice bs offset e" "slice bs e off = concat (map encode_hint new)"
    by (simp_all add: append_eq_append_conv)
  then show ?R
    using L e encode_hint_slice [of e bs offset h] by (simp add: hint_at_def value_end_at_def hint_wf_def)
next
  assume ?R
  then show ?L
    using assms encode_hint_at [of bs offset]
      slice_split [of offset "value_end_at bs offset" off bs]
    by (auto simp: value_end_at_def)
qed

lemma parse_hints_Suc:
  assumes "hints_end \<le> length bs" "hints_end \<le> 2 ^ 32" "offset \<le> hints_end"
  shows "parse_hints cr bs hints_end (Suc n) offset acc = Inr r \<longleftrightarrow>
    value_end_at bs offset \<le> hints_end \<and> hint_wf cr (hint_at bs offset) \<and>
    parse_hints cr bs hints_end n (value_end_at bs offset) (acc @ [hint_at bs offset]) = Inr r"
proof -
  define len where "len = unat (from_be [bs ! (offset + 1), bs ! (offset + 2)] :: u16)"
  have len: "len < 2 ^ 16"
    using unsigned_less [of "from_be [bs ! (offset + 1), bs ! (offset + 2)] :: u16", where 'a = nat]
    by (simp add: len_def)
  have ve: "value_end_at bs offset = offset + 3 + len" by (simp add: value_end_at_def len_def)
  have add: "checked_add_usize (offset + 3) len = Some (value_end_at bs offset)"
    using assms len by (simp add: checked_add_usize_def ve)
  show ?thesis
    unfolding parse_hints.simps Let_def len_def [symmetric] add
    using len assms by (auto simp: ve hint_wf_def hint_at_def split: option.splits)
qed

text \<open>The loop reads \<open>n\<close> hints and stops at \<open>off\<close> exactly when the bytes from \<open>offset\<close> to
  \<open>off\<close> are the encodings of \<open>n\<close> well-formed hints, in order.\<close>

lemma parse_hints_iff:
  assumes "hints_end \<le> length bs" "hints_end \<le> 2 ^ 32" "offset \<le> hints_end"
  shows "parse_hints cr bs hints_end n offset acc = Inr (hs, off) \<longleftrightarrow>
    (\<exists>new. hs = acc @ new \<and> length new = n \<and> (\<forall>h\<in>set new. hint_wf cr h) \<and>
       offset \<le> off \<and> off \<le> hints_end \<and> slice bs offset off = concat (map encode_hint new))"
  using assms
proof (induction n arbitrary: offset acc)
  case 0
  then show ?case by (auto simp: slice_def)
next
  case (Suc n)
  let ?ve = "value_end_at bs offset" and ?h = "hint_at bs offset"
  have "(\<exists>new. hs = acc @ new \<and> length new = Suc n \<and> (\<forall>h\<in>set new. hint_wf cr h) \<and>
      offset \<le> off \<and> off \<le> hints_end \<and> slice bs offset off = concat (map encode_hint new)) \<longleftrightarrow>
    (\<exists>h new. hs = acc @ h # new \<and> length new = n \<and> (\<forall>h\<in>set new. hint_wf cr h) \<and>
      (slice bs offset off = concat (map encode_hint (h # new)) \<and> hint_wf cr h \<and>
       offset \<le> off \<and> off \<le> hints_end))"
    by (auto simp: length_Suc_conv)
  also have "\<dots> \<longleftrightarrow> ?ve \<le> hints_end \<and> hint_wf cr ?h \<and>
    (\<exists>new. hs = (acc @ [?h]) @ new \<and> length new = n \<and> (\<forall>h\<in>set new. hint_wf cr h) \<and>
      ?ve \<le> off \<and> off \<le> hints_end \<and> slice bs ?ve off = concat (map encode_hint new))"
    unfolding first_hint_split [OF Suc.prems(1)] by auto
  also have "\<dots> \<longleftrightarrow> parse_hints cr bs hints_end (Suc n) offset acc = Inr (hs, off)"
    using Suc.IH [of ?ve "acc @ [?h]"] Suc.prems parse_hints_Suc [OF Suc.prems] by auto
  finally show ?case by simp
qed

lemma parse_hints_rule: "parse_hints cr bs hints_end n offset acc = Inl e \<Longrightarrow> rule e = 3"
  by (induction n arbitrary: offset acc)
    (auto simp: Let_def split: if_splits option.splits)

section \<open>What each rule means\<close>

abbreviation ephemeral_count :: "hint list \<Rightarrow> nat" where
  "ephemeral_count hs \<equiv> length (filter (\<lambda>h. hint_kind h = HINT_EPHEMERAL) hs)"

definition hints_wf :: "crypto \<Rightarrow> hint list \<Rightarrow> bool" where
  "hints_wf cr hs \<longleftrightarrow>
     length hs \<le> MAX_HINTS \<and> (\<forall>h\<in>set hs. hint_wf cr h) \<and> ephemeral_count hs \<le> 1"

definition times_ok :: "verify_context \<Rightarrow> u64 \<Rightarrow> u64 \<Rightarrow> bool" where
  "times_ok ctx iss expi \<longleftrightarrow>
     unat iss \<le> unat (now ctx) + 300 \<and> now ctx < expi \<and> iss < expi \<and>
     unat expi - unat iss \<le> 604800"

definition rule_holds :: "crypto \<Rightarrow> verify_context \<Rightarrow> bytes \<Rightarrow> nat \<Rightarrow> bool" where
  "rule_holds cr ctx bs k =
     (let n = NodeId (mk_arr (slice bs 5 37));
          iss = from_be (slice bs 37 45);
          expi = from_be (slice bs 45 53);
          ser = from_be (slice bs 53 61);
          hints_end = length bs - 64
      in if k = 1 then 126 \<le> length bs \<and> length bs \<le> 4096
         else if k = 2 then slice bs 0 5 = CARD_MAGIC @ [CARD_VERSION]
         else if k = 3 then
           (\<exists>hs. hints_wf cr hs \<and> length hs = unat (bs ! 61) \<and>
                 slice bs 62 hints_end = concat (map encode_hint hs))
         else if k = 4 then
           node_verify cr n (CARD_DOMAIN @ take hints_end bs) (mk_arr (drop hints_end bs))
         else if k = 5 then unat iss \<le> unat (now ctx) + 300
         else if k = 6 then now ctx < expi
         else if k = 7 then iss < expi \<and> unat expi - unat iss \<le> 604800
         else if k = 8 then highest_seen_serial ctx < ser
         else expected_node_id ctx = None \<or> expected_node_id ctx = Some n)"

lemma rule5: "iss > saturating_add t CLOCK_SKEW_SECONDS \<longleftrightarrow> \<not> unat iss \<le> unat t + 300"
proof -
  have "unat iss < 2 ^ 64" using unsigned_less [of iss, where 'a = nat] by simp
  then show ?thesis
    by (auto simp: word_less_nat_alt unat_saturating_add CLOCK_SKEW_SECONDS_def)
qed

lemma rule7: "iss < expi \<Longrightarrow> expi - iss > MAX_LIFETIME_SECONDS \<longleftrightarrow> \<not> unat expi - unat iss \<le> 604800"
  by (auto simp: word_less_nat_alt unat_sub MAX_LIFETIME_SECONDS_def word_le_nat_alt)

lemma rule3:
  assumes "rule_holds cr ctx bs 1"
  shows "rule_holds cr ctx bs 3 \<longleftrightarrow> unat (bs ! 61) \<le> MAX_HINTS \<and>
    (\<exists>hs. parse_hints cr bs (length bs - SIGNATURE_BYTES) (unat (bs ! 61)) HEADER_BYTES [] =
            Inr (hs, length bs - SIGNATURE_BYTES) \<and> ephemeral_count hs \<le> 1)"
  using assms
  by (subst parse_hints_iff) (auto simp: rule_holds_def card_consts hints_wf_def Let_def, metis)

lemma rule2:
  assumes "rule_holds cr ctx bs 1"
  shows "rule_holds cr ctx bs 2 \<longleftrightarrow> take 4 bs = CARD_MAGIC \<and> bs ! 4 = CARD_VERSION"
proof -
  have "slice bs 0 5 = take 4 bs @ [bs ! 4]"
    using assms take_Suc_conv_app_nth [of 4 bs] by (simp add: rule_holds_def slice_def)
  moreover have "length CARD_MAGIC = 4" by (simp add: CARD_MAGIC_def)
  ultimately show ?thesis using assms by (simp add: rule_holds_def)
qed

lemma card_verify_rule12:
  assumes "\<not> (rule_holds cr ctx bs 1 \<and> rule_holds cr ctx bs 2)"
  shows "\<exists>v. card_verify cr bs ctx = Inl v \<and> rule v = (if rule_holds cr ctx bs 1 then 2 else 1)"
proof (cases "rule_holds cr ctx bs 1")
  case True
  then show ?thesis
    using assms rule2 [OF True] by (auto simp: card_verify_def rule_holds_def card_consts)
next
  case False
  then show ?thesis by (auto simp: card_verify_def rule_holds_def card_consts)
qed

lemma card_verify_rule3:
  assumes "rule_holds cr ctx bs 1" "rule_holds cr ctx bs 2" "\<not> rule_holds cr ctx bs 3"
  shows "\<exists>v. card_verify cr bs ctx = Inl v \<and> rule v = 3"
proof -
  let ?p = "parse_hints cr bs (length bs - SIGNATURE_BYTES) (unat (bs ! 61)) HEADER_BYTES []"
  have len: "\<not> length bs < MIN_CARD_BYTES" "\<not> MAX_CARD_BYTES < length bs"
    using assms(1) by (simp_all add: rule_holds_def card_consts)
  have m: "take 4 bs = CARD_MAGIC" "bs ! 4 = CARD_VERSION"
    using rule2 [OF assms(1)] assms(2) by simp_all
  show ?thesis
  proof (cases "MAX_HINTS < unat (bs ! 61)")
    case True
    then show ?thesis by (simp add: card_verify_def Let_def len m)
  next
    case False
    show ?thesis
    proof (cases ?p)
      case (Inl e)
      then show ?thesis using False parse_hints_rule [OF Inl] by (simp add: card_verify_def Let_def len m)
    next
      case (Inr r)
      obtain hs off where r: "r = (hs, off)" by fastforce
      then have "off = length bs - SIGNATURE_BYTES \<Longrightarrow> 1 < ephemeral_count hs"
        using rule3 [OF assms(1)] assms(3) False Inr by (simp add: not_less)
      then show ?thesis
        using False Inr r by (cases "off = length bs - SIGNATURE_BYTES") (simp_all add: card_verify_def Let_def len m)
    qed
  qed
qed

lemma card_verify_rules_4_9:
  assumes "rule_holds cr ctx bs 1" "rule_holds cr ctx bs 2" "rule_holds cr ctx bs 3"
  shows "(case card_verify cr bs ctx of Inl v \<Rightarrow> Some (rule v) | Inr _ \<Rightarrow> None) =
    find (\<lambda>k. \<not> rule_holds cr ctx bs k) [4, 5, 6, 7, 8, 9]"
proof -
  have len: "\<not> length bs < MIN_CARD_BYTES" "\<not> MAX_CARD_BYTES < length bs"
    using assms(1) by (simp_all add: rule_holds_def card_consts)
  obtain hs where cnt: "\<not> MAX_HINTS < unat (bs ! 61)" and
    p: "parse_hints cr bs (length bs - SIGNATURE_BYTES) (unat (bs ! 61)) HEADER_BYTES [] =
      Inr (hs, length bs - SIGNATURE_BYTES)" and e: "\<not> 1 < ephemeral_count hs"
    using assms rule3 [OF assms(1)] by (auto simp: not_less)
  let ?n = "NodeId (mk_arr (slice bs 5 37))" and ?iss = "from_be (slice bs 37 45) :: u64"
  let ?exp = "from_be (slice bs 45 53) :: u64" and ?ser = "from_be (slice bs 53 61) :: u64"
  let ?stop = "length bs - SIGNATURE_BYTES"
  have r: "rule_holds cr ctx bs 4 =
      node_verify cr ?n (CARD_DOMAIN @ take ?stop bs) (mk_arr (drop ?stop bs))"
    "rule_holds cr ctx bs 5 = (\<not> ?iss > saturating_add (now ctx) CLOCK_SKEW_SECONDS)"
    "rule_holds cr ctx bs 6 = (\<not> ?exp \<le> now ctx)"
    "rule_holds cr ctx bs 7 = (\<not> ?exp \<le> ?iss \<and> \<not> ?exp - ?iss > MAX_LIFETIME_SECONDS)"
    "rule_holds cr ctx bs 8 = (\<not> ?ser \<le> highest_seen_serial ctx)"
    "rule_holds cr ctx bs 9 =
      (\<not> (case expected_node_id ctx of Some e \<Rightarrow> e \<noteq> ?n | None \<Rightarrow> False))"
    using rule7 [of ?iss ?exp]
    by (auto simp: rule_holds_def SIGNATURE_BYTES_def rule5 Let_def not_le split: option.splits)
  have m: "take 4 bs = CARD_MAGIC" "bs ! 4 = CARD_VERSION"
    using rule2 [OF assms(1)] assms(2) by simp_all
  show ?thesis
    unfolding card_verify_def Let_def find.simps r
    by (simp only: len m cnt p e sum.case prod.case not_True_eq_False not_False_eq_True if_True
        if_False refl simp_thms if_distrib [of "case_sum (\<lambda>v. Some (rule v)) (\<lambda>_. None)"]
        rule_violation.simps cong: if_cong) simp
qed

lemma card_verify_first_failure:
  "(case card_verify cr bs ctx of Inl v \<Rightarrow> Some (rule v) | Inr _ \<Rightarrow> None) =
   find (\<lambda>k. \<not> rule_holds cr ctx bs k) [1, 2, 3, 4, 5, 6, 7, 8, 9]"
proof (cases "rule_holds cr ctx bs 1 \<and> rule_holds cr ctx bs 2")
  case True
  then show ?thesis
    using card_verify_rule3 [of cr ctx bs] card_verify_rules_4_9 [of cr ctx bs] by auto
next
  case False
  then show ?thesis using card_verify_rule12 [OF False] by auto
qed

section \<open>Acceptable cards\<close>

abbreviation card_body :: "card \<Rightarrow> bytes" where
  "card_body c \<equiv> encode_body (card_node_id c) (issued_at c) (expires_at c) (serial c) (hints c)"

text \<open>The declarative meaning of an accepted card: its bytes are the one encoding of its
  fields followed by a signature of the node over that encoding, and every limit holds.\<close>

definition card_ok :: "crypto \<Rightarrow> verify_context \<Rightarrow> card \<Rightarrow> bool" where
  "card_ok cr ctx c \<longleftrightarrow>
     (\<exists>sig. raw c = card_body c @ bytes_of sig \<and>
            node_verify cr (card_node_id c) (CARD_DOMAIN @ card_body c) sig) \<and>
     length (raw c) \<le> 4096 \<and> hints_wf cr (hints c) \<and>
     times_ok ctx (issued_at c) (expires_at c) \<and> highest_seen_serial ctx < serial c \<and>
     (expected_node_id ctx = None \<or> expected_node_id ctx = Some (card_node_id c))"

lemma body_layout:
  assumes "62 \<le> he" "he \<le> length bs"
  shows "take he bs = slice bs 0 5 @ slice bs 5 37 @ slice bs 37 45 @ slice bs 45 53 @
    slice bs 53 61 @ [bs ! 61] @ slice bs 62 he"
proof -
  have "[bs ! 61] @ slice bs 62 he = slice bs 61 he"
    using assms by (simp add: slice_nth)
  then show ?thesis using assms by (simp add: take_slice slice_split)
qed

lemma encode_body_iff:
  assumes "62 \<le> he" "he \<le> length bs"
  shows "encode_body n iss expi ser hs = take he bs \<longleftrightarrow>
    slice bs 0 5 = CARD_MAGIC @ [CARD_VERSION] \<and> n = NodeId (mk_arr (slice bs 5 37)) \<and>
    iss = from_be (slice bs 37 45) \<and> expi = from_be (slice bs 45 53) \<and>
    ser = from_be (slice bs 53 61) \<and> word_of_nat (length hs) = bs ! 61 \<and>
    slice bs 62 he = concat (map encode_hint hs)"
proof -
  have "bytes_of (node_bytes n) = slice bs 5 37 \<longleftrightarrow> n = NodeId (mk_arr (slice bs 5 37))"
    using assms by (cases n) (auto, metis mk_arr_bytes_of)
  moreover have "encode_body n iss expi ser hs = (CARD_MAGIC @ [CARD_VERSION]) @
    bytes_of (node_bytes n) @ to_be iss @ to_be expi @ to_be ser @ [word_of_nat (length hs)] @
    concat (map encode_hint hs)" by (simp add: encode_body_def)
  moreover have "length (CARD_MAGIC @ [CARD_VERSION]) = 5" by (simp add: CARD_MAGIC_def)
  ultimately show ?thesis
    using assms unfolding body_layout [OF assms]
    by (auto simp: append_eq_append_conv to_be_u64_iff simp del: append_assoc append.simps)
qed

lemma card_verify_fields:
  assumes "card_verify cr bs ctx = Inr c"
  shows "raw c = bs" "card_node_id c = NodeId (mk_arr (slice bs 5 37))"
    "issued_at c = from_be (slice bs 37 45)" "expires_at c = from_be (slice bs 45 53)"
    "serial c = from_be (slice bs 53 61)"
    "parse_hints cr bs (length bs - SIGNATURE_BYTES) (unat (bs ! 61)) HEADER_BYTES [] =
       Inr (hints c, length bs - SIGNATURE_BYTES)"
  using assms by (auto simp: card_verify_def Let_def split: if_splits sum.splits)

lemma find_None_rules:
  "find (\<lambda>k. \<not> P k) [1, 2, 3, 4, 5, 6, 7, 8, 9] = None \<longleftrightarrow>
   P (1::nat) \<and> P 2 \<and> P 3 \<and> P 4 \<and> P 5 \<and> P 6 \<and> P 7 \<and> P 8 \<and> P 9"
  by auto

lemma accepts_iff_rules:
  "(\<exists>c. card_verify cr bs ctx = Inr c) \<longleftrightarrow>
     rule_holds cr ctx bs 1 \<and> rule_holds cr ctx bs 2 \<and> rule_holds cr ctx bs 3 \<and>
     rule_holds cr ctx bs 4 \<and> rule_holds cr ctx bs 5 \<and> rule_holds cr ctx bs 6 \<and>
     rule_holds cr ctx bs 7 \<and> rule_holds cr ctx bs 8 \<and> rule_holds cr ctx bs 9"
  using card_verify_first_failure [of cr bs ctx]
  unfolding find_None_rules [of "rule_holds cr ctx bs", symmetric]
  by (cases "card_verify cr bs ctx") auto

lemma card_verify_sound:
  assumes "card_verify cr bs ctx = Inr c"
  shows "card_ok cr ctx c"
proof -
  note f = card_verify_fields [OF assms]
  let ?he = "length bs - 64"
  have rules: "rule_holds cr ctx bs k" if "k \<in> {1, 2, 3, 4, 5, 6, 7, 8, 9}" for k
    using accepts_iff_rules [of cr bs ctx] assms that by auto
  have len: "126 \<le> length bs" "length bs \<le> 4096" using rules [of 1] by (simp_all add: rule_holds_def)
  have hs: "length (hints c) = unat (bs ! 61)" "\<forall>h\<in>set (hints c). hint_wf cr h"
    "slice bs 62 ?he = concat (map encode_hint (hints c))"
    using f(6) len by (simp_all add: parse_hints_iff card_consts)
  have "ephemeral_count (hints c) \<le> 1" "unat (bs ! 61) \<le> MAX_HINTS"
    using rules [of 3] rule3 [of cr ctx bs] rules [of 1] f(6) by auto
  then have wf: "hints_wf cr (hints c)" using hs by (simp add: hints_wf_def)
  have body: "card_body c = take ?he bs"
    using len rules [of 2] hs f by (subst encode_body_iff) (simp_all add: rule_holds_def)
  show ?thesis
    unfolding card_ok_def body f(1)
  proof (intro conjI exI)
    show "bs = take ?he bs @ bytes_of (mk_arr (drop ?he bs) :: 64 arr)" using len by simp
    show "node_verify cr (card_node_id c) (CARD_DOMAIN @ take ?he bs) (mk_arr (drop ?he bs))"
      using rules [of 4] f by (simp add: rule_holds_def Let_def)
    show "times_ok ctx (issued_at c) (expires_at c)"
      using rules [of 5] rules [of 6] rules [of 7] f
      by (simp add: rule_holds_def times_ok_def Let_def)
    show "highest_seen_serial ctx < serial c" using rules [of 8] f by (simp add: rule_holds_def)
    show "expected_node_id ctx = None \<or> expected_node_id ctx = Some (card_node_id c)"
      using rules [of 9] f by (simp add: rule_holds_def)
  qed (use len wf in simp_all)
qed

lemma length_encode_body: "length (encode_body n i e s hs) = 62 + sum_list (map encoded_len hs)"
  by (simp add: encode_body_def CARD_MAGIC_def length_concat comp_def)

lemma card_verify_complete:
  assumes "card_ok cr ctx c"
  shows "card_verify cr (raw c) ctx = Inr c"
proof -
  obtain sig where r: "raw c = card_body c @ bytes_of sig" and
    v: "node_verify cr (card_node_id c) (CARD_DOMAIN @ card_body c) sig"
    using assms by (auto simp: card_ok_def)
  let ?he = "length (raw c) - 64"
  have he: "?he = length (card_body c)" using r by simp
  have len: "62 \<le> ?he" "126 \<le> length (raw c)" "length (raw c) \<le> 4096"
    using assms by (simp_all add: r card_ok_def length_encode_body)
  have "card_body c = take ?he (raw c)" unfolding he by (simp add: r)
  then have s: "slice (raw c) 0 5 = CARD_MAGIC @ [CARD_VERSION]"
    "NodeId (mk_arr (slice (raw c) 5 37)) = card_node_id c"
    "from_be (slice (raw c) 37 45) = issued_at c" "from_be (slice (raw c) 45 53) = expires_at c"
    "from_be (slice (raw c) 53 61) = serial c" "raw c ! 61 = word_of_nat (length (hints c))"
    "slice (raw c) 62 ?he = concat (map encode_hint (hints c))"
    using encode_body_iff [of ?he "raw c"] len by simp_all
  have wf: "hints_wf cr (hints c)" using assms by (simp add: card_ok_def)
  have n: "unat (raw c ! 61) = length (hints c)"
    using wf by (simp add: s(6) unat_of_nat hints_wf_def MAX_HINTS_def)
  have "rule_holds cr ctx (raw c) 3" using wf n s by (auto simp: rule_holds_def Let_def)
  moreover have "rule_holds cr ctx (raw c) 4"
    using v s(2) by (simp add: rule_holds_def Let_def r)
  moreover have "\<forall>k\<in>{1, 2, 5, 6, 7, 8, 9}. rule_holds cr ctx (raw c) k"
    using assms s len by (auto simp: rule_holds_def card_ok_def times_ok_def)
  ultimately obtain c' where c': "card_verify cr (raw c) ctx = Inr c'"
    using accepts_iff_rules [of cr "raw c" ctx] by auto
  have "parse_hints cr (raw c) ?he (length (hints c)) 62 [] = Inr (hints c, ?he)"
    using wf s(7) len by (subst parse_hints_iff) (auto simp: hints_wf_def)
  then have "hints c' = hints c"
    using card_verify_fields(6) [OF c'] n by (simp add: card_consts)
  then have "c' = c"
    using card_verify_fields(1-5) [OF c'] s(2-5) by (intro card.equality) simp_all
  with c' show ?thesis by simp
qed

lemma card_ok_signed:
  assumes "ed25519_correct cr" "key = from_seed cr sd" "hints_wf cr hs"
    and "62 + sum_list (map encoded_len hs) + 64 \<le> 4096"
    and "times_ok ctx iss expi" "highest_seen_serial ctx < ser"
    and "expected_node_id ctx = None \<or> expected_node_id ctx = Some (key_node_id key)"
  shows "card_ok cr ctx (card_sign cr key iss expi ser hs)"
  using assms node_verify_own_signature [of cr]
  by (auto simp: card_ok_def card_sign_def Let_def length_encode_body)

section \<open>Hints\<close>

lemma unmap_as_udp:
  "as_udp (hint_udp a) = Some (socket (V6 (to_ipv6 (ip a))) (port a))"
proof -
  have "to_be (port a) = [to_be (port a) ! 0, to_be (port a) ! 1]"
    by (rule nth_equalityI) (auto dest: less_2_cases)
  then show ?thesis
    by (simp add: as_udp_def hint_udp_def nth_append)
qed

section \<open>Properties\<close>

text \<open>C8: \<open>Card::verify\<close> accepts exactly the acceptable cards, and returns the card whose one
  encoding the bytes are. A card is acceptable when its bytes are the encoding of its fields and
  then a signature by the node it names over the domain-prefixed encoding, it is at most 4096
  bytes, has at most 16 well-formed hints with at most one ephemeral key, was issued at most 300
  seconds ahead, has not expired, lives at most seven days, has a serial above the highest seen,
  and names the expected node if one is expected.\<close>

theorem card_verify_iff:
  "card_verify cr bs ctx = Inr c \<longleftrightarrow> card_ok cr ctx c \<and> raw c = bs"
  using card_verify_sound card_verify_complete card_verify_fields(1) by blast

text \<open>C33: \<open>Card::verify\<close> reports the first of the nine rules that fails, in the order of the
  rules, and accepts when none does.\<close>

theorem card_verify_reports_first_failure:
  "(case card_verify cr bs ctx of Inl v \<Rightarrow> Some (rule v) | Inr _ \<Rightarrow> None) =
   find (\<lambda>k. \<not> rule_holds cr ctx bs k) [1, 2, 3, 4, 5, 6, 7, 8, 9]"
  by (rule card_verify_first_failure)

text \<open>A card that \<open>Card::sign\<close> makes from a seed's key, with well-formed hints that fit in
  4096 bytes and times, serial and node that suit the verifier, verifies to itself.\<close>

theorem card_sign_verifies:
  assumes "ed25519_correct cr" "hints_wf cr hs"
    and "62 + sum_list (map encoded_len hs) + 64 \<le> 4096"
    and "times_ok ctx iss expi" "highest_seen_serial ctx < ser"
    and "expected_node_id ctx = None \<or>
         expected_node_id ctx = Some (key_node_id (from_seed cr sd))"
  shows "card_verify cr (raw (card_sign cr (from_seed cr sd) iss expi ser hs)) ctx =
    Inr (card_sign cr (from_seed cr sd) iss expi ser hs)"
  using assms card_verify_complete card_ok_signed by blast

theorem card_sign_verifies_witness:
  "let hs = [hint_relay ''wss://relay.example'', hint_udp (socket (V4 0x7F000001) 9)];
       c = card_sign plain_crypto (from_seed plain_crypto (mk_arr (replicate 32 7))) 1000 4600 5 hs
   in card_verify plain_crypto (raw c) (after_serial (verify_context_new 1200) 4) = Inr c"
  unfolding Let_def
  by (rule card_sign_verifies)
    (simp_all add: plain_crypto_ed25519 hints_wf_def hint_wf_def hint_error_def hint_relay_def
      hint_udp_def hint_consts card_consts encoded_len_def times_ok_def after_serial_def
      verify_context_new_def as_bytes_def)

text \<open>A UDP hint carries its address: what \<open>as_udp\<close> reads from \<open>Hint::udp\<close> is, after
  \<open>unmap_ipv6\<close>, the address that was put in, so an IPv4 address survives the v4-mapped form.\<close>

theorem udp_hint_round_trip:
  "map_option unmap_ipv6 (as_udp (hint_udp a)) = Some (unmap_ipv6 a)"
  by (simp add: unmap_as_udp unmap_wire_form)

end
