(* ===== verification/Wire.thy ===== *)
theory Wire
  imports Card
begin

text \<open>
  \<open>link-core/src/wire.rs\<close>: relay authentication, relay frames, the UDP reflector and the
  session-keyed probes. Frames, reflector messages and sealed probes are interpreted as
  instances of the interface \<open>codec\<close>: a decoder accepts exactly what the encoder makes.
\<close>

section \<open>Relay authentication\<close>

definition RELAY_AUTH_DOMAIN :: bytes where
  "RELAY_AUTH_DOMAIN = as_bytes ''forgesworn-link/relay-auth/v1'' @ [0]"

definition MAX_DATAGRAM :: nat where "MAX_DATAGRAM = 1350"
definition MAX_QUEUED_FRAMES :: nat where "MAX_QUEUED_FRAMES = 64"
definition IDLE_CLOSE_SECONDS :: nat where "IDLE_CLOSE_SECONDS = 90"
definition CLOSE_REASON_MALFORMED :: u16 where "CLOSE_REASON_MALFORMED = 1"
definition CLOSE_REASON_SUPERSEDED :: u16 where "CLOSE_REASON_SUPERSEDED = 2"

definition relay_auth_signing_input :: "string \<Rightarrow> 32 arr \<Rightarrow> bytes" where
  "relay_auth_signing_input relay_host challenge =
     (let host = as_bytes relay_host
      in RELAY_AUTH_DOMAIN @ to_be (word_of_nat (length host) :: u16) @ host @ bytes_of challenge)"

definition sign_relay_auth :: "crypto \<Rightarrow> transport_key \<Rightarrow> string \<Rightarrow> 32 arr \<Rightarrow> 64 arr" where
  "sign_relay_auth cr key relay_host challenge =
     key_sign cr key (relay_auth_signing_input relay_host challenge)"

definition verify_relay_auth :: "crypto \<Rightarrow> node_id \<Rightarrow> string \<Rightarrow> 32 arr \<Rightarrow> 64 arr \<Rightarrow> bool" where
  "verify_relay_auth cr n relay_host challenge sig =
     node_verify cr n (relay_auth_signing_input relay_host challenge) sig"

section \<open>Relay frames\<close>

definition FRAME_CHALLENGE :: u8 where "FRAME_CHALLENGE = 0x01"
definition FRAME_AUTH :: u8 where "FRAME_AUTH = 0x02"
definition FRAME_WELCOME :: u8 where "FRAME_WELCOME = 0x03"
definition FRAME_SEND :: u8 where "FRAME_SEND = 0x10"
definition FRAME_RECV :: u8 where "FRAME_RECV = 0x11"
definition FRAME_PING :: u8 where "FRAME_PING = 0x20"
definition FRAME_PONG :: u8 where "FRAME_PONG = 0x21"
definition FRAME_CLOSE :: u8 where "FRAME_CLOSE = 0x7f"
definition FRAME_REGISTER :: u8 where "FRAME_REGISTER = 0x04"
definition FRAME_SEND_TAG :: u8 where "FRAME_SEND_TAG = 0x12"
definition FRAME_RECV_TAG :: u8 where "FRAME_RECV_TAG = 0x13"
definition MAX_TAGS_PER_REGISTER :: nat where "MAX_TAGS_PER_REGISTER = 256"

lemmas frame_bytes [wire_defs] =
  FRAME_CHALLENGE_def FRAME_AUTH_def FRAME_WELCOME_def FRAME_SEND_def FRAME_RECV_def
  FRAME_PING_def FRAME_PONG_def FRAME_CLOSE_def FRAME_REGISTER_def FRAME_SEND_TAG_def
  FRAME_RECV_TAG_def

datatype frame =
    Challenge "32 arr"
  | Auth node_id "64 arr"
  | Welcome "16 arr"
  | Send node_id bytes
  | Recv node_id bytes
  | Register "tag list"
  | SendTag tag bytes
  | RecvTag tag bytes
  | Ping "8 arr"
  | Pong "8 arr"
  | Close u16

definition one_frame :: "u8 \<Rightarrow> bytes \<Rightarrow> bytes" where
  "one_frame t body = [t] @ body"

definition routed :: "u8 \<Rightarrow> node_id \<Rightarrow> bytes \<Rightarrow> bytes" where
  "routed t n datagram = [t] @ bytes_of (node_bytes n) @ datagram"

definition routed_tag :: "u8 \<Rightarrow> tag \<Rightarrow> bytes \<Rightarrow> bytes" where
  "routed_tag t g datagram = [t] @ bytes_of (tag_bytes g) @ datagram"

fun frame_encode :: "frame \<Rightarrow> bytes" where
  "frame_encode (Challenge b) = one_frame FRAME_CHALLENGE (bytes_of b)"
| "frame_encode (Auth n sig) = [FRAME_AUTH] @ bytes_of (node_bytes n) @ bytes_of sig"
| "frame_encode (Welcome token) = one_frame FRAME_WELCOME (bytes_of token)"
| "frame_encode (Send destination datagram) = routed FRAME_SEND destination datagram"
| "frame_encode (Recv source datagram) = routed FRAME_RECV source datagram"
| "frame_encode (Register tags) =
     [FRAME_REGISTER] @ to_be (word_of_nat (length tags) :: u16)
     @ concat (map (\<lambda>g. bytes_of (tag_bytes g)) tags)"
| "frame_encode (SendTag g datagram) = routed_tag FRAME_SEND_TAG g datagram"
| "frame_encode (RecvTag g datagram) = routed_tag FRAME_RECV_TAG g datagram"
| "frame_encode (Ping opaque) = one_frame FRAME_PING (bytes_of opaque)"
| "frame_encode (Pong opaque) = one_frame FRAME_PONG (bytes_of opaque)"
| "frame_encode (Close reason) = one_frame FRAME_CLOSE (to_be reason)"

definition split_routed :: "bytes \<Rightarrow> (node_id \<times> bytes) option" where
  "split_routed body =
     (if length body < 33 then None
      else let datagram = drop 32 body
           in if datagram = [] \<or> length datagram > MAX_DATAGRAM then None
              else case from_slice (take 32 body) of
                None \<Rightarrow> None
              | Some n \<Rightarrow> Some (n, datagram))"

definition split_routed_tag :: "bytes \<Rightarrow> (tag \<times> bytes) option" where
  "split_routed_tag body =
     (if length body \<le> TAG_BYTES then None
      else let datagram = drop TAG_BYTES body
           in if length datagram > MAX_DATAGRAM then None
              else Some (Tag (mk_arr (take TAG_BYTES body)), datagram))"

text \<open>\<open>as_chunks::<TAG_BYTES>\<close>: the whole 16-byte chunks, in order.\<close>

fun tag_chunks :: "bytes \<Rightarrow> tag list" where
  "tag_chunks b =
     (if length b < 16 then [] else Tag (mk_arr (take 16 b)) # tag_chunks (drop 16 b))"

declare tag_chunks.simps [simp del]

definition frame_decode :: "bytes \<Rightarrow> frame option" where
  "frame_decode b =
     (case b of
        [] \<Rightarrow> None
      | t # body \<Rightarrow>
          if t = FRAME_CHALLENGE then map_option Challenge (to_arr body)
          else if t = FRAME_AUTH then
            (if length body \<noteq> 96 then None
             else case from_slice (take 32 body) of
               None \<Rightarrow> None
             | Some n \<Rightarrow> map_option (Auth n) (to_arr (drop 32 body)))
          else if t = FRAME_WELCOME then map_option Welcome (to_arr body)
          else if t = FRAME_SEND then map_option (\<lambda>(n, d). Send n d) (split_routed body)
          else if t = FRAME_RECV then map_option (\<lambda>(n, d). Recv n d) (split_routed body)
          else if t = FRAME_REGISTER then
            (if length body < 2 then None
             else let count = unat (from_be [body ! 0, body ! 1] :: u16);
                      rest = drop 2 body
                  in if count > MAX_TAGS_PER_REGISTER \<or> length rest \<noteq> count * TAG_BYTES then None
                     else Some (Register (tag_chunks rest)))
          else if t = FRAME_SEND_TAG then map_option (\<lambda>(g, d). SendTag g d) (split_routed_tag body)
          else if t = FRAME_RECV_TAG then map_option (\<lambda>(g, d). RecvTag g d) (split_routed_tag body)
          else if t = FRAME_PING then map_option Ping (to_arr body)
          else if t = FRAME_PONG then map_option Pong (to_arr body)
          else if t = FRAME_CLOSE then
            map_option (\<lambda>a. Close (from_be (bytes_of a))) (to_arr body :: 2 arr option)
          else None)"

section \<open>Reflector\<close>

definition REFLECT_MAGIC :: bytes where "REFLECT_MAGIC = as_bytes ''FSLR''"
definition REFLECT_REQUEST :: u8 where "REFLECT_REQUEST = 1"
definition REFLECT_REPLY :: u8 where "REFLECT_REPLY = 2"
definition REFLECT_REQUEST_BYTES :: nat where "REFLECT_REQUEST_BYTES = 21"
definition REFLECT_REPLY_BYTES :: nat where "REFLECT_REPLY_BYTES = 39"

definition reflect_request :: "16 arr \<Rightarrow> 21 arr" where
  "reflect_request nonce = mk_arr (REFLECT_MAGIC @ [REFLECT_REQUEST] @ bytes_of nonce)"

definition parse_reflect_request :: "bytes \<Rightarrow> 16 arr option" where
  "parse_reflect_request b =
     (if length b \<noteq> REFLECT_REQUEST_BYTES \<or> take 4 b \<noteq> REFLECT_MAGIC \<or> b ! 4 \<noteq> REFLECT_REQUEST
      then None else to_arr (drop 5 b))"

definition reflect_reply :: "16 arr \<Rightarrow> socket_addr \<Rightarrow> 39 arr" where
  "reflect_reply nonce observed =
     mk_arr (REFLECT_MAGIC @ [REFLECT_REPLY] @ bytes_of nonce @ to_be (to_ipv6 (ip observed))
             @ to_be (port observed))"

definition parse_reflect_reply :: "bytes \<Rightarrow> (16 arr \<times> socket_addr) option" where
  "parse_reflect_reply b =
     (if length b \<noteq> REFLECT_REPLY_BYTES \<or> take 4 b \<noteq> REFLECT_MAGIC \<or> b ! 4 \<noteq> REFLECT_REPLY
      then None
      else case to_arr (slice b 5 21) of
        None \<Rightarrow> None
      | Some nonce \<Rightarrow>
          Some (nonce, socket (V6 (from_be (slice b 21 37))) (from_be [b ! 37, b ! 38])))"

section \<open>Probes\<close>

definition PROBE_MAGIC :: bytes where "PROBE_MAGIC = as_bytes ''FSLP''"
definition PROBE_VERSION :: u8 where "PROBE_VERSION = 2"
definition PROBE_PING :: u8 where "PROBE_PING = 1"
definition PROBE_PONG :: u8 where "PROBE_PONG = 2"
definition PROBE_DOMAIN_V2 :: bytes where
  "PROBE_DOMAIN_V2 = as_bytes ''forgesworn-link/probe/v2'' @ [0]"
definition PROBE_BODY_BYTES :: nat where "PROBE_BODY_BYTES = 30"
definition PROBE_WIRE_BYTES :: nat where "PROBE_WIRE_BYTES = 62"

record probe =
  probe_kind :: u8
  key_id :: "8 arr"
  probe_nonce :: "16 arr"

definition probe_body :: "probe \<Rightarrow> 30 arr" where
  "probe_body self =
     mk_arr (PROBE_MAGIC @ [PROBE_VERSION, probe_kind self] @ bytes_of (key_id self)
             @ bytes_of (probe_nonce self))"

definition probe_mac :: "crypto \<Rightarrow> 32 arr \<Rightarrow> bytes \<Rightarrow> 32 arr" where
  "probe_mac cr key b = hmac_sha256 cr (bytes_of key) (PROBE_DOMAIN_V2 @ b)"

definition probe_seal :: "crypto \<Rightarrow> probe \<Rightarrow> 32 arr \<Rightarrow> 62 arr" where
  "probe_seal cr self key =
     (let body = bytes_of (probe_body self)
      in mk_arr (body @ bytes_of (probe_mac cr key body)))"

definition peek_key_id :: "bytes \<Rightarrow> 8 arr option" where
  "peek_key_id b =
     (if length b \<noteq> PROBE_WIRE_BYTES \<or> take 4 b \<noteq> PROBE_MAGIC \<or> b ! 4 \<noteq> PROBE_VERSION
      then None else to_arr (slice b 6 14))"

definition probe_open :: "crypto \<Rightarrow> bytes \<Rightarrow> 32 arr \<Rightarrow> probe option" where
  "probe_open cr b key =
     (case peek_key_id b of
        None \<Rightarrow> None
      | Some kid \<Rightarrow>
          let k = b ! 5
          in if k \<noteq> PROBE_PING \<and> k \<noteq> PROBE_PONG then None
             else if bytes_of (probe_mac cr key (take PROBE_BODY_BYTES b)) \<noteq> drop PROBE_BODY_BYTES b
             then None
             else map_option (\<lambda>n. \<lparr>probe_kind = k, key_id = kid, probe_nonce = n\<rparr>)
                    (to_arr (slice b 14 PROBE_BODY_BYTES)))"

section \<open>Frames have one spelling\<close>

abbreviation tags_bytes :: "tag list \<Rightarrow> bytes" where
  "tags_bytes tags \<equiv> concat (map (\<lambda>g. bytes_of (tag_bytes g)) tags)"

lemma length_tags_bytes [simp]: "length (tags_bytes tags) = 16 * length tags"
  by (induction tags) auto

lemma tag_chunks_tags_bytes [simp]: "tag_chunks (tags_bytes tags) = tags"
  by (induction tags) (simp_all add: tag_chunks.simps [of "_ @ _"] tag_chunks.simps [of "[]"])

lemma tags_bytes_tag_chunks:
  "length b = n * 16 \<Longrightarrow> tags_bytes (tag_chunks b) = b \<and> length (tag_chunks b) = n"
proof (induction n arbitrary: b)
  case 0
  then show ?case by (simp add: tag_chunks.simps)
next
  case (Suc n)
  then have "tags_bytes (tag_chunks (drop 16 b)) = drop 16 b \<and> length (tag_chunks (drop 16 b)) = n"
    by simp
  with Suc.prems show ?case by (simp add: tag_chunks.simps [of b])
qed

text \<open>The frames the decoder admits: a datagram of 1 to 1350 bytes, at most 256 tags.\<close>

fun frame_ok :: "frame \<Rightarrow> bool" where
  "frame_ok (Send _ d) \<longleftrightarrow> 1 \<le> length d \<and> length d \<le> MAX_DATAGRAM"
| "frame_ok (Recv _ d) \<longleftrightarrow> 1 \<le> length d \<and> length d \<le> MAX_DATAGRAM"
| "frame_ok (SendTag _ d) \<longleftrightarrow> 1 \<le> length d \<and> length d \<le> MAX_DATAGRAM"
| "frame_ok (RecvTag _ d) \<longleftrightarrow> 1 \<le> length d \<and> length d \<le> MAX_DATAGRAM"
| "frame_ok (Register tags) \<longleftrightarrow> length tags \<le> MAX_TAGS_PER_REGISTER"
| "frame_ok _ \<longleftrightarrow> True"

lemma split_routed_iff:
  "split_routed body = Some (n, d) \<longleftrightarrow>
   1 \<le> length d \<and> length d \<le> MAX_DATAGRAM \<and> body = bytes_of (node_bytes n) @ d"
  by (auto simp: split_routed_def Let_def MAX_DATAGRAM_def split: option.splits if_splits)
    (metis append_take_drop_id)+

lemma split_routed_tag_iff:
  "split_routed_tag body = Some (g, d) \<longleftrightarrow>
   1 \<le> length d \<and> length d \<le> MAX_DATAGRAM \<and> body = bytes_of (tag_bytes g) @ d"
  by (cases g) (auto simp: split_routed_tag_def Let_def TAG_BYTES_def MAX_DATAGRAM_def)

lemma decode_register:
  assumes "length body \<ge> 2"
    and "unat (from_be [body ! 0, body ! 1] :: u16) \<le> MAX_TAGS_PER_REGISTER"
    and "length (drop 2 body) = unat (from_be [body ! 0, body ! 1] :: u16) * TAG_BYTES"
  shows "to_be (word_of_nat (length (tag_chunks (drop 2 body))) :: u16)
      @ tags_bytes (tag_chunks (drop 2 body)) = body"
    "length (tag_chunks (drop 2 body)) \<le> MAX_TAGS_PER_REGISTER"
proof -
  obtain a b rest where body: "body = a # b # rest"
    using assms(1) by (cases body; cases "tl body") auto
  have "tags_bytes (tag_chunks rest) = rest \<and>
    length (tag_chunks rest) = unat (from_be [a, b] :: u16)"
    using assms(3) by (intro tags_bytes_tag_chunks) (simp add: body TAG_BYTES_def)
  then show "to_be (word_of_nat (length (tag_chunks (drop 2 body))) :: u16)
      @ tags_bytes (tag_chunks (drop 2 body)) = body"
    "length (tag_chunks (drop 2 body)) \<le> MAX_TAGS_PER_REGISTER"
    using assms(2) by (simp_all add: body)
qed

lemma decode_encode_register:
  assumes "length tags \<le> MAX_TAGS_PER_REGISTER"
  shows "frame_decode (frame_encode (Register tags)) = Some (Register tags)"
proof -
  let ?w = "word_of_nat (length tags) :: u16"
  obtain a b where ab: "to_be ?w = [a, b]" using to_be_u16_pair by blast
  have "unat ?w = length tags"
    using assms by (simp add: unat_of_nat MAX_TAGS_PER_REGISTER_def)
  then show ?thesis
    using assms ab to_be_u16_iff [of ?w a b]
    by (simp add: frame_decode_def frame_bytes TAG_BYTES_def Let_def)
qed

lemma frame_decode_encode: "frame_ok f \<Longrightarrow> frame_decode (frame_encode f) = Some f"
proof (cases f)
  case (Register tags)
  then show "frame_ok f \<Longrightarrow> ?thesis" using decode_encode_register by simp
qed (auto simp: frame_decode_def frame_bytes one_frame_def routed_def routed_tag_def
    split_routed_iff split_routed_tag_iff to_arr_def)

lemma append_take_drop_eqI: "take n b = x \<Longrightarrow> drop n b = y \<Longrightarrow> x @ y = b"
  by auto

lemma frame_decode_sound: "frame_decode b = Some f \<Longrightarrow> frame_ok f \<and> frame_encode f = b"
proof (cases b)
  case (Cons t body)
  assume "frame_decode b = Some f"
  then show ?thesis
    unfolding frame_decode_def Cons list.case
    by (auto simp: Let_def one_frame_def routed_def routed_tag_def split_routed_iff
        split_routed_tag_iff not_less decode_register
        intro: append_take_drop_eqI split: if_splits option.splits)
qed (simp add: frame_decode_def)

interpretation frames: codec frame_encode frame_decode frame_ok
  by unfold_locales (auto simp: frame_decode_encode dest: frame_decode_sound)

lemma length_frame_encode:
  "frame_ok f \<Longrightarrow> length (frame_encode f) \<le> 1 + 2 + 16 * 256"
  by (cases f) (simp_all add: one_frame_def routed_def routed_tag_def MAX_DATAGRAM_def
      MAX_TAGS_PER_REGISTER_def)

section \<open>Reflector messages have one spelling\<close>

lemma bytes_of_reflect_request:
  "bytes_of (reflect_request n) = REFLECT_MAGIC @ [REFLECT_REQUEST] @ bytes_of n"
  by (simp add: reflect_request_def REFLECT_MAGIC_def)

interpretation reflect_requests:
  codec "\<lambda>n. bytes_of (reflect_request n)" parse_reflect_request "\<lambda>_. True"
proof
  have m: "length REFLECT_MAGIC = 4" by (simp add: REFLECT_MAGIC_def)
  show "parse_reflect_request (bytes_of (reflect_request x)) = Some x" for x
    unfolding parse_reflect_request_def
    by (simp add: bytes_of_reflect_request m nth_append REFLECT_REQUEST_BYTES_def)
  show "True \<and> bytes_of (reflect_request x) = b" if "parse_reflect_request b = Some x" for b x
  proof -
    have l: "length b = 21" "take 4 b = REFLECT_MAGIC" "b ! 4 = REFLECT_REQUEST" "drop 5 b = bytes_of x"
      using that by (auto simp: parse_reflect_request_def REFLECT_REQUEST_BYTES_def split: if_splits)
    have "take 4 b @ [b ! 4] @ drop 5 b = b"
      using id_take_nth_drop [of 4 b] l(1) by simp
    then show ?thesis by (simp add: bytes_of_reflect_request l)
  qed
qed

lemma bytes_of_reflect_reply:
  "bytes_of (reflect_reply n a) =
   REFLECT_MAGIC @ [REFLECT_REPLY] @ bytes_of n @ to_be (to_ipv6 (ip a)) @ to_be (port a)"
  by (simp add: reflect_reply_def REFLECT_MAGIC_def)

lemma reflect_reply_round_trip:
  "parse_reflect_reply (bytes_of (reflect_reply n a)) =
   Some (n, socket (V6 (to_ipv6 (ip a))) (port a))"
proof -
  obtain x y where xy: "to_be (port a) = [x, y]" using to_be_u16_pair by blast
  then have p: "from_be [x, y] = port a" using to_be_u16_iff by metis
  have m: "length REFLECT_MAGIC = 4" by (simp add: REFLECT_MAGIC_def)
  show ?thesis
    unfolding parse_reflect_reply_def bytes_of_reflect_reply xy
    by (simp add: m nth_append REFLECT_REPLY_BYTES_def p)
qed

section \<open>Probes are authentic\<close>

lemma bytes_of_probe_body:
  "bytes_of (probe_body p) =
   PROBE_MAGIC @ [PROBE_VERSION, probe_kind p] @ bytes_of (key_id p) @ bytes_of (probe_nonce p)"
  by (simp add: probe_body_def PROBE_MAGIC_def)

lemma bytes_of_probe_seal:
  "bytes_of (probe_seal cr p key) =
   bytes_of (probe_body p) @ bytes_of (probe_mac cr key (bytes_of (probe_body p)))"
  by (simp add: probe_seal_def Let_def)

lemma peek_key_id_seal [simp]: "peek_key_id (bytes_of (probe_seal cr p key)) = Some (key_id p)"
proof -
  have m: "length PROBE_MAGIC = 4" by (simp add: PROBE_MAGIC_def)
  show ?thesis
    unfolding peek_key_id_def bytes_of_probe_seal
    by (simp add: bytes_of_probe_body m nth_append PROBE_WIRE_BYTES_def)
qed

lemma probe_layout:
  assumes "length b = 62"
  shows "take 30 b = take 4 b @ [b ! 4, b ! 5] @ slice b 6 14 @ slice b 14 30"
proof -
  have "[b ! 4, b ! 5] @ slice b 6 14 @ slice b 14 30 = slice b 4 30"
    using assms by (simp add: slice_nth slice_split)
  then show ?thesis by (simp add: take_slice slice_split)
qed

lemma probe_open_iff:
  "probe_open cr b key = Some p \<longleftrightarrow>
   probe_kind p \<in> {PROBE_PING, PROBE_PONG} \<and> b = bytes_of (probe_seal cr p key)"
    (is "?L \<longleftrightarrow> ?R")
proof
  assume ?L
  then have b: "length b = 62" "take 4 b = PROBE_MAGIC" "b ! 4 = PROBE_VERSION" "b ! 5 = probe_kind p"
    "slice b 6 14 = bytes_of (key_id p)" "slice b 14 30 = bytes_of (probe_nonce p)"
    "drop 30 b = bytes_of (probe_mac cr key (take 30 b))"
    "probe_kind p \<in> {PROBE_PING, PROBE_PONG}"
    by (auto simp: probe_open_def peek_key_id_def Let_def PROBE_WIRE_BYTES_def PROBE_BODY_BYTES_def
        split: if_splits option.splits)
  then have "take 30 b = bytes_of (probe_body p)"
    using probe_layout [of b] by (simp add: bytes_of_probe_body)
  then have "b = bytes_of (probe_seal cr p key)"
    using append_take_drop_id [of 30 b] b(7) by (simp add: bytes_of_probe_seal)
  then show ?R using b(8) by simp
next
  assume R: ?R
  have m: "length PROBE_MAGIC = 4" by (simp add: PROBE_MAGIC_def)
  have "bytes_of (probe_seal cr p key) ! 5 = probe_kind p"
    "slice (bytes_of (probe_seal cr p key)) 14 30 = bytes_of (probe_nonce p)"
    by (simp_all add: bytes_of_probe_seal bytes_of_probe_body m nth_append)
  moreover have "take 30 (bytes_of (probe_seal cr p key)) = bytes_of (probe_body p)"
    "drop 30 (bytes_of (probe_seal cr p key)) = bytes_of (probe_mac cr key (bytes_of (probe_body p)))"
    by (simp_all add: bytes_of_probe_seal)
  ultimately show ?L
    using R by (simp add: probe_open_def PROBE_BODY_BYTES_def Let_def)
qed

section \<open>Signing inputs\<close>

lemma relay_auth_input_inject [simp]:
  "relay_auth_signing_input h c = relay_auth_signing_input h' c' \<longleftrightarrow> h = h' \<and> c = c'"
proof
  assume eq: "relay_auth_signing_input h c = relay_auth_signing_input h' c'"
  have "length (relay_auth_signing_input h c) = length (relay_auth_signing_input h' c')"
    using eq by simp
  then have "length h = length h'" by (simp add: relay_auth_signing_input_def Let_def)
  then show "h = h' \<and> c = c'" using eq by (simp add: relay_auth_signing_input_def Let_def)
qed simp

lemma card_input_not_relay_auth: "signing_input c \<noteq> relay_auth_signing_input h ch"
proof
  assume "signing_input c = relay_auth_signing_input h ch"
  then have "signing_input c ! 16 = relay_auth_signing_input h ch ! 16" by simp
  then show False
    by (simp add: signing_input_def relay_auth_signing_input_def Let_def CARD_DOMAIN_def
        RELAY_AUTH_DOMAIN_def as_bytes_def byte_of_char_def nth_append)
qed

section \<open>Properties\<close>

text \<open>C31: relay frames have one spelling. \<open>Frame::decode\<close> returns a frame exactly when the bytes
  are \<open>Frame::encode\<close> of that frame and the frame is within the limits: a datagram of 1 to 1350
  bytes, at most 256 tags.\<close>

theorem frame_one_spelling:
  "frame_decode b = Some f \<longleftrightarrow> frame_ok f \<and> b = frame_encode f"
  by (rule frames.dec_iff)

text \<open>A probe opens only under the key that sealed it, byte for byte: \<open>Probe::open\<close> returns a
  probe exactly when the datagram is that probe sealed under the same key and it is a ping or a
  pong; and the key id a receiver looks the session up by is the sealed probe's own.\<close>

theorem probe_open_seal:
  "(probe_open cr b key = Some p \<longleftrightarrow>
    probe_kind p \<in> {PROBE_PING, PROBE_PONG} \<and> b = bytes_of (probe_seal cr p key)) \<and>
   peek_key_id (bytes_of (probe_seal cr p key)) = Some (key_id p)"
  by (simp add: probe_open_iff)

text \<open>What a node signs names one use. Two relay-authentication inputs are equal only for
  the same relay host and the same challenge, and no card's signing input is a relay-authentication
  input, so neither signature can stand in for the other.\<close>

theorem signing_inputs_separate:
  "(relay_auth_signing_input h c = relay_auth_signing_input h' c' \<longleftrightarrow> h = h' \<and> c = c') \<and>
   signing_input crd \<noteq> relay_auth_signing_input h c"
  by (simp add: card_input_not_relay_auth)

text \<open>The reflector tells a client its address: a request is recognised by exactly its nonce's
  encoding, and the reply to it decodes to that nonce and, after \<open>unmap_ipv6\<close>, to the address the
  relay observed.\<close>

theorem reflector_round_trip:
  "(parse_reflect_request b = Some n \<longleftrightarrow> b = bytes_of (reflect_request n)) \<and>
   map_option (\<lambda>(m, a). (m, unmap_ipv6 a)) (parse_reflect_reply (bytes_of (reflect_reply n addr))) =
     Some (n, unmap_ipv6 addr)"
  by (simp add: reflect_requests.dec_iff reflect_reply_round_trip unmap_wire_form)

end
