(* ===== verification/Relay.thy ===== *)
theory Relay
  imports Complex_Main Wire
begin

text \<open>
  \<open>link-relay/src/lib.rs\<close>: the datagram relay. The registry, the accept-time caps, tag
  registration, the first frame of a session, every branch of the session loop and the
  cleanup at its end are functions on explicit state; \<open>relay_step\<close> composes them into one
  machine over all connections, one event (an accept, a first message, a message, a queued
  frame sent, a tick, an I/O error) at a time. Each event runs under one step, so the
  interleavings are those of whole select branches. Outbound queues are a store of bounded
  queues, one per session, addressed by the session that owns the receiver. Times are seconds
  as rational numbers and the two token buckets, which the source keeps in \<open>f64\<close>, are exact.
\<close>

section \<open>Queues\<close>

type_synonym chan = nat
type_synonym chans = "chan \<rightharpoonup> frame list"

text \<open>\<open>mpsc::Sender::try_send\<close> on a queue of \<open>MAX_QUEUED_FRAMES\<close>; a dropped receiver is
  \<open>None\<close>. The flag says whether the frame was queued.\<close>

definition try_send :: "chan \<Rightarrow> frame \<Rightarrow> chans \<Rightarrow> chans \<times> bool" where
  "try_send c f q =
     (case q c of
        None \<Rightarrow> (q, False)
      | Some fs \<Rightarrow> if length fs < MAX_QUEUED_FRAMES then (q(c \<mapsto> fs @ [f]), True) else (q, False))"

section \<open>Registry and admission\<close>

record relay_config =
  hosts :: "string list"
  bytes_per_second :: nat
  max_sessions :: nat
  max_sessions_per_source :: nat
  reflector_per_second :: rat

record registry =
  sessions :: "node_id \<rightharpoonup> chan"
  tags :: "tag \<rightharpoonup> (nat \<times> chan) list"
  live :: nat
  by_source :: "ip_addr \<rightharpoonup> nat"

definition registry_default :: registry where
  "registry_default = \<lparr>sessions = Map.empty, tags = Map.empty, live = 0, by_source = Map.empty\<rparr>"

text \<open>The block under the lock in the accept loop: \<open>None\<close> drops the connection.\<close>

definition admit :: "relay_config \<Rightarrow> ip_addr \<Rightarrow> registry \<Rightarrow> registry option" where
  "admit config source_ip reg =
     (if live reg \<ge> max_sessions config then None
      else let from_source = (case by_source reg source_ip of Some n \<Rightarrow> n | None \<Rightarrow> 0)
           in if max_sessions_per_source config > 0 \<and> from_source \<ge> max_sessions_per_source config
              then None
              else Some (reg\<lparr>by_source := (by_source reg)(source_ip \<mapsto> from_source + 1),
                             live := live reg + 1\<rparr>))"

text \<open>What the connection's task does to the counts when \<open>serve_session\<close> returns.\<close>

definition release :: "ip_addr \<Rightarrow> registry \<Rightarrow> registry" where
  "release source_ip reg =
     (let reg = reg\<lparr>live := live reg - 1\<rparr>
      in case by_source reg source_ip of
           None \<Rightarrow> reg
         | Some n \<Rightarrow>
             if n - 1 = 0 then reg\<lparr>by_source := (by_source reg)(source_ip := None)\<rparr>
             else reg\<lparr>by_source := (by_source reg)(source_ip \<mapsto> n - 1)\<rparr>)"

section \<open>Tag registration\<close>

definition TAG_ENDS :: nat where "TAG_ENDS = 2"

definition drop_tag :: "nat \<Rightarrow> tag \<Rightarrow> (tag \<rightharpoonup> (nat \<times> chan) list) \<Rightarrow> (tag \<rightharpoonup> (nat \<times> chan) list)" where
  "drop_tag session_id t m =
     (case m t of
        None \<Rightarrow> m
      | Some entries \<Rightarrow>
          let entries = filter (\<lambda>(i, _). i \<noteq> session_id) entries
          in if entries = [] then m(t := None) else m(t \<mapsto> entries))"

text \<open>\<open>min_by_key\<close> on the session id: the first entry with the least id.\<close>

fun oldest :: "(nat \<times> chan) list \<Rightarrow> nat \<times> chan" where
  "oldest [] = (0, 0)"
| "oldest [e] = e"
| "oldest (e # es) = (let m = oldest es in if fst e \<le> fst m then e else m)"

text \<open>The \<open>while entries.len() > TAG_ENDS\<close> loop.\<close>

lemma oldest_in: "es \<noteq> [] \<Longrightarrow> oldest es \<in> set es"
  by (induction es rule: oldest.induct) (auto simp: Let_def)

function evict :: "(nat \<times> chan) list \<Rightarrow> chans \<Rightarrow> (nat \<times> chan) list \<times> chans" where
  "evict entries q =
     (if length entries > TAG_ENDS then
        let e = oldest entries
        in evict (remove1 e entries) (fst (try_send (snd e) (Close CLOSE_REASON_SUPERSEDED) q))
      else (entries, q))"
  by pat_completeness auto

termination
proof (relation "measure (\<lambda>(entries, q). length entries)", goal_cases)
  case 1
  show ?case by simp
next
  case (2 entries q e)
  then have "entries \<noteq> []" by auto
  then have "oldest entries \<in> set entries" by (rule oldest_in)
  with 2 \<open>entries \<noteq> []\<close> show ?case by (simp add: length_remove1)
qed

declare evict.simps [simp del]

definition add_tag ::
  "nat \<Rightarrow> chan \<Rightarrow> tag \<Rightarrow> (tag \<rightharpoonup> (nat \<times> chan) list) \<times> chans \<Rightarrow> (tag \<rightharpoonup> (nat \<times> chan) list) \<times> chans" where
  "add_tag session_id tx t mq =
     (let (m, q) = mq;
          entries = (case m t of Some es \<Rightarrow> es | None \<Rightarrow> [])
      in if list_ex (\<lambda>(i, _). i = session_id) entries then (m(t \<mapsto> entries), q)
         else let (entries, q) = evict (entries @ [(session_id, tx)]) q
              in (m(t \<mapsto> entries), q))"

definition register_tags ::
  "nat \<Rightarrow> chan \<Rightarrow> tag list \<Rightarrow> tag list \<Rightarrow> registry \<Rightarrow> chans \<Rightarrow> registry \<times> chans" where
  "register_tags session_id tx current nxt reg q =
     (let m = fold (drop_tag session_id) current (tags reg);
          (m, q) = fold (add_tag session_id tx) nxt (m, q)
      in (reg\<lparr>tags := m\<rparr>, q))"

section \<open>Token buckets\<close>

record byte_budget =
  per_second :: nat
  tokens :: rat
  budget_last :: rat

definition byte_budget_new :: "nat \<Rightarrow> rat \<Rightarrow> byte_budget" where
  "byte_budget_new ps t = \<lparr>per_second = ps, tokens = of_nat ps, budget_last = t\<rparr>"

definition budget_allow :: "nat \<Rightarrow> rat \<Rightarrow> byte_budget \<Rightarrow> byte_budget \<times> bool" where
  "budget_allow n t self =
     (if per_second self = 0 then (self, True)
      else
        let elapsed = t - budget_last self;
            avail = min (tokens self + elapsed * of_nat (per_second self)) (of_nat (per_second self))
        in if avail \<ge> of_nat n then (self\<lparr>budget_last := t, tokens := avail - of_nat n\<rparr>, True)
           else (self\<lparr>budget_last := t, tokens := avail\<rparr>, False))"

type_synonym source_seen = "(ip_addr \<times> rat \<times> rat) list"

text \<open>\<open>SourceLimiter::allow\<close>; the map is an association list, so that its size is its length.\<close>

definition limiter_allow :: "rat \<Rightarrow> rat \<Rightarrow> ip_addr \<Rightarrow> source_seen \<Rightarrow> source_seen \<times> bool" where
  "limiter_allow ps t source seen =
     (let seen = (if length seen > 10000 then filter (\<lambda>(_, _, l). l > t - 60) seen else seen);
          burst = ps * 2;
          (tok, l) = (case map_of seen source of Some e \<Rightarrow> e | None \<Rightarrow> (burst, t));
          tok = min (tok + (t - l) * ps) burst;
          rest = filter (\<lambda>(s, _). s \<noteq> source) seen
      in if tok \<ge> 1 then ((source, tok - 1, t) # rest, True) else ((source, tok, t) # rest, False))"

text \<open>One datagram at the reflector: the reply to send, if any.\<close>

definition reflector_step ::
  "relay_config \<Rightarrow> rat \<Rightarrow> socket_addr \<Rightarrow> bytes \<Rightarrow> source_seen \<Rightarrow> source_seen \<times> (39 arr) option" where
  "reflector_step config t from b seen =
     (if length b \<noteq> REFLECT_REQUEST_BYTES then (seen, None)
      else case parse_reflect_request b of
        None \<Rightarrow> (seen, None)
      | Some nonce \<Rightarrow>
          let (seen, ok) = limiter_allow (reflector_per_second config) t (ip from) seen
          in (seen, if ok then Some (reflect_reply nonce from) else None))"

section \<open>One session\<close>

datatype mode = Identity node_id | Tags "tag list"

text \<open>A WebSocket message; \<open>WsOther\<close> is a text or raw frame.\<close>

datatype ws_message = Binary bytes | WsPing bytes | WsPong bytes | WsClose | WsOther

datatype session_exit = ExitOk | ExitErr string

record session =
  session_id :: nat
  mode :: mode
  last_ping :: rat
  budget :: byte_budget
  frames_in :: nat
  frames_out :: nat
  bytes_in :: nat
  dropped :: nat

definition binary :: "frame \<Rightarrow> ws_message" where
  "binary f = Binary (frame_encode f)"

definition decode_binary :: "ws_message \<Rightarrow> frame option" where
  "decode_binary m = (case m of Binary b \<Rightarrow> frame_decode b | _ \<Rightarrow> None)"

lemma decode_binary_binary [simp]: "frame_ok f \<Longrightarrow> decode_binary (binary f) = Some f"
  by (simp add: decode_binary_def binary_def frame_decode_encode)

abbreviation close_malformed :: ws_message where
  "close_malformed \<equiv> binary (Close CLOSE_REASON_MALFORMED)"

text \<open>
  The match on the first frame: the mode it chooses and the registration it makes, with
  \<open>sid\<close> the session id just drawn, which is also the address of the queue just made. An
  \<open>Inl\<close> is the refusal.
\<close>

definition first_contact ::
  "crypto \<Rightarrow> relay_config \<Rightarrow> 32 arr \<Rightarrow> nat \<Rightarrow> ws_message \<Rightarrow> registry \<Rightarrow> chans \<Rightarrow>
   string + (mode \<times> registry \<times> chans)" where
  "first_contact cr config challenge sid first reg q =
     (case decode_binary first of
        Some (Auth n sig) \<Rightarrow>
          if \<not> list_ex (\<lambda>host. verify_relay_auth cr n host challenge sig) (hosts config)
          then Inl ''auth signature refused''
          else
            let reg' = reg\<lparr>sessions := (sessions reg)(n \<mapsto> sid)\<rparr>;
                q' = (case sessions reg n of
                        None \<Rightarrow> q
                      | Some previous \<Rightarrow> fst (try_send previous (Close CLOSE_REASON_SUPERSEDED) q))
            in Inr (Identity n, reg', q')
      | Some (Register ts) \<Rightarrow>
          if ts = [] then Inl ''first frame was not an auth or a register''
          else let (reg', q') = register_tags sid sid [] ts reg q in Inr (Tags ts, reg', q')
      | _ \<Rightarrow> Inl ''first frame was not an auth or a register'')"

definition session_new :: "relay_config \<Rightarrow> nat \<Rightarrow> mode \<Rightarrow> rat \<Rightarrow> session" where
  "session_new config sid m t =
     \<lparr>session_id = sid, mode = m, last_ping = t, budget = byte_budget_new (bytes_per_second config) t,
      frames_in = 0, frames_out = 0, bytes_in = 0, dropped = 0\<rparr>"

text \<open>What one branch of the loop does: the session, the registry, the queues, the messages
  written to the socket, and the exit if the loop breaks.\<close>

type_synonym branch = "session \<times> registry \<times> chans \<times> ws_message list \<times> session_exit option"

definition on_send :: "rat \<Rightarrow> node_id \<Rightarrow> bytes \<Rightarrow> session \<Rightarrow> registry \<Rightarrow> chans \<Rightarrow> branch" where
  "on_send t destination datagram s reg q =
     (case mode s of
        Tags _ \<Rightarrow> (s, reg, q, [close_malformed], Some (ExitErr ''identity frame on a tag session''))
      | Identity source \<Rightarrow>
          let s = s\<lparr>bytes_in := bytes_in s + length datagram\<rparr>;
              (b, ok) = budget_allow (length datagram) t (budget s);
              s = s\<lparr>budget := b\<rparr>
          in if \<not> ok then (s\<lparr>dropped := dropped s + 1\<rparr>, reg, q, [], None)
             else case sessions reg destination of
               None \<Rightarrow> (s\<lparr>dropped := dropped s + 1\<rparr>, reg, q, [], None)
             | Some target \<Rightarrow>
                 let (q, sent) = try_send target (Recv source datagram) q
                 in (if sent then s else s\<lparr>dropped := dropped s + 1\<rparr>, reg, q, [], None))"

text \<open>\<open>for target in targets\<close>: the queues and how many sends failed.\<close>

fun send_all :: "frame \<Rightarrow> chan list \<Rightarrow> chans \<Rightarrow> chans \<times> nat" where
  "send_all f [] q = (q, 0)"
| "send_all f (c # cs) q =
     (let (q, ok) = try_send c f q;
          (q, n) = send_all f cs q
      in (q, if ok then n else n + 1))"

definition tag_targets :: "tag \<Rightarrow> nat \<Rightarrow> registry \<Rightarrow> chan list" where
  "tag_targets t sid reg =
     (case tags reg t of
        None \<Rightarrow> []
      | Some entries \<Rightarrow> map snd (filter (\<lambda>(i, _). i \<noteq> sid) entries))"

definition on_send_tag :: "rat \<Rightarrow> tag \<Rightarrow> bytes \<Rightarrow> session \<Rightarrow> registry \<Rightarrow> chans \<Rightarrow> branch" where
  "on_send_tag t g datagram s reg q =
     (case mode s of
        Identity _ \<Rightarrow> (s, reg, q, [close_malformed], Some (ExitErr ''tag frame on an identity session''))
      | Tags _ \<Rightarrow>
          let s = s\<lparr>bytes_in := bytes_in s + length datagram\<rparr>;
              (b, ok) = budget_allow (length datagram) t (budget s);
              s = s\<lparr>budget := b\<rparr>
          in if \<not> ok then (s\<lparr>dropped := dropped s + 1\<rparr>, reg, q, [], None)
             else
               let targets = tag_targets g (session_id s) reg
               in if targets = [] then (s\<lparr>dropped := dropped s + 1\<rparr>, reg, q, [], None)
                  else let (q, n) = send_all (RecvTag g datagram) targets q
                       in (s\<lparr>dropped := dropped s + n\<rparr>, reg, q, [], None))"

definition on_register :: "tag list \<Rightarrow> session \<Rightarrow> registry \<Rightarrow> chans \<Rightarrow> branch" where
  "on_register nxt s reg q =
     (case mode s of
        Identity _ \<Rightarrow> (s, reg, q, [close_malformed], Some (ExitErr ''register on an identity session''))
      | Tags current \<Rightarrow>
          let (reg, q) = register_tags (session_id s) (session_id s) current nxt reg q
          in (s\<lparr>mode := Tags nxt\<rparr>, reg, q, [], None))"

text \<open>The match on a decoded frame.\<close>

fun on_frame :: "rat \<Rightarrow> frame \<Rightarrow> session \<Rightarrow> registry \<Rightarrow> chans \<Rightarrow> branch" where
  "on_frame t (Send destination datagram) s reg q = on_send t destination datagram s reg q"
| "on_frame t (SendTag g datagram) s reg q = on_send_tag t g datagram s reg q"
| "on_frame t (Register nxt) s reg q = on_register nxt s reg q"
| "on_frame t (Ping opaque) s reg q = (s\<lparr>last_ping := t\<rparr>, reg, q, [binary (Pong opaque)], None)"
| "on_frame t (Pong _) s reg q = (s\<lparr>last_ping := t\<rparr>, reg, q, [], None)"
| "on_frame t (Close _) s reg q = (s, reg, q, [], Some ExitOk)"
| "on_frame t _ s reg q =
     (s, reg, q, [close_malformed], Some (ExitErr ''unexpected frame from client''))"

text \<open>The \<open>incoming = ws.next()\<close> branch; \<open>None\<close> is the end of the stream.\<close>

definition on_message :: "rat \<Rightarrow> ws_message option \<Rightarrow> session \<Rightarrow> registry \<Rightarrow> chans \<Rightarrow> branch" where
  "on_message t incoming s reg q =
     (case incoming of
        None \<Rightarrow> (s, reg, q, [], Some ExitOk)
      | Some (WsPing p) \<Rightarrow> (s, reg, q, [WsPong p], None)
      | Some (WsPong _) \<Rightarrow> (s, reg, q, [], None)
      | Some WsClose \<Rightarrow> (s, reg, q, [], Some ExitOk)
      | Some WsOther \<Rightarrow> (s, reg, q, [close_malformed], Some (ExitErr ''non-binary frame''))
      | Some (Binary b) \<Rightarrow>
          (case decode_binary (Binary b) of
             None \<Rightarrow> (s, reg, q, [close_malformed], Some (ExitErr ''oversize or malformed frame''))
           | Some f \<Rightarrow> on_frame t f (s\<lparr>frames_in := frames_in s + 1\<rparr>) reg q))"

text \<open>The \<open>outbound = rx.recv()\<close> branch, enabled when the session's queue has a frame.\<close>

definition on_outbound :: "session \<Rightarrow> registry \<Rightarrow> chans \<Rightarrow> branch" where
  "on_outbound s reg q =
     (case q (session_id s) of
        Some (f # fs) \<Rightarrow>
          (s\<lparr>frames_out := frames_out s + 1\<rparr>, reg, q(session_id s \<mapsto> fs), [binary f],
           case f of Close _ \<Rightarrow> Some (ExitErr ''superseded'') | _ \<Rightarrow> None)
      | _ \<Rightarrow> (s, reg, q, [], None))"

definition on_tick :: "rat \<Rightarrow> session \<Rightarrow> registry \<Rightarrow> chans \<Rightarrow> branch" where
  "on_tick t s reg q =
     (if t - last_ping s > of_nat IDLE_CLOSE_SECONDS
      then (s, reg, q, [binary (Close 0)], Some (ExitErr ''idle''))
      else (s, reg, q, [], None))"

definition on_stop :: "session \<Rightarrow> registry \<Rightarrow> chans \<Rightarrow> branch" where
  "on_stop s reg q = (s, reg, q, [binary (Close 0)], Some ExitOk)"

text \<open>The cleanup every exit reaches; the receiver is dropped with the task.\<close>

definition cleanup :: "session \<Rightarrow> registry \<Rightarrow> chans \<Rightarrow> registry \<times> chans" where
  "cleanup s reg q =
     (let sid = session_id s;
          (reg, q) =
            (case mode s of
               Identity n \<Rightarrow>
                 (if sessions reg n = Some sid then reg\<lparr>sessions := (sessions reg)(n := None)\<rparr> else reg, q)
             | Tags current \<Rightarrow> register_tags sid sid current [] reg q)
      in (reg, q(sid := None)))"

section \<open>The relay\<close>

datatype phase = Handshake "32 arr" | Serving session

record conn =
  conn_source :: ip_addr
  phase :: phase

record relay =
  reg :: registry
  queues :: chans
  conns :: "nat \<rightharpoonup> conn"
  next_session_id :: nat

datatype event =
    Accept nat ip_addr "32 arr"
  | First nat rat "16 arr" ws_message
  | Message nat rat "ws_message option"
  | Outbound nat
  | Tick nat rat
  | Stop nat
  | IoError nat

definition relay_start :: relay where
  "relay_start =
     \<lparr>reg = registry_default, queues = Map.empty, conns = Map.empty, next_session_id = 1\<rparr>"

text \<open>The end of a connection's task: cleanup if it was registered, then the counts.\<close>

definition end_conn :: "nat \<Rightarrow> relay \<Rightarrow> relay" where
  "end_conn cid st =
     (case conns st cid of
        None \<Rightarrow> st
      | Some k \<Rightarrow>
          let (r, q) = (case phase k of
                          Handshake _ \<Rightarrow> (reg st, queues st)
                        | Serving s \<Rightarrow> cleanup s (reg st) (queues st))
          in st\<lparr>reg := release (conn_source k) r, queues := q, conns := (conns st)(cid := None)\<rparr>)"

definition on_accept :: "relay_config \<Rightarrow> nat \<Rightarrow> ip_addr \<Rightarrow> 32 arr \<Rightarrow> relay \<Rightarrow> relay \<times> ws_message list" where
  "on_accept config cid source_ip challenge st =
     (if conns st cid \<noteq> None then (st, [])
      else case admit config source_ip (reg st) of
        None \<Rightarrow> (st, [])
      | Some r \<Rightarrow>
          (st\<lparr>reg := r,
              conns := (conns st)(cid \<mapsto> \<lparr>conn_source = source_ip, phase = Handshake challenge\<rparr>)\<rparr>,
           [binary (Challenge challenge)]))"

text \<open>The first frame; \<open>token\<close> is the one drawn for the session and sent in its \<open>Welcome\<close>.\<close>

definition on_first ::
  "crypto \<Rightarrow> relay_config \<Rightarrow> nat \<Rightarrow> rat \<Rightarrow> 16 arr \<Rightarrow> ws_message \<Rightarrow> relay \<Rightarrow> relay \<times> ws_message list" where
  "on_first cr config cid t token first st =
     (case conns st cid of
        Some k \<Rightarrow>
          (case phase k of
             Serving _ \<Rightarrow> (st, [])
           | Handshake challenge \<Rightarrow>
               let sid = next_session_id st;
                   st = st\<lparr>next_session_id := sid + 1\<rparr>
               in case first_contact cr config challenge sid first (reg st) ((queues st)(sid \<mapsto> [])) of
                    Inl _ \<Rightarrow> (end_conn cid st, [close_malformed])
                  | Inr (m, r, q) \<Rightarrow>
                      (st\<lparr>reg := r, queues := q,
                          conns := (conns st)(cid \<mapsto> k\<lparr>phase := Serving (session_new config sid m t)\<rparr>)\<rparr>,
                       [binary (Welcome token)]))
      | None \<Rightarrow> (st, []))"

definition in_session ::
  "nat \<Rightarrow> (session \<Rightarrow> registry \<Rightarrow> chans \<Rightarrow> branch) \<Rightarrow> relay \<Rightarrow> relay \<times> ws_message list" where
  "in_session cid f st =
     (case conns st cid of
        Some k \<Rightarrow>
          (case phase k of
             Handshake _ \<Rightarrow> (st, [])
           | Serving s \<Rightarrow>
               let (s', r, q, out, ex) = f s (reg st) (queues st);
                   st = st\<lparr>reg := r, queues := q, conns := (conns st)(cid \<mapsto> k\<lparr>phase := Serving s'\<rparr>)\<rparr>
               in (if ex = None then st else end_conn cid st, out))
      | None \<Rightarrow> (st, []))"

fun relay_step :: "crypto \<Rightarrow> relay_config \<Rightarrow> event \<Rightarrow> relay \<Rightarrow> relay \<times> ws_message list" where
  "relay_step cr config (Accept cid source_ip challenge) st = on_accept config cid source_ip challenge st"
| "relay_step cr config (First cid t token first) st = on_first cr config cid t token first st"
| "relay_step cr config (Message cid t m) st = in_session cid (on_message t m) st"
| "relay_step cr config (Outbound cid) st = in_session cid on_outbound st"
| "relay_step cr config (Tick cid t) st = in_session cid (on_tick t) st"
| "relay_step cr config (Stop cid) st = in_session cid on_stop st"
| "relay_step cr config (IoError cid) st = (end_conn cid st, [])"

section \<open>Queue lemmas\<close>

lemma dom_try_send [simp]: "dom (fst (try_send c f q)) = dom q"
  by (auto simp: try_send_def split: option.splits)

definition queues_ok :: "chans \<Rightarrow> bool" where
  "queues_ok q \<longleftrightarrow> (\<forall>c fs. q c = Some fs \<longrightarrow> length fs \<le> MAX_QUEUED_FRAMES)"

lemma queues_ok_try_send [simp]: "queues_ok q \<Longrightarrow> queues_ok (fst (try_send c f q))"
  by (auto simp: queues_ok_def try_send_def split: option.splits)

lemma queues_ok_send_all [simp]: "queues_ok q \<Longrightarrow> queues_ok (fst (send_all f cs q))"
  by (induction cs arbitrary: q) (auto simp: Let_def split_beta)

lemma dom_send_all [simp]: "dom (fst (send_all f cs q)) = dom q"
  by (induction cs arbitrary: q) (auto simp: Let_def split_beta)

lemma queues_ok_drop [simp]: "queues_ok q \<Longrightarrow> queues_ok (q(c := None))"
  by (auto simp: queues_ok_def)

lemma queues_ok_new [simp]: "queues_ok q \<Longrightarrow> queues_ok (q(c \<mapsto> []))"
  by (auto simp: queues_ok_def)

section \<open>Tag tables\<close>

abbreviation entries_of :: "(tag \<rightharpoonup> (nat \<times> chan) list) \<Rightarrow> tag \<Rightarrow> (nat \<times> chan) list" where
  "entries_of m t \<equiv> (case m t of Some es \<Rightarrow> es | None \<Rightarrow> [])"

lemma evict_unfold:
  "evict es q =
   (if length es > TAG_ENDS
    then evict (remove1 (oldest es) es)
           (fst (try_send (snd (oldest es)) (Close CLOSE_REASON_SUPERSEDED) q))
    else (es, q))"
  by (subst evict.simps) (simp add: Let_def)

lemma evict_queues:
  "dom (snd (evict es q)) = dom q" "queues_ok q \<Longrightarrow> queues_ok (snd (evict es q))"
proof (induction es q rule: evict.induct)
  case (1 es q)
  note IH = "1.IH" [OF _ refl]
  {
    case 1
    then show ?case using IH(1) by (subst evict_unfold) auto
  next
    case 2
    then show ?case using IH(2) by (subst evict_unfold) auto
  }
qed

lemma evict_entries:
  "set (fst (evict es q)) \<subseteq> set es"
  "length (fst (evict es q)) = min (length es) TAG_ENDS"
  "distinct (map fst es) \<Longrightarrow> distinct (map fst (fst (evict es q)))"
proof (induction es q rule: evict.induct)
  case (1 es q)
  note IH = "1.IH" [OF _ refl]
  have sub: "set (remove1 (oldest es) es) \<subseteq> set es" by (rule set_remove1_subset)
  have len: "length (remove1 (oldest es) es) = length es - 1" if "length es > TAG_ENDS"
  proof -
    have "es \<noteq> []" using that by auto
    then show ?thesis using oldest_in by (simp add: length_remove1)
  qed
  {
    case 1
    then show ?case using IH(1) sub by (subst evict_unfold) auto
  next
    case 2
    then show ?case using IH(2) len by (subst evict_unfold) (auto simp: TAG_ENDS_def)
  next
    case 3
    have "distinct (map fst (remove1 (oldest es) es))"
      using 3 sub by (auto simp: distinct_map intro: inj_on_subset)
    then show ?case using IH(3) 3 by (subst evict_unfold) auto
  }
qed

text \<open>A tag table is well formed for \<open>P\<close> when every listed tag has one or two entries, of
  different sessions, all satisfying \<open>P\<close>.\<close>

definition table_ok :: "(tag \<Rightarrow> nat \<times> chan \<Rightarrow> bool) \<Rightarrow> (tag \<rightharpoonup> (nat \<times> chan) list) \<Rightarrow> bool" where
  "table_ok P m \<longleftrightarrow>
     (\<forall>t es. m t = Some es \<longrightarrow>
        es \<noteq> [] \<and> length es \<le> TAG_ENDS \<and> distinct (map fst es) \<and> (\<forall>e\<in>set es. P t e))"

lemma table_ok_mono: "table_ok P m \<Longrightarrow> (\<And>t e. P t e \<Longrightarrow> Q t e) \<Longrightarrow> table_ok Q m"
  unfolding table_ok_def by blast

lemma table_ok_entries:
  "table_ok P m \<Longrightarrow> length (entries_of m t) \<le> TAG_ENDS \<and> distinct (map fst (entries_of m t)) \<and>
     (\<forall>e\<in>set (entries_of m t). P t e)"
  by (cases "m t") (simp_all add: table_ok_def)

lemma table_ok_drop_tag:
  assumes "table_ok P m"
  shows "table_ok (\<lambda>t e. P t e \<and> (t = t0 \<longrightarrow> fst e \<noteq> sid)) (drop_tag sid t0 m)"
proof (cases "m t0")
  case None
  then show ?thesis using assms by (auto simp: table_ok_def drop_tag_def)
next
  case (Some es)
  let ?es = "filter (\<lambda>(i, _). i \<noteq> sid) es"
  have "length es \<le> TAG_ENDS" "distinct (map fst es)" "\<forall>e\<in>set es. P t0 e"
    using assms Some by (auto simp: table_ok_def)
  then have "length ?es \<le> TAG_ENDS" "distinct (map fst ?es)" "\<forall>e\<in>set ?es. P t0 e \<and> fst e \<noteq> sid"
    using le_trans [OF length_filter_le] by (auto simp: distinct_map_filter)
  then show ?thesis using assms Some by (auto simp: table_ok_def drop_tag_def Let_def)
qed

lemma table_ok_drop_tags:
  "table_ok P m \<Longrightarrow>
   table_ok (\<lambda>t e. P t e \<and> (t \<in> set cur \<longrightarrow> fst e \<noteq> sid)) (fold (drop_tag sid) cur m)"
proof (induction cur arbitrary: m P)
  case Nil
  then show ?case by simp
next
  case (Cons t0 cur)
  show ?case
    using Cons.IH [OF table_ok_drop_tag [OF Cons.prems, of t0 sid]]
    by (auto elim!: table_ok_mono)
qed

lemma table_ok_add_tag:
  assumes "table_ok P m" "P t0 (sid, tx)"
  shows "table_ok P (fst (add_tag sid tx t0 (m, q)))"
proof (cases "list_ex (\<lambda>(i, _). i = sid) (entries_of m t0)")
  case True
  then obtain es where "m t0 = Some es" by (cases "m t0") auto
  then show ?thesis using assms(1) True by (simp add: add_tag_def fun_upd_idem)
next
  case False
  let ?es = "entries_of m t0"
  let ?new = "fst (evict (?es @ [(sid, tx)]) q)"
  have es: "distinct (map fst ?es)" "\<forall>e\<in>set ?es. P t0 e"
    using table_ok_entries [OF assms(1), of t0] by blast+
  then have "distinct (map fst (?es @ [(sid, tx)]))"
    using False by (auto simp: list_ex_iff)
  then have "distinct (map fst ?new)" by (rule evict_entries(3))
  moreover have "\<forall>e\<in>set ?new. P t0 e"
    using evict_entries(1) [of "?es @ [(sid, tx)]" q] es(2) assms(2) by auto
  moreover have len: "length ?new = min (length ?es + 1) TAG_ENDS"
    by (simp add: evict_entries(2))
  moreover have "?new \<noteq> []" using len by (auto simp: TAG_ENDS_def)
  ultimately have "table_ok P (m(t0 \<mapsto> ?new))" using assms(1) by (simp add: table_ok_def)
  then show ?thesis using False by (simp add: add_tag_def Let_def split_beta)
qed

lemma add_tag_queues:
  "dom (snd (add_tag sid tx t mq)) = dom (snd mq)"
  "queues_ok (snd mq) \<Longrightarrow> queues_ok (snd (add_tag sid tx t mq))"
  by (auto simp: add_tag_def Let_def split_beta evict_queues)

lemma add_tags:
  "table_ok P (fst mq) \<Longrightarrow> \<forall>t\<in>set nxt. P t (sid, tx) \<Longrightarrow>
   table_ok P (fst (fold (add_tag sid tx) nxt mq))"
proof (induction nxt arbitrary: mq)
  case (Cons t nxt)
  then show ?case using table_ok_add_tag [of P "fst mq" t sid tx "snd mq"] by simp
qed simp

lemma add_tags_queues:
  "dom (snd (fold (add_tag sid tx) nxt mq)) = dom (snd mq)"
  "queues_ok (snd mq) \<Longrightarrow> queues_ok (snd (fold (add_tag sid tx) nxt mq))"
  by (induction nxt arbitrary: mq) (simp_all add: add_tag_queues)

lemma register_tags_table:
  assumes "table_ok P (tags r)"
    and "\<And>t e. P t e \<Longrightarrow> (t \<in> set cur \<longrightarrow> fst e \<noteq> sid) \<Longrightarrow> Q t e"
    and "\<And>t. t \<in> set nxt \<Longrightarrow> Q t (sid, tx)"
  shows "table_ok Q (tags (fst (register_tags sid tx cur nxt r q)))"
proof -
  have "table_ok Q (fold (drop_tag sid) cur (tags r))"
    using table_ok_drop_tags [OF assms(1)] assms(2) by (rule table_ok_mono) auto
  then show ?thesis
    using assms(3) add_tags [of Q "(fold (drop_tag sid) cur (tags r), q)" nxt sid tx]
    by (simp add: register_tags_def Let_def split_beta)
qed

lemma register_tags_rest [simp]:
  "sessions (fst (register_tags sid tx cur nxt r q)) = sessions r"
  "live (fst (register_tags sid tx cur nxt r q)) = live r"
  "by_source (fst (register_tags sid tx cur nxt r q)) = by_source r"
  "dom (snd (register_tags sid tx cur nxt r q)) = dom q"
  "queues_ok q \<Longrightarrow> queues_ok (snd (register_tags sid tx cur nxt r q))"
  by (simp_all add: register_tags_def Let_def split_beta add_tags_queues)

section \<open>Registrations belong to live sessions\<close>

text \<open>
  \<open>M\<close> gives the mode of every live session by its id. Every tag entry is a live tag session's,
  for a tag it registered, with that session's queue; every identity route leads to a live
  session of that identity; queues are those of the live sessions and at most 64 long.
\<close>

definition tag_entry_ok :: "(nat \<rightharpoonup> mode) \<Rightarrow> tag \<Rightarrow> nat \<times> chan \<Rightarrow> bool" where
  "tag_entry_ok M t e \<longleftrightarrow> snd e = fst e \<and> (\<exists>ts. M (fst e) = Some (Tags ts) \<and> t \<in> set ts)"

definition routes_ok :: "(nat \<rightharpoonup> mode) \<Rightarrow> registry \<Rightarrow> chans \<Rightarrow> bool" where
  "routes_ok M r q \<longleftrightarrow>
     table_ok (tag_entry_ok M) (tags r) \<and>
     (\<forall>n c. sessions r n = Some c \<longrightarrow> M c = Some (Identity n)) \<and>
     dom q = dom M \<and> queues_ok q"

lemma routes_ok_try_send: "routes_ok M r q \<Longrightarrow> routes_ok M r (fst (try_send c f q))"
  by (simp add: routes_ok_def)

lemma routes_ok_send_all: "routes_ok M r q \<Longrightarrow> routes_ok M r (fst (send_all f cs q))"
  by (simp add: routes_ok_def)

lemma routes_ok_register:
  assumes "routes_ok M r q" "M sid = Some (Tags cur)"
  shows "routes_ok (M(sid \<mapsto> Tags nxt)) (fst (register_tags sid sid cur nxt r q))
    (snd (register_tags sid sid cur nxt r q))"
proof -
  have "table_ok (tag_entry_ok (M(sid \<mapsto> Tags nxt))) (tags (fst (register_tags sid sid cur nxt r q)))"
    by (rule register_tags_table [where P = "tag_entry_ok M"])
      (use assms in \<open>auto simp: routes_ok_def tag_entry_ok_def\<close>)
  then show ?thesis using assms by (auto simp: routes_ok_def)
qed

lemma routes_ok_first:
  assumes "routes_ok M r q" "M sid = None"
    and "first_contact cr config ch sid first r (q(sid \<mapsto> [])) = Inr (m, r', q')"
  shows "routes_ok (M(sid \<mapsto> m)) r' q'"
proof -
  have base: "routes_ok (M(sid \<mapsto> m)) r (q(sid \<mapsto> []))"
    using assms(1,2) by (auto simp: routes_ok_def tag_entry_ok_def elim!: table_ok_mono)
  consider (auth) n sig where "decode_binary first = Some (Auth n sig)"
    | (reg) ts where "decode_binary first = Some (Register ts)" "ts \<noteq> []"
    using assms(3) by (auto simp: first_contact_def split: option.splits frame.splits if_splits)
  then show ?thesis
  proof cases
    case auth
    then have m: "m = Identity n" "r' = r\<lparr>sessions := (sessions r)(n \<mapsto> sid)\<rparr>" and
      q': "q' = (case sessions r n of None \<Rightarrow> q(sid \<mapsto> [])
        | Some p \<Rightarrow> fst (try_send p (Close CLOSE_REASON_SUPERSEDED) (q(sid \<mapsto> []))))"
      using assms(3) by (auto simp: first_contact_def Let_def split: if_splits)
    have "routes_ok (M(sid \<mapsto> m)) r' (q(sid \<mapsto> []))"
      using base m by (simp add: routes_ok_def)
    then show ?thesis
      unfolding q' by (cases "sessions r n") (simp_all add: routes_ok_try_send)
  next
    case reg
    then have m: "m = Tags ts" "r' = fst (register_tags sid sid [] ts r (q(sid \<mapsto> [])))"
      "q' = snd (register_tags sid sid [] ts r (q(sid \<mapsto> [])))"
      using assms(3) by (auto simp: first_contact_def split: prod.splits)
    have "routes_ok (M(sid \<mapsto> Tags [])) r (q(sid \<mapsto> []))"
      using assms(1,2) by (auto simp: routes_ok_def tag_entry_ok_def elim!: table_ok_mono)
    from routes_ok_register [OF this, of sid "[]" ts] show ?thesis by (simp add: m)
  qed
qed

lemma routes_ok_identity:
  assumes "routes_ok M r q" "M c = Some (Identity n)" "sessions r n' = Some c"
  shows "n' = n"
  using assms unfolding routes_ok_def by (metis mode.inject(1) option.inject)

lemma routes_ok_cleanup:
  assumes "routes_ok M r q" "M (session_id s) = Some (mode s)"
  shows "routes_ok (M(session_id s := None)) (fst (cleanup s r q)) (snd (cleanup s r q))"
proof (cases "mode s")
  case (Identity n)
  have tab: "table_ok (tag_entry_ok (M(session_id s := None))) (tags r)"
    using assms Identity by (auto simp: routes_ok_def tag_entry_ok_def elim!: table_ok_mono)
  have sess: "sessions (fst (cleanup s r q)) =
    (if sessions r n = Some (session_id s) then (sessions r)(n := None) else sessions r)"
    by (simp add: cleanup_def Let_def Identity)
  have rest: "tags (fst (cleanup s r q)) = tags r" "snd (cleanup s r q) = q(session_id s := None)"
    using Identity by (simp_all add: cleanup_def Let_def)
  have "(M(session_id s := None)) c = Some (Identity n')"
    if "sessions (fst (cleanup s r q)) n' = Some c" for n' c
  proof -
    have "sessions r n' = Some c" "n' = n \<longrightarrow> c \<noteq> session_id s"
      using that by (auto simp: sess split: if_splits)
    moreover have "c = session_id s \<longrightarrow> n' = n"
      using routes_ok_identity [OF assms(1)] assms(2) Identity calculation(1) by simp
    ultimately show ?thesis using assms(1) by (auto simp: routes_ok_def)
  qed
  then show ?thesis using assms(1) unfolding routes_ok_def rest by (simp add: tab)
next
  case (Tags cur)
  have "table_ok (tag_entry_ok (M(session_id s := None)))
    (tags (fst (register_tags (session_id s) (session_id s) cur [] r q)))"
    by (rule register_tags_table [where P = "tag_entry_ok M"])
      (use assms Tags in \<open>auto simp: routes_ok_def tag_entry_ok_def\<close>)
  then show ?thesis
    using assms Tags by (auto simp: routes_ok_def cleanup_def Let_def split_beta)
qed

text \<open>Every branch of the loop keeps the routes in order and leaves the counts alone.\<close>

definition branch_ok :: "(session \<Rightarrow> registry \<Rightarrow> chans \<Rightarrow> branch) \<Rightarrow> bool" where
  "branch_ok f \<longleftrightarrow>
     (\<forall>M s r q s' r' q' out ex.
        routes_ok M r q \<and> M (session_id s) = Some (mode s) \<and> f s r q = (s', r', q', out, ex) \<longrightarrow>
        session_id s' = session_id s \<and> routes_ok (M(session_id s \<mapsto> mode s')) r' q' \<and>
        live r' = live r \<and> by_source r' = by_source r)"

lemma branch_okI:
  assumes "\<And>M s r q s' r' q' out ex. routes_ok M r q \<Longrightarrow> M (session_id s) = Some (mode s) \<Longrightarrow>
      f s r q = (s', r', q', out, ex) \<Longrightarrow>
      session_id s' = session_id s \<and> routes_ok (M(session_id s \<mapsto> mode s')) r' q' \<and>
      live r' = live r \<and> by_source r' = by_source r"
  shows "branch_ok f"
  using assms unfolding branch_ok_def by blast

lemma branch_ok_on_send: "branch_ok (on_send t d b)"
proof (rule branch_okI)
  fix M s r q s' r' q' out ex
  assume *: "routes_ok M r q" "M (session_id s) = Some (mode s)"
    "on_send t d b s r q = (s', r', q', out, ex)"
  then have "session_id s' = session_id s \<and> mode s' = mode s \<and> r' = r \<and>
    (q' = q \<or> (\<exists>c f. q' = fst (try_send c f q)))"
    by (auto simp: on_send_def Let_def split_beta split: mode.splits option.splits if_splits)
  then show "session_id s' = session_id s \<and> routes_ok (M(session_id s \<mapsto> mode s')) r' q' \<and>
      live r' = live r \<and> by_source r' = by_source r"
    using * routes_ok_try_send by (auto simp: fun_upd_idem)
qed

lemma branch_ok_on_send_tag: "branch_ok (on_send_tag t g b)"
proof (rule branch_okI)
  fix M s r q s' r' q' out ex
  assume *: "routes_ok M r q" "M (session_id s) = Some (mode s)"
    "on_send_tag t g b s r q = (s', r', q', out, ex)"
  then have "session_id s' = session_id s \<and> mode s' = mode s \<and> r' = r \<and>
    (q' = q \<or> (\<exists>f cs. q' = fst (send_all f cs q)))"
    by (auto simp: on_send_tag_def Let_def split_beta split: mode.splits if_splits)
  then show "session_id s' = session_id s \<and> routes_ok (M(session_id s \<mapsto> mode s')) r' q' \<and>
      live r' = live r \<and> by_source r' = by_source r"
    using * routes_ok_send_all by (auto simp: fun_upd_idem)
qed

lemma branch_ok_on_register: "branch_ok (on_register nxt)"
proof (rule branch_okI)
  fix M s r q s' r' q' out ex
  assume *: "routes_ok M r q" "M (session_id s) = Some (mode s)"
    "on_register nxt s r q = (s', r', q', out, ex)"
  show "session_id s' = session_id s \<and> routes_ok (M(session_id s \<mapsto> mode s')) r' q' \<and>
      live r' = live r \<and> by_source r' = by_source r"
  proof (cases "mode s")
    case (Identity n)
    then show ?thesis using * by (auto simp: on_register_def fun_upd_idem)
  next
    case (Tags cur)
    then have "s' = s\<lparr>mode := Tags nxt\<rparr>"
      "r' = fst (register_tags (session_id s) (session_id s) cur nxt r q)"
      "q' = snd (register_tags (session_id s) (session_id s) cur nxt r q)"
      using *(3) by (auto simp: on_register_def split: prod.splits)
    then show ?thesis using routes_ok_register [OF *(1), of "session_id s" cur nxt] * Tags by simp
  qed
qed

lemma branch_okD:
  "branch_ok f \<Longrightarrow> routes_ok M r q \<Longrightarrow> M (session_id s) = Some (mode s) \<Longrightarrow>
   f s r q = (s', r', q', out, ex) \<Longrightarrow>
   session_id s' = session_id s \<and> routes_ok (M(session_id s \<mapsto> mode s')) r' q' \<and>
   live r' = live r \<and> by_source r' = by_source r"
  unfolding branch_ok_def by blast

lemma branch_ok_same:
  assumes "\<And>s r q. \<exists>out ex u. f s r q = (u s, r, q, out, ex) \<and> session_id (u s) = session_id s \<and> mode (u s) = mode s"
  shows "branch_ok f"
proof (rule branch_okI)
  fix M s r q s' r' q' out ex
  assume "routes_ok M r q" "M (session_id s) = Some (mode s)" "f s r q = (s', r', q', out, ex)"
  then show "session_id s' = session_id s \<and> routes_ok (M(session_id s \<mapsto> mode s')) r' q' \<and>
      live r' = live r \<and> by_source r' = by_source r"
    using assms [of s r q] by (auto simp: fun_upd_idem)
qed

lemma branch_ok_on_frame: "branch_ok (on_frame t f)"
proof (cases f)
  case (Send d b)
  then have "on_frame t f = on_send t d b" by (simp add: fun_eq_iff)
  then show ?thesis by (simp add: branch_ok_on_send)
next
  case (SendTag g b)
  then have "on_frame t f = on_send_tag t g b" by (simp add: fun_eq_iff)
  then show ?thesis by (simp add: branch_ok_on_send_tag)
next
  case (Register nxt)
  then have "on_frame t f = on_register nxt" by (simp add: fun_eq_iff)
  then show ?thesis by (simp add: branch_ok_on_register)
qed (rule branch_ok_same; auto)+

lemma branch_ok_on_message: "branch_ok (on_message t m)"
proof (cases "\<exists>b f. m = Some (Binary b) \<and> decode_binary (Binary b) = Some f")
  case True
  then obtain b f where m: "m = Some (Binary b)" "decode_binary (Binary b) = Some f" by blast
  show ?thesis
  proof (rule branch_okI)
    fix M s r q s' r' q' out ex
    assume *: "routes_ok M r q" "M (session_id s) = Some (mode s)"
      "on_message t m s r q = (s', r', q', out, ex)"
    then have "on_frame t f (s\<lparr>frames_in := frames_in s + 1\<rparr>) r q = (s', r', q', out, ex)"
      using m by (simp add: on_message_def)
    from branch_okD [OF branch_ok_on_frame *(1) _ this] *(2)
    show "session_id s' = session_id s \<and> routes_ok (M(session_id s \<mapsto> mode s')) r' q' \<and>
        live r' = live r \<and> by_source r' = by_source r" by simp
  qed
next
  case False
  then show ?thesis
    by (intro branch_ok_same) (auto simp: on_message_def split: option.splits ws_message.splits)
qed

lemma branch_ok_on_outbound: "branch_ok on_outbound"
proof (rule branch_okI)
  fix M s r q s' r' q' out ex
  assume *: "routes_ok M r q" "M (session_id s) = Some (mode s)"
    "on_outbound s r q = (s', r', q', out, ex)"
  then have "session_id s' = session_id s \<and> mode s' = mode s \<and> r' = r"
    by (auto simp: on_outbound_def split: option.splits list.splits)
  moreover have "dom q' = dom q \<and> queues_ok q'"
  proof (cases "\<exists>f fs. q (session_id s) = Some (f # fs)")
    case True
    then obtain f fs where f: "q (session_id s) = Some (f # fs)" by blast
    moreover have "q' = q(session_id s \<mapsto> fs)" using *(3) f by (simp add: on_outbound_def)
    moreover have "Suc (length fs) \<le> MAX_QUEUED_FRAMES"
      using *(1) f unfolding routes_ok_def queues_ok_def by (metis length_Cons)
    ultimately show ?thesis using *(1) by (auto simp: routes_ok_def queues_ok_def)
  next
    case False
    then have "q' = q" using *(3) by (auto simp: on_outbound_def split: option.splits list.splits)
    then show ?thesis using *(1) by (simp add: routes_ok_def)
  qed
  ultimately show "session_id s' = session_id s \<and> routes_ok (M(session_id s \<mapsto> mode s')) r' q' \<and>
      live r' = live r \<and> by_source r' = by_source r"
    using * by (simp add: routes_ok_def fun_upd_idem)
qed

lemma branch_ok_on_tick: "branch_ok (on_tick t)"
  by (rule branch_ok_same) (auto simp: on_tick_def)

lemma branch_ok_on_stop: "branch_ok on_stop"
  by (rule branch_ok_same) (auto simp: on_stop_def)

lemmas branches_ok = branch_ok_on_message branch_ok_on_outbound branch_ok_on_tick branch_ok_on_stop

end
