(* ===== verification/Relay_System.thy ===== *)
theory Relay_System
  imports Relay
begin

text \<open>
  The relay as one machine: the invariant that ties the registry to the live connections, kept
  by every event, and the properties of the relay that rest on it. The definitions are those of
  \<open>Relay\<close>.
\<close>

section \<open>Connections\<close>

definition serving :: "(nat \<rightharpoonup> conn) \<Rightarrow> nat \<Rightarrow> session \<Rightarrow> bool" where
  "serving cs cid s \<longleftrightarrow> (\<exists>k. cs cid = Some k \<and> phase k = Serving s)"

text \<open>\<open>M\<close> is the mode of each live session; session ids are drawn once.\<close>

definition modes_ok :: "(nat \<rightharpoonup> mode) \<Rightarrow> nat \<Rightarrow> (nat \<rightharpoonup> conn) \<Rightarrow> bool" where
  "modes_ok M nxt cs \<longleftrightarrow>
     (\<forall>sid m. M sid = Some m \<longleftrightarrow> (\<exists>cid s. serving cs cid s \<and> session_id s = sid \<and> mode s = m)) \<and>
     (\<forall>cid cid' s s'. serving cs cid s \<and> serving cs cid' s' \<and> session_id s = session_id s' \<longrightarrow> cid = cid') \<and>
     (\<forall>sid\<in>dom M. sid < nxt)"

lemma serving_upd [simp]:
  "serving (cs(cid \<mapsto> k)) c s \<longleftrightarrow> (if c = cid then phase k = Serving s else serving cs c s)"
  "serving (cs(cid := None)) c s \<longleftrightarrow> c \<noteq> cid \<and> serving cs c s"
  by (auto simp: serving_def)

lemma serving_unique: "serving cs cid s \<Longrightarrow> serving cs cid s' \<Longrightarrow> s = s'"
  by (auto simp: serving_def)

lemma modes_ok_serving: "modes_ok M nxt cs \<Longrightarrow> serving cs cid s \<Longrightarrow> M (session_id s) = Some (mode s)"
  unfolding modes_ok_def by blast

lemma modes_ok_bound: "modes_ok M nxt cs \<Longrightarrow> serving cs cid s \<Longrightarrow> session_id s < nxt"
  using modes_ok_serving unfolding modes_ok_def by blast

lemma modes_ok_distinct:
  "modes_ok M nxt cs \<Longrightarrow> serving cs cid s \<Longrightarrow> serving cs cid' s' \<Longrightarrow> session_id s = session_id s' \<Longrightarrow> cid = cid'"
  unfolding modes_ok_def by blast

lemma modes_okI:
  assumes "\<And>cid s. serving cs cid s \<Longrightarrow> M (session_id s) = Some (mode s)"
    and "\<And>sid m. M sid = Some m \<Longrightarrow> \<exists>cid s. serving cs cid s \<and> session_id s = sid \<and> mode s = m"
    and "\<And>cid cid' s s'. serving cs cid s \<Longrightarrow> serving cs cid' s' \<Longrightarrow> session_id s = session_id s' \<Longrightarrow> cid = cid'"
    and "\<And>sid. sid \<in> dom M \<Longrightarrow> sid < nxt"
  shows "modes_ok M nxt cs"
  using assms unfolding modes_ok_def by blast

lemma modes_ok_find:
  "modes_ok M nxt cs \<Longrightarrow> M sid = Some m \<Longrightarrow> \<exists>cid s. serving cs cid s \<and> session_id s = sid \<and> mode s = m"
  unfolding modes_ok_def by blast

lemma modes_ok_update:
  assumes "modes_ok M nxt cs" "serving cs cid s" "phase k = Serving s'" "session_id s' = session_id s"
  shows "modes_ok (M(session_id s \<mapsto> mode s')) nxt (cs(cid \<mapsto> k))"
proof (rule modes_okI)
  fix c x
  assume "serving (cs(cid \<mapsto> k)) c x"
  then show "(M(session_id s \<mapsto> mode s')) (session_id x) = Some (mode x)"
  proof (cases "c = cid")
    case True
    then show ?thesis using \<open>serving (cs(cid \<mapsto> k)) c x\<close> assms by simp
  next
    case False
    then have "serving cs c x" using \<open>serving (cs(cid \<mapsto> k)) c x\<close> by simp
    then show ?thesis
      using False modes_ok_distinct [OF assms(1,2)] modes_ok_serving [OF assms(1)] by (metis fun_upd_other)
  qed
next
  fix sid m
  assume "(M(session_id s \<mapsto> mode s')) sid = Some m"
  then show "\<exists>c x. serving (cs(cid \<mapsto> k)) c x \<and> session_id x = sid \<and> mode x = m"
  proof (cases "sid = session_id s")
    case True
    then show ?thesis
      using assms \<open>(M(session_id s \<mapsto> mode s')) sid = Some m\<close> by (intro exI [of _ cid] exI [of _ s']) simp
  next
    case False
    then obtain c x where "serving cs c x" "session_id x = sid" "mode x = m"
      using modes_ok_find [OF assms(1), of sid m] \<open>(M(session_id s \<mapsto> mode s')) sid = Some m\<close> by auto
    moreover have "c \<noteq> cid" using False calculation serving_unique [OF assms(2)] by blast
    ultimately show ?thesis by auto
  qed
next
  fix c c' x x'
  assume "serving (cs(cid \<mapsto> k)) c x" "serving (cs(cid \<mapsto> k)) c' x'" "session_id x = session_id x'"
  then have "serving cs c (if c = cid then s else x)" "serving cs c' (if c' = cid then s else x')"
    "session_id (if c = cid then s else x) = session_id (if c' = cid then s else x')"
    using assms by (auto split: if_splits)
  then show "c = c'" by (rule modes_ok_distinct [OF assms(1)])
next
  fix sid
  assume "sid \<in> dom (M(session_id s \<mapsto> mode s'))"
  then show "sid < nxt" using assms modes_ok_bound [OF assms(1,2)] by (auto simp: modes_ok_def)
qed

lemma modes_ok_add:
  assumes "modes_ok M nxt cs" "\<nexists>s. serving cs cid s" "phase k = Serving s" "session_id s = nxt"
  shows "modes_ok (M(nxt \<mapsto> mode s)) (nxt + 1) (cs(cid \<mapsto> k))"
proof (rule modes_okI)
  fix c x
  assume "serving (cs(cid \<mapsto> k)) c x"
  then show "(M(nxt \<mapsto> mode s)) (session_id x) = Some (mode x)"
    using assms modes_ok_serving [OF assms(1), of c x] modes_ok_bound [OF assms(1), of c x]
    by (cases "c = cid") auto
next
  fix sid m
  assume M: "(M(nxt \<mapsto> mode s)) sid = Some m"
  show "\<exists>c x. serving (cs(cid \<mapsto> k)) c x \<and> session_id x = sid \<and> mode x = m"
  proof (cases "sid = nxt")
    case True
    then show ?thesis using M assms by (intro exI [of _ cid] exI [of _ s]) simp
  next
    case False
    then obtain c x where "serving cs c x" "session_id x = sid" "mode x = m"
      using modes_ok_find [OF assms(1), of sid m] M by auto
    moreover have "c \<noteq> cid" using assms(2) calculation(1) by blast
    ultimately show ?thesis by auto
  qed
next
  fix c c' x x'
  assume *: "serving (cs(cid \<mapsto> k)) c x" "serving (cs(cid \<mapsto> k)) c' x'" "session_id x = session_id x'"
  have new: "session_id y = nxt \<longleftrightarrow> d = cid" if "serving (cs(cid \<mapsto> k)) d y" for d y
    using that assms(3,4) modes_ok_bound [OF assms(1), of d y] by (auto split: if_splits)
  show "c = c'"
  proof (cases "c = cid")
    case True
    then show ?thesis using new [OF *(1)] new [OF *(2)] *(3) by simp
  next
    case False
    then have "c' \<noteq> cid" using new [OF *(1)] new [OF *(2)] *(3) by simp
    then show ?thesis using False * modes_ok_distinct [OF assms(1)] by simp
  qed
next
  fix sid
  assume "sid \<in> dom (M(nxt \<mapsto> mode s))"
  then have "sid = nxt \<or> sid \<in> dom M" by auto
  then show "sid < nxt + 1" using assms(1) by (auto simp: modes_ok_def dest: bspec [of "dom M"])
qed

lemma modes_ok_remove:
  assumes "modes_ok M nxt cs" "serving cs cid s"
  shows "modes_ok (M(session_id s := None)) nxt (cs(cid := None))"
proof (rule modes_okI)
  fix c x
  assume "serving (cs(cid := None)) c x"
  then show "(M(session_id s := None)) (session_id x) = Some (mode x)"
    using modes_ok_distinct [OF assms(1,2), of c x] modes_ok_serving [OF assms(1), of c x] by auto
next
  fix sid m
  assume "(M(session_id s := None)) sid = Some m"
  then have M: "M sid = Some m" "sid \<noteq> session_id s" by (auto split: if_splits)
  then obtain c x where "serving cs c x" "session_id x = sid" "mode x = m"
    using modes_ok_find [OF assms(1), of sid m] by auto
  moreover have "c \<noteq> cid" using M(2) calculation serving_unique [OF assms(2)] by blast
  ultimately show "\<exists>c x. serving (cs(cid := None)) c x \<and> session_id x = sid \<and> mode x = m" by auto
next
  fix c c' x x'
  assume "serving (cs(cid := None)) c x" "serving (cs(cid := None)) c' x'" "session_id x = session_id x'"
  then show "c = c'" using modes_ok_distinct [OF assms(1), of c x c' x'] by simp
next
  fix sid
  assume "sid \<in> dom (M(session_id s := None))"
  then show "sid < nxt" using assms(1) by (auto simp: modes_ok_def)
qed

lemma modes_ok_same_serving:
  assumes "modes_ok M nxt cs" "\<And>c x. serving cs' c x \<longleftrightarrow> serving cs c x" "nxt \<le> nxt'"
  shows "modes_ok M nxt' cs'"
  using assms unfolding modes_ok_def by (auto intro: less_le_trans)

section \<open>Counts\<close>

definition from_source :: "(nat \<rightharpoonup> conn) \<Rightarrow> ip_addr \<Rightarrow> nat set" where
  "from_source cs a = {c. \<exists>k. cs c = Some k \<and> conn_source k = a}"

text \<open>The counters are exactly the connections, in total and per source address, and both caps
  hold.\<close>

definition counts_ok :: "relay_config \<Rightarrow> (nat \<rightharpoonup> conn) \<Rightarrow> registry \<Rightarrow> bool" where
  "counts_ok config cs r \<longleftrightarrow>
     finite (dom cs) \<and> live r = card (dom cs) \<and> live r \<le> max_sessions config \<and>
     (\<forall>a. by_source r a =
        (if card (from_source cs a) = 0 then None else Some (card (from_source cs a)))) \<and>
     (\<forall>a. 0 < max_sessions_per_source config \<longrightarrow>
        card (from_source cs a) \<le> max_sessions_per_source config)"

lemma finite_from_source: "finite (dom cs) \<Longrightarrow> finite (from_source cs a)"
  by (rule finite_subset [of _ "dom cs"]) (auto simp: from_source_def)

lemma from_source_new:
  "cs cid = None \<Longrightarrow> from_source (cs(cid \<mapsto> k)) a =
     (if a = conn_source k then insert cid (from_source cs a) else from_source cs a)"
  by (auto simp: from_source_def)

lemma from_source_remove:
  "cs cid = Some k \<Longrightarrow> from_source (cs(cid := None)) a =
     (if a = conn_source k then from_source cs a - {cid} else from_source cs a)"
  by (auto simp: from_source_def)

lemma from_source_phase:
  "cs cid = Some k \<Longrightarrow> conn_source k' = conn_source k \<Longrightarrow>
     from_source (cs(cid \<mapsto> k')) a = from_source cs a"
  by (auto simp: from_source_def)

lemma counts_ok_admit:
  assumes "counts_ok config cs r" "cs cid = None" "admit config a r = Some r'" "conn_source k = a"
  shows "counts_ok config (cs(cid \<mapsto> k)) r'"
proof -
  have fin: "finite (dom cs)" using assms(1) by (simp add: counts_ok_def)
  have new: "card (from_source (cs(cid \<mapsto> k)) b) =
    (if b = a then Suc (card (from_source cs b)) else card (from_source cs b))" for b
  proof -
    have "cid \<notin> from_source cs b" using assms(2) by (simp add: from_source_def)
    then show ?thesis
      using finite_from_source [OF fin] assms(2,4) by (auto simp: from_source_new)
  qed
  have old: "(case by_source r a of Some n \<Rightarrow> n | None \<Rightarrow> 0) = card (from_source cs a)"
    using assms(1) by (simp add: counts_ok_def)
  have adm: "live r < max_sessions config"
    "0 < max_sessions_per_source config \<longrightarrow> card (from_source cs a) < max_sessions_per_source config"
    "r' = r\<lparr>by_source := (by_source r)(a \<mapsto> card (from_source cs a) + 1), live := live r + 1\<rparr>"
    using assms(3) unfolding admit_def old Let_def by (auto split: if_splits)
  have "card (dom (cs(cid \<mapsto> k))) = Suc (card (dom cs))"
    using fin assms(2) by (simp add: domIff)
  then show ?thesis using assms(1) fin adm(1,2) unfolding counts_ok_def new adm(3) by (simp add: Suc_le_eq)
qed

lemma counts_ok_release:
  assumes "counts_ok config cs r" "cs cid = Some k"
  shows "counts_ok config (cs(cid := None)) (release (conn_source k) r)"
proof -
  have fin: "finite (dom cs)" using assms(1) by (simp add: counts_ok_def)
  have in_src: "cid \<in> from_source cs (conn_source k)" using assms(2) by (simp add: from_source_def)
  have new: "card (from_source (cs(cid := None)) b) =
    (if b = conn_source k then card (from_source cs b) - 1 else card (from_source cs b))" for b
    using finite_from_source [OF fin] assms(2) in_src by (simp add: from_source_remove)
  have pos: "card (from_source cs (conn_source k)) \<noteq> 0"
    using in_src finite_from_source [OF fin] by auto
  have "card (dom (cs(cid := None))) = card (dom cs) - 1"
    using fin assms(2) by (simp add: domIff card_Diff_singleton)
  then show ?thesis
    using assms(1) fin pos unfolding counts_ok_def new
    by (auto simp: release_def Let_def intro: le_trans [OF diff_le_self] split: if_splits option.splits)
qed

section \<open>The invariant\<close>

definition relay_inv :: "relay_config \<Rightarrow> relay \<Rightarrow> bool" where
  "relay_inv config st \<longleftrightarrow>
     counts_ok config (conns st) (reg st) \<and>
     (\<exists>M. modes_ok M (next_session_id st) (conns st) \<and> routes_ok M (reg st) (queues st))"

lemma counts_ok_registry:
  "counts_ok config cs r \<Longrightarrow> live r' = live r \<Longrightarrow> by_source r' = by_source r \<Longrightarrow> counts_ok config cs r'"
  by (simp add: counts_ok_def)

lemma counts_ok_phase:
  "counts_ok config cs r \<Longrightarrow> cs cid = Some k \<Longrightarrow> conn_source k' = conn_source k \<Longrightarrow>
   counts_ok config (cs(cid \<mapsto> k')) r"
  by (auto simp: counts_ok_def from_source_phase insert_absorb domI)

lemma cleanup_counts [simp]:
  "live (fst (cleanup s r q)) = live r" "by_source (fst (cleanup s r q)) = by_source r"
  by (auto simp: cleanup_def Let_def split_beta split: mode.splits)

lemma release_routes [simp]:
  "sessions (release a r) = sessions r" "tags (release a r) = tags r"
  by (auto simp: release_def Let_def split: option.splits)

lemma admit_routes:
  "admit config a r = Some r' \<Longrightarrow> sessions r' = sessions r \<and> tags r' = tags r"
  by (auto simp: admit_def Let_def split: if_splits)

lemma routes_ok_registry:
  "routes_ok M r q \<Longrightarrow> sessions r' = sessions r \<Longrightarrow> tags r' = tags r \<Longrightarrow> routes_ok M r' q"
  by (simp add: routes_ok_def)

lemma relay_inv_end_conn:
  assumes "relay_inv config st"
  shows "relay_inv config (end_conn cid st)"
proof (cases "conns st cid")
  case None
  then show ?thesis using assms by (simp add: end_conn_def)
next
  case (Some k)
  obtain M where M: "modes_ok M (next_session_id st) (conns st)" "routes_ok M (reg st) (queues st)"
    and c: "counts_ok config (conns st) (reg st)"
    using assms by (auto simp: relay_inv_def)
  show ?thesis
  proof (cases "phase k")
    case (Handshake ch)
    then have "modes_ok M (next_session_id st) ((conns st)(cid := None))"
      using Some by (intro modes_ok_same_serving [OF M(1)]) (auto simp: serving_def)
    then show ?thesis
      using Some Handshake counts_ok_release [OF c Some] routes_ok_registry [OF M(2)]
      by (auto simp: end_conn_def relay_inv_def)
  next
    case (Serving s)
    let ?c = "cleanup s (reg st) (queues st)"
    have sv: "serving (conns st) cid s" using Some Serving by (simp add: serving_def)
    have "routes_ok (M(session_id s := None)) (fst ?c) (snd ?c)"
      by (rule routes_ok_cleanup [OF M(2) modes_ok_serving [OF M(1) sv]])
    then have "routes_ok (M(session_id s := None)) (release (conn_source k) (fst ?c)) (snd ?c)"
      by (rule routes_ok_registry) simp_all
    moreover have "counts_ok config ((conns st)(cid := None)) (release (conn_source k) (fst ?c))"
      by (rule counts_ok_release [OF counts_ok_registry [OF c] Some]) simp_all
    ultimately show ?thesis
      using Some Serving modes_ok_remove [OF M(1) sv]
      by (auto simp: end_conn_def relay_inv_def split_beta Let_def)
  qed
qed

lemma relay_inv_on_accept:
  assumes "relay_inv config st"
  shows "relay_inv config (fst (on_accept config cid a ch st))"
proof (cases "conns st cid = None \<and> admit config a (reg st) \<noteq> None")
  case False
  then show ?thesis using assms by (auto simp: on_accept_def)
next
  case True
  then obtain r where r: "admit config a (reg st) = Some r" by auto
  let ?k = "\<lparr>conn_source = a, phase = Handshake ch\<rparr>"
  obtain M where M: "modes_ok M (next_session_id st) (conns st)" "routes_ok M (reg st) (queues st)"
    and c: "counts_ok config (conns st) (reg st)"
    using assms by (auto simp: relay_inv_def)
  have "modes_ok M (next_session_id st) ((conns st)(cid \<mapsto> ?k))"
    using True by (intro modes_ok_same_serving [OF M(1)]) (auto simp: serving_def)
  moreover have "routes_ok M r (queues st)"
    using routes_ok_registry [OF M(2)] admit_routes [OF r] by simp
  moreover have "counts_ok config ((conns st)(cid \<mapsto> ?k)) r"
    using True by (intro counts_ok_admit [OF c _ r]) simp_all
  ultimately show ?thesis using True r by (auto simp: on_accept_def relay_inv_def)
qed

lemma first_contact_counts:
  "first_contact cr config ch sid first r q = Inr (m, r', q') \<Longrightarrow>
   live r' = live r \<and> by_source r' = by_source r"
  by (auto simp: first_contact_def Let_def split: option.splits frame.splits if_splits prod.splits)
    (metis fst_conv register_tags_rest(2), metis fst_conv register_tags_rest(3))

lemma relay_inv_on_first:
  assumes "relay_inv config st"
  shows "relay_inv config (fst (on_first cr config cid t token first st))"
proof (cases "\<exists>k ch. conns st cid = Some k \<and> phase k = Handshake ch")
  case False
  then show ?thesis using assms by (auto simp: on_first_def split: option.splits phase.splits)
next
  case True
  then obtain k ch where k: "conns st cid = Some k" "phase k = Handshake ch" by blast
  obtain M where M: "modes_ok M (next_session_id st) (conns st)" "routes_ok M (reg st) (queues st)"
    and c: "counts_ok config (conns st) (reg st)"
    using assms by (auto simp: relay_inv_def)
  let ?sid = "next_session_id st"
  show ?thesis
  proof (cases "first_contact cr config ch ?sid first (reg st) ((queues st)(?sid \<mapsto> []))")
    case (Inl e)
    have "modes_ok M (?sid + 1) (conns st)" by (rule modes_ok_same_serving [OF M(1)]) simp_all
    then have "relay_inv config (st\<lparr>next_session_id := ?sid + 1\<rparr>)"
      using M(2) c by (auto simp: relay_inv_def)
    then show ?thesis using relay_inv_end_conn k Inl by (simp add: on_first_def)
  next
    case (Inr x)
    obtain m r q where x: "x = (m, r, q)" by (cases x) auto
    let ?k = "k\<lparr>phase := Serving (session_new config ?sid m t)\<rparr>"
    have "M ?sid = None" using M(1) unfolding modes_ok_def by blast
    then have "routes_ok (M(?sid \<mapsto> m)) r q"
      using routes_ok_first [OF M(2)] Inr x by blast
    moreover have "modes_ok (M(?sid \<mapsto> m)) (?sid + 1) ((conns st)(cid \<mapsto> ?k))"
      using modes_ok_add [OF M(1), of cid ?k "session_new config ?sid m t"] k
      by (simp add: serving_def session_new_def)
    moreover have "counts_ok config ((conns st)(cid \<mapsto> ?k)) r"
      using first_contact_counts [of cr config ch ?sid first] Inr x
      by (intro counts_ok_phase [OF counts_ok_registry [OF c] k(1)]) auto
    ultimately show ?thesis using k Inr x by (auto simp: on_first_def Let_def relay_inv_def)
  qed
qed

lemma relay_inv_in_session:
  assumes "relay_inv config st" "branch_ok f"
  shows "relay_inv config (fst (in_session cid f st))"
proof (cases "\<exists>k s. conns st cid = Some k \<and> phase k = Serving s")
  case False
  then show ?thesis using assms by (auto simp: in_session_def split: option.splits phase.splits)
next
  case True
  then obtain k s where k: "conns st cid = Some k" "phase k = Serving s" by blast
  obtain M where M: "modes_ok M (next_session_id st) (conns st)" "routes_ok M (reg st) (queues st)"
    and c: "counts_ok config (conns st) (reg st)"
    using assms by (auto simp: relay_inv_def)
  obtain s' r q out ex where f: "f s (reg st) (queues st) = (s', r, q, out, ex)"
    by (metis prod_cases5)
  let ?k = "k\<lparr>phase := Serving s'\<rparr>"
  let ?st = "st\<lparr>reg := r, queues := q, conns := (conns st)(cid \<mapsto> ?k)\<rparr>"
  have sv: "serving (conns st) cid s" using k by (simp add: serving_def)
  have b: "session_id s' = session_id s" "routes_ok (M(session_id s \<mapsto> mode s')) r q"
    "live r = live (reg st)" "by_source r = by_source (reg st)"
    using branch_okD [OF assms(2) M(2) modes_ok_serving [OF M(1) sv] f] by simp_all
  have "modes_ok (M(session_id s \<mapsto> mode s')) (next_session_id st) ((conns st)(cid \<mapsto> ?k))"
    by (rule modes_ok_update [OF M(1) sv]) (simp_all add: b)
  moreover have "counts_ok config ((conns st)(cid \<mapsto> ?k)) r"
    by (rule counts_ok_phase [OF counts_ok_registry [OF c b(3,4)] k(1)]) simp
  ultimately have "relay_inv config ?st" using b(2) by (auto simp: relay_inv_def)
  then show ?thesis
    using relay_inv_end_conn k f by (simp add: in_session_def Let_def)
qed

interpretation relay: machine "\<lambda>e st. fst (relay_step cr config e st)" "relay_inv config" for cr config
proof
  show "relay_inv config (fst (relay_step cr config e st))" if "relay_inv config st" for e st
    using that branches_ok
    by (cases e) (simp_all add: relay_inv_on_accept relay_inv_on_first relay_inv_in_session
        relay_inv_end_conn)
qed

lemma relay_inv_start: "relay_inv config relay_start"
proof -
  have "counts_ok config Map.empty registry_default"
    by (simp add: counts_ok_def registry_default_def from_source_def)
  moreover have "modes_ok Map.empty 1 Map.empty" by (simp add: modes_ok_def serving_def)
  moreover have "routes_ok Map.empty registry_default Map.empty"
    by (simp add: routes_ok_def registry_default_def table_ok_def queues_ok_def)
  ultimately show ?thesis by (auto simp: relay_inv_def relay_start_def)
qed

text \<open>The state after a sequence of events.\<close>

definition relay_run :: "crypto \<Rightarrow> relay_config \<Rightarrow> event list \<Rightarrow> relay" where
  "relay_run cr config es = fold (\<lambda>e st. fst (relay_step cr config e st)) es relay_start"

lemma relay_inv_run: "relay_inv config (relay_run cr config es)"
  unfolding relay_run_def by (rule relay.run_inv [OF relay_inv_start])

section \<open>Who may be named as a source\<close>

text \<open>
  A node is authenticated in a history when some connection was accepted with a challenge and
  later sent, as its first message, an \<open>Auth\<close> frame of that node whose signature verifies for
  one of the relay's hosts and that challenge.
\<close>

definition authenticated :: "crypto \<Rightarrow> relay_config \<Rightarrow> event list \<Rightarrow> node_id \<Rightarrow> bool" where
  "authenticated cr config es n \<longleftrightarrow>
     (\<exists>cid a ch t token b sig host. Accept cid a ch \<in> set es \<and> First cid t token (Binary b) \<in> set es \<and>
        frame_decode b = Some (Auth n sig) \<and> host \<in> set (hosts config) \<and>
        verify_relay_auth cr n host ch sig)"

definition queued :: "chans \<Rightarrow> frame set" where
  "queued q = {f. \<exists>c fs. q c = Some fs \<and> f \<in> set fs}"

lemma queued_try_send: "queued (fst (try_send c f q)) \<subseteq> insert f (queued q)"
  by (auto simp: queued_def try_send_def split: option.splits if_splits)

lemma queued_send_all: "queued (fst (send_all f cs q)) \<subseteq> insert f (queued q)"
proof (induction cs arbitrary: q)
  case (Cons c cs)
  then show ?case
    using queued_try_send [of c f q] by (auto simp: Let_def split_beta)
qed auto

lemma queued_evict: "queued (snd (evict es q)) \<subseteq> insert (Close CLOSE_REASON_SUPERSEDED) (queued q)"
proof (induction es q rule: evict.induct)
  case (1 es q)
  note IH = "1.IH" [OF _ refl]
  show ?case
    using IH queued_try_send [of "snd (oldest es)" "Close CLOSE_REASON_SUPERSEDED" q]
    by (subst evict_unfold) (auto split: if_splits)
qed

lemma queued_add_tags:
  "queued (snd (fold (add_tag sid tx) nxt mq)) \<subseteq> insert (Close CLOSE_REASON_SUPERSEDED) (queued (snd mq))"
proof (induction nxt arbitrary: mq)
  case (Cons t nxt)
  have "queued (snd (add_tag sid tx t mq)) \<subseteq> insert (Close CLOSE_REASON_SUPERSEDED) (queued (snd mq))"
    using queued_evict by (auto simp: add_tag_def Let_def split_beta)
  with Cons show ?case by fastforce
qed auto

lemma queued_register_tags:
  "queued (snd (register_tags sid tx cur nxt r q)) \<subseteq> insert (Close CLOSE_REASON_SUPERSEDED) (queued q)"
  using queued_add_tags [of sid tx nxt "(fold (drop_tag sid) cur (tags r), q)"]
  by (simp add: register_tags_def Let_def split_beta)

lemma queued_upd: "queued (q(c := None)) \<subseteq> queued q" "queued (q(c \<mapsto> [])) \<subseteq> queued q"
  "q c = Some (f # fs) \<Longrightarrow> queued (q(c \<mapsto> fs)) \<subseteq> queued q"
  by (auto simp: queued_def split: if_splits) (metis list.set_intros(2))+

text \<open>\<open>A\<close> holds of every source a queued frame names and of every identity session.\<close>

definition sources_ok :: "(node_id \<Rightarrow> bool) \<Rightarrow> (nat \<rightharpoonup> conn) \<Rightarrow> chans \<Rightarrow> bool" where
  "sources_ok A cs q \<longleftrightarrow>
     (\<forall>n d. Recv n d \<in> queued q \<longrightarrow> A n) \<and>
     (\<forall>cid s n. serving cs cid s \<and> mode s = Identity n \<longrightarrow> A n)"

definition branch_src :: "(session \<Rightarrow> registry \<Rightarrow> chans \<Rightarrow> branch) \<Rightarrow> bool" where
  "branch_src f \<longleftrightarrow>
     (\<forall>s r q s' r' q' out ex. f s r q = (s', r', q', out, ex) \<longrightarrow>
        (\<forall>n. mode s' = Identity n \<longrightarrow> mode s = Identity n) \<and>
        (\<forall>n d. Recv n d \<in> queued q' \<longrightarrow> Recv n d \<in> queued q \<or> mode s = Identity n))"

lemma branch_src_same:
  assumes "\<And>s r q. \<exists>out ex u. f s r q = (u s, r, q, out, ex) \<and> mode (u s) = mode s"
  shows "branch_src f"
  unfolding branch_src_def
proof (intro allI impI)
  fix s r q s' r' q' out ex
  assume "f s r q = (s', r', q', out, ex)"
  then show "(\<forall>n. mode s' = Identity n \<longrightarrow> mode s = Identity n) \<and>
    (\<forall>n d. Recv n d \<in> queued q' \<longrightarrow> Recv n d \<in> queued q \<or> mode s = Identity n)"
    using assms [of s r q] by auto
qed

lemma branch_src_on_send: "branch_src (on_send t d b)"
  unfolding branch_src_def on_send_def Let_def split_beta
  using queued_try_send by (auto split: mode.splits option.splits if_splits)

lemma branch_src_on_send_tag: "branch_src (on_send_tag t g b)"
  unfolding branch_src_def on_send_tag_def Let_def split_beta
  using queued_send_all by (auto split: mode.splits if_splits)

lemma branch_src_on_register: "branch_src (on_register nxt)"
  unfolding branch_src_def on_register_def Let_def split_beta
  using queued_register_tags by (auto split: mode.splits) blast

lemma branch_src_on_frame: "branch_src (on_frame t f)"
proof (cases f)
  case (Send d b)
  then have "on_frame t f = on_send t d b" by (simp add: fun_eq_iff)
  then show ?thesis by (simp add: branch_src_on_send)
next
  case (SendTag g b)
  then have "on_frame t f = on_send_tag t g b" by (simp add: fun_eq_iff)
  then show ?thesis by (simp add: branch_src_on_send_tag)
next
  case (Register nxt)
  then have "on_frame t f = on_register nxt" by (simp add: fun_eq_iff)
  then show ?thesis by (simp add: branch_src_on_register)
qed (rule branch_src_same; auto)+

lemma branch_src_on_message: "branch_src (on_message t m)"
proof (cases "\<exists>b f. m = Some (Binary b) \<and> decode_binary (Binary b) = Some f")
  case True
  then obtain b f where m: "m = Some (Binary b)" "decode_binary (Binary b) = Some f" by blast
  then have "on_message t m s r q = on_frame t f (s\<lparr>frames_in := frames_in s + 1\<rparr>) r q" for s r q
    by (simp add: on_message_def)
  then show ?thesis
    using branch_src_on_frame [of t f] unfolding branch_src_def by fastforce
next
  case False
  then show ?thesis
    by (intro branch_src_same) (auto simp: on_message_def split: option.splits ws_message.splits)
qed

lemma branch_src_on_outbound: "branch_src on_outbound"
  unfolding branch_src_def on_outbound_def
  using queued_upd(3) by (auto split: option.splits list.splits) blast+

lemma branch_src_on_tick: "branch_src (on_tick t)"
  by (rule branch_src_same) (auto simp: on_tick_def)

lemma branch_src_on_stop: "branch_src on_stop"
  by (rule branch_src_same) (auto simp: on_stop_def)

lemmas branches_src =
  branch_src_on_message branch_src_on_outbound branch_src_on_tick branch_src_on_stop

lemma cleanup_queued: "Recv n d \<in> queued (snd (cleanup s r q)) \<Longrightarrow> Recv n d \<in> queued q"
  using queued_upd(1) queued_register_tags
  by (auto simp: cleanup_def Let_def split_beta split: mode.splits) blast+

lemma end_conn_serving: "serving (conns (end_conn cid st)) c s \<Longrightarrow> serving (conns st) c s"
  by (auto simp: end_conn_def Let_def split_beta split: option.splits)

lemma end_conn_queues:
  "queues (end_conn cid st) = queues st \<or> (\<exists>s. queues (end_conn cid st) = snd (cleanup s (reg st) (queues st)))"
  by (auto simp: end_conn_def Let_def split_beta split: option.splits phase.splits)

lemma end_conn_queued: "Recv n d \<in> queued (queues (end_conn cid st)) \<Longrightarrow> Recv n d \<in> queued (queues st)"
  using end_conn_queues [of cid st] cleanup_queued [of n d] by metis

lemma sources_ok_end_conn:
  "sources_ok A (conns st) (queues st) \<Longrightarrow> sources_ok A (conns (end_conn cid st)) (queues (end_conn cid st))"
  unfolding sources_ok_def using end_conn_serving end_conn_queued by blast

lemma sources_ok_in_session:
  assumes "sources_ok A (conns st) (queues st)" "branch_src f"
  shows "sources_ok A (conns (fst (in_session cid f st))) (queues (fst (in_session cid f st)))"
proof (cases "\<exists>k s. conns st cid = Some k \<and> phase k = Serving s")
  case False
  then show ?thesis using assms by (auto simp: in_session_def split: option.splits phase.splits)
next
  case True
  then obtain k s where k: "conns st cid = Some k" "phase k = Serving s" by blast
  obtain s' r q out ex where f: "f s (reg st) (queues st) = (s', r, q, out, ex)"
    by (metis prod_cases5)
  let ?st = "st\<lparr>reg := r, queues := q, conns := (conns st)(cid \<mapsto> k\<lparr>phase := Serving s'\<rparr>)\<rparr>"
  have sv: "serving (conns st) cid s" using k by (simp add: serving_def)
  have b: "mode s' = Identity n \<Longrightarrow> mode s = Identity n"
    "Recv n d \<in> queued q \<Longrightarrow> Recv n d \<in> queued (queues st) \<or> mode s = Identity n" for n d
    using assms(2) f unfolding branch_src_def by blast+
  have A: "mode s = Identity n \<Longrightarrow> A n" for n using assms(1) sv unfolding sources_ok_def by blast
  have "sources_ok A (conns ?st) (queues ?st)"
    unfolding sources_ok_def
  proof (intro conjI allI impI)
    show "A n" if "Recv n d \<in> queued (queues ?st)" for n d
      using that b(2) [of n d] A assms(1) unfolding sources_ok_def by auto
    show "A n" if "serving (conns ?st) c x \<and> mode x = Identity n" for c x n
      using that b(1) [of n] A assms(1) unfolding sources_ok_def by (cases "c = cid") auto
  qed
  then show ?thesis
    using sources_ok_end_conn k f by (simp add: in_session_def Let_def)
qed

text \<open>Every connection still in its handshake was accepted with the challenge it holds.\<close>

definition challenges_ok :: "event list \<Rightarrow> (nat \<rightharpoonup> conn) \<Rightarrow> bool" where
  "challenges_ok es cs \<longleftrightarrow>
     (\<forall>cid k ch. cs cid = Some k \<and> phase k = Handshake ch \<longrightarrow> (\<exists>a. Accept cid a ch \<in> set es))"

lemma end_conn_conns: "conns (end_conn cid st) c = Some k \<Longrightarrow> conns st c = Some k"
  by (auto simp: end_conn_def Let_def split_beta split: option.splits if_splits)

lemma handshake_step:
  assumes "conns (fst (relay_step cr config e st)) cid = Some k" "phase k = Handshake ch"
  shows "conns st cid = Some k \<or> (\<exists>a. e = Accept cid a ch)"
proof (cases e)
  case (Accept c a ch')
  then show ?thesis
    using assms by (auto simp: on_accept_def split: option.splits if_splits)
next
  case (First c t token m)
  then show ?thesis
    using assms by (auto simp: on_first_def Let_def dest!: end_conn_conns
        split: option.splits phase.splits sum.splits if_splits)
qed (use assms in \<open>auto simp: in_session_def Let_def split_beta dest!: end_conn_conns
      split: option.splits phase.splits if_splits\<close>)

lemma challenges_ok_step:
  assumes "challenges_ok es (conns st)"
  shows "challenges_ok (es @ [e]) (conns (fst (relay_step cr config e st)))"
  unfolding challenges_ok_def
proof (intro allI impI, elim conjE)
  fix cid k ch
  assume "conns (fst (relay_step cr config e st)) cid = Some k" "phase k = Handshake ch"
  then show "\<exists>a. Accept cid a ch \<in> set (es @ [e])"
    using handshake_step [of cr config e st cid k ch] assms unfolding challenges_ok_def
    by (metis UnCI list.set_intros(1) set_append)
qed

lemma authenticated_mono: "authenticated cr config es n \<Longrightarrow> authenticated cr config (es @ [e]) n"
  unfolding authenticated_def by (metis UnI1 set_append)

lemma sources_ok_mono: "sources_ok A cs q \<Longrightarrow> (\<And>n. A n \<Longrightarrow> B n) \<Longrightarrow> sources_ok B cs q"
  unfolding sources_ok_def by blast

lemma first_contact_sources:
  assumes "first_contact cr config ch sid first r q = Inr (m, r', q')"
  shows "Recv n d \<in> queued q' \<Longrightarrow> Recv n d \<in> queued q"
    and "m = Identity n \<Longrightarrow> \<exists>b sig host. first = Binary b \<and> frame_decode b = Some (Auth n sig) \<and>
      host \<in> set (hosts config) \<and> verify_relay_auth cr n host ch sig"
proof -
  show "Recv n d \<in> queued q" if "Recv n d \<in> queued q'"
  proof (cases "\<exists>c. q' = fst (try_send c (Close CLOSE_REASON_SUPERSEDED) q) \<or> q' = q")
    case True
    then show ?thesis using that queued_try_send by auto
  next
    case False
    then obtain ts where "q' = snd (register_tags sid sid [] ts r q)"
      using assms by (auto simp: first_contact_def Let_def
          split: option.splits frame.splits if_splits prod.splits) (metis snd_conv)+
    then show ?thesis using that queued_register_tags [of sid sid "[]" ts r q] by auto
  qed
  show "\<exists>b sig host. first = Binary b \<and> frame_decode b = Some (Auth n sig) \<and>
      host \<in> set (hosts config) \<and> verify_relay_auth cr n host ch sig" if "m = Identity n"
    using assms that by (auto simp: first_contact_def Let_def list_ex_iff decode_binary_def
        split: option.splits frame.splits if_splits prod.splits ws_message.splits)
qed

lemma sources_ok_on_first:
  assumes "sources_ok A (conns st) (queues st)"
    and "\<And>k ch b n sig host. conns st cid = Some k \<Longrightarrow> phase k = Handshake ch \<Longrightarrow> first = Binary b \<Longrightarrow>
      frame_decode b = Some (Auth n sig) \<Longrightarrow> host \<in> set (hosts config) \<Longrightarrow>
      verify_relay_auth cr n host ch sig \<Longrightarrow> A n"
  shows "sources_ok A (conns (fst (on_first cr config cid t token first st)))
    (queues (fst (on_first cr config cid t token first st)))"
proof (cases "\<exists>k ch. conns st cid = Some k \<and> phase k = Handshake ch")
  case False
  then show ?thesis using assms(1) by (auto simp: on_first_def split: option.splits phase.splits)
next
  case True
  then obtain k ch where k: "conns st cid = Some k" "phase k = Handshake ch" by blast
  let ?sid = "next_session_id st"
  show ?thesis
  proof (cases "first_contact cr config ch ?sid first (reg st) ((queues st)(?sid \<mapsto> []))")
    case (Inl e)
    have "sources_ok A (conns (st\<lparr>next_session_id := ?sid + 1\<rparr>))
      (queues (st\<lparr>next_session_id := ?sid + 1\<rparr>))" using assms(1) by simp
    from sources_ok_end_conn [OF this, of cid] show ?thesis using k Inl by (simp add: on_first_def)
  next
    case (Inr x)
    obtain m r q where x: "x = (m, r, q)" by (cases x) auto
    let ?k = "k\<lparr>phase := Serving (session_new config ?sid m t)\<rparr>"
    note fc = first_contact_sources [OF Inr [unfolded x]]
    have "Recv n d \<in> queued (queues st)" if "Recv n d \<in> queued q" for n d
      using fc(1) [OF that] queued_upd(2) [of "queues st" ?sid] by blast
    moreover have "A n" if "m = Identity n" for n
      using fc(2) [OF that] assms(2) [OF k] by blast
    ultimately have "sources_ok A ((conns st)(cid \<mapsto> ?k)) q"
      using assms(1) unfolding sources_ok_def by (auto simp: session_new_def split: if_splits) blast
    then show ?thesis using k Inr x by (simp add: on_first_def Let_def)
  qed
qed

lemma relay_run_snoc: "relay_run cr config (es @ [e]) = fst (relay_step cr config e (relay_run cr config es))"
  by (simp add: relay_run_def)

lemma sources_authenticated:
  "sources_ok (authenticated cr config es) (conns (relay_run cr config es)) (queues (relay_run cr config es)) \<and>
   challenges_ok es (conns (relay_run cr config es))"
proof (induction es rule: rev_induct)
  case Nil
  then show ?case
    by (simp add: relay_run_def relay_start_def sources_ok_def challenges_ok_def queued_def serving_def)
next
  case (snoc e es)
  let ?st = "relay_run cr config es" and ?A = "authenticated cr config (es @ [e])"
  have A: "sources_ok ?A (conns ?st) (queues ?st)"
    using snoc authenticated_mono by (blast intro: sources_ok_mono)
  have "sources_ok ?A (conns (fst (relay_step cr config e ?st))) (queues (fst (relay_step cr config e ?st)))"
  proof (cases e)
    case (Accept cid a ch)
    then show ?thesis
      using A by (auto simp: on_accept_def sources_ok_def split: option.splits)
  next
    case (First cid t token first)
    have "?A n" if h: "conns ?st cid = Some k" "phase k = Handshake ch" "first = Binary b"
      "frame_decode b = Some (Auth n sig)" "host \<in> set (hosts config)"
      "verify_relay_auth cr n host ch sig" for k ch b n sig host
    proof -
      obtain a where "Accept cid a ch \<in> set es"
        using snoc h(1,2) unfolding challenges_ok_def by blast
      then have "Accept cid a ch \<in> set (es @ [e])" "First cid t token (Binary b) \<in> set (es @ [e])"
        using First h(3) by simp_all
      then show ?thesis unfolding authenticated_def using h(4-6) by blast
    qed
    then show ?thesis using sources_ok_on_first [OF A] First by simp
  qed (use A branches_src in \<open>simp_all add: sources_ok_in_session sources_ok_end_conn\<close>)
  then show ?case using challenges_ok_step [of es ?st e cr config] snoc by (simp add: relay_run_snoc)
qed

section \<open>Registration lemmas\<close>

lemma on_message_binary:
  "frame_ok f \<Longrightarrow>
   on_message t (Some (binary f)) s r q = on_frame t f (s\<lparr>frames_in := frames_in s + 1\<rparr>) r q"
  by (simp add: on_message_def binary_def decode_binary_def frame_decode_encode)

lemma relay_routes:
  "\<exists>M. modes_ok M (next_session_id (relay_run cr config es)) (conns (relay_run cr config es)) \<and>
     routes_ok M (reg (relay_run cr config es)) (queues (relay_run cr config es))"
  using relay_inv_run [of config cr es] by (auto simp: relay_inv_def)

lemma tag_targets_others:
  assumes "table_ok P (tags r)"
  shows "sid \<notin> fst ` set (filter (\<lambda>(i, _). i \<noteq> sid) (entries_of (tags r) t))"
    "length (tag_targets t sid r) + (if sid \<in> fst ` set (entries_of (tags r) t) then 1 else 0) \<le> TAG_ENDS"
proof -
  let ?es = "entries_of (tags r) t"
  show "sid \<notin> fst ` set (filter (\<lambda>(i, _). i \<noteq> sid) ?es)" by auto
  have len: "length ?es \<le> TAG_ENDS" using table_ok_entries [OF assms] by blast
  have tt: "length (tag_targets t sid r) = length (filter (\<lambda>(i, _). i \<noteq> sid) ?es)"
    by (simp add: tag_targets_def split: option.splits)
  show "length (tag_targets t sid r) + (if sid \<in> fst ` set ?es then 1 else 0) \<le> TAG_ENDS"
  proof (cases "sid \<in> fst ` set ?es")
    case True
    then have "length (filter (\<lambda>(i, _). i \<noteq> sid) ?es) < length ?es"
      by (auto intro!: length_filter_less)
    then show ?thesis using len True tt by simp
  next
    case False
    then show ?thesis using len tt le_trans [OF length_filter_le] by simp
  qed
qed

section \<open>Properties\<close>

text \<open>C14: after any sequence of events the relay's counters are its connections and both caps
  hold: \<open>live\<close> is the number of connections and at most \<open>max_sessions\<close>; \<open>by_source\<close> has exactly
  the addresses with a connection, with their number, and no address has more than
  \<open>max_sessions_per_source\<close> when that cap is set.\<close>

theorem relay_counts_and_caps:
  "live (reg (relay_run cr config es)) = card (dom (conns (relay_run cr config es))) \<and>
   live (reg (relay_run cr config es)) \<le> max_sessions config \<and>
   by_source (reg (relay_run cr config es)) a =
     (let n = card (from_source (conns (relay_run cr config es)) a) in if n = 0 then None else Some n) \<and>
   (max_sessions_per_source config = 0 \<or>
    card (from_source (conns (relay_run cr config es)) a) \<le> max_sessions_per_source config)"
  using relay_inv_run [of config cr es] by (auto simp: relay_inv_def counts_ok_def Let_def)

text \<open>C12: no ghost registrations. After any sequence of events, every tag in the registry has one
  or two entries, of different sessions, and each is a live tag session's that registered this tag,
  with that session's own queue; every identity route leads to a live session authenticated as that
  node; and every queue belongs to a live session and holds at most 64 frames.\<close>

theorem relay_no_ghosts:
  "(case tags (reg (relay_run cr config es)) t of None \<Rightarrow> True
    | Some entries \<Rightarrow> entries \<noteq> [] \<and> length entries \<le> 2 \<and> distinct (map fst entries) \<and>
        list_all (\<lambda>(i, c). c = i \<and> (\<exists>cid s ts. serving (conns (relay_run cr config es)) cid s \<and>
          session_id s = i \<and> mode s = Tags ts \<and> t \<in> set ts)) entries) \<and>
   (case sessions (reg (relay_run cr config es)) n of None \<Rightarrow> True
    | Some c \<Rightarrow> \<exists>cid s. serving (conns (relay_run cr config es)) cid s \<and>
        session_id s = c \<and> mode s = Identity n) \<and>
   (case queues (relay_run cr config es) c of None \<Rightarrow> True
    | Some q \<Rightarrow> length q \<le> 64 \<and>
        (\<exists>cid s. serving (conns (relay_run cr config es)) cid s \<and> session_id s = c))"
proof -
  let ?st = "relay_run cr config es"
  obtain M where M: "modes_ok M (next_session_id ?st) (conns ?st)" "routes_ok M (reg ?st) (queues ?st)"
    using relay_routes by blast
  note find = modes_ok_find [OF M(1)]
  have t: "table_ok (tag_entry_ok M) (tags (reg ?st))" using M(2) by (simp add: routes_ok_def)
  have i: "sessions (reg ?st) n = Some c \<Longrightarrow> \<exists>cid s. serving (conns ?st) cid s \<and>
      session_id s = c \<and> mode s = Identity n" for c
    using M(2) find unfolding routes_ok_def by blast
  have q: "queues ?st c = Some q \<Longrightarrow> length q \<le> 64 \<and>
      (\<exists>cid s. serving (conns ?st) cid s \<and> session_id s = c)" for q
    using M(2) find unfolding routes_ok_def queues_ok_def MAX_QUEUED_FRAMES_def by blast
  have e: "tag_entry_ok M t (j, d) \<Longrightarrow> d = j \<and> (\<exists>cid s ts. serving (conns ?st) cid s \<and>
      session_id s = j \<and> mode s = Tags ts \<and> t \<in> set ts)" for j d
    using find unfolding tag_entry_ok_def by fastforce
  have "case tags (reg ?st) t of None \<Rightarrow> True
    | Some entries \<Rightarrow> entries \<noteq> [] \<and> length entries \<le> 2 \<and> distinct (map fst entries) \<and>
        list_all (\<lambda>(i, c). c = i \<and> (\<exists>cid s ts. serving (conns ?st) cid s \<and>
          session_id s = i \<and> mode s = Tags ts \<and> t \<in> set ts)) entries"
  proof (cases "tags (reg ?st) t")
    case (Some entries)
    then have "entries \<noteq> []" "length entries \<le> 2" "distinct (map fst entries)"
      "\<forall>x\<in>set entries. tag_entry_ok M t x"
      using t by (simp_all add: table_ok_def TAG_ENDS_def)
    moreover from this(4) have "list_all (\<lambda>(i, c). c = i \<and> (\<exists>cid s ts. serving (conns ?st) cid s \<and>
        session_id s = i \<and> mode s = Tags ts \<and> t \<in> set ts)) entries"
      unfolding list_all_iff using e by blast
    ultimately show ?thesis by (simp add: Some)
  qed simp
  then show ?thesis using i q by (simp split: option.splits)
qed

text \<open>C13: the relay never names a source that did not prove itself. Whenever a queue holds a
  datagram delivered by identity, its source is a node that authenticated in this history: an
  accepted connection answered its own challenge with a signature of that node for one of the
  relay's hosts.\<close>

theorem relay_sources_authenticated:
  assumes "queues (relay_run cr config es) c = Some fs" and "Recv n d \<in> set fs"
  shows "authenticated cr config es n"
  using sources_authenticated [of cr config es] assms unfolding sources_ok_def queued_def by blast

theorem relay_sources_authenticated_witness:
  "let k1 = from_seed plain_crypto (mk_arr (replicate 32 1));
       k2 = from_seed plain_crypto (mk_arr (replicate 32 2));
       ch = mk_arr [9];
       config = \<lparr>hosts = [''r''], bytes_per_second = 0, max_sessions = 4,
                 max_sessions_per_source = 2, reflector_per_second = 20\<rparr>;
       es = [Accept 0 (V4 1) ch, Accept 1 (V4 1) ch,
             First 0 0 (mk_arr []) (binary (Auth (key_node_id k1) (sign_relay_auth plain_crypto k1 ''r'' ch))),
             First 1 0 (mk_arr []) (binary (Auth (key_node_id k2) (sign_relay_auth plain_crypto k2 ''r'' ch))),
             Message 0 1 (Some (binary (Send (key_node_id k2) [7])))]
   in queues (relay_run plain_crypto config es) 2 = Some [Recv (key_node_id k1) [7]] \<and>
      authenticated plain_crypto config es (key_node_id k1)"
proof -
  let ?k1 = "from_seed plain_crypto (mk_arr (replicate 32 1))"
  let ?k2 = "from_seed plain_crypto (mk_arr (replicate 32 2))"
  let ?config = "\<lparr>hosts = [''r''], bytes_per_second = 0, max_sessions = 4,
                 max_sessions_per_source = 2, reflector_per_second = 20\<rparr>"
  let ?es = "[Accept 0 (V4 1) (mk_arr [9]), Accept 1 (V4 1) (mk_arr [9]),
    First 0 0 (mk_arr []) (binary (Auth (key_node_id ?k1) (sign_relay_auth plain_crypto ?k1 ''r'' (mk_arr [9])))),
    First 1 0 (mk_arr []) (binary (Auth (key_node_id ?k2) (sign_relay_auth plain_crypto ?k2 ''r'' (mk_arr [9])))),
    Message 0 1 (Some (binary (Send (key_node_id ?k2) [7])))]"
  have keys: "key_node_id ?k1 \<noteq> key_node_id ?k2"
    by (simp add: from_seed_def plain_crypto_def mk_arr_inject)
  have auth: "verify_relay_auth plain_crypto (key_node_id ?k1) ''r'' (mk_arr [9])
      (sign_relay_auth plain_crypto ?k1 ''r'' (mk_arr [9]))"
    "verify_relay_auth plain_crypto (key_node_id ?k2) ''r'' (mk_arr [9])
      (sign_relay_auth plain_crypto ?k2 ''r'' (mk_arr [9]))"
    by (simp_all add: verify_relay_auth_def sign_relay_auth_def node_verify_own_signature
        plain_crypto_ed25519)
  have run: "queues (relay_run plain_crypto ?config ?es) 2 = Some [Recv (key_node_id ?k1) [7]]"
    using keys auth
    by (simp add: relay_run_def relay_start_def registry_default_def on_accept_def admit_def
        on_first_def first_contact_def session_new_def byte_budget_new_def in_session_def
        on_message_binary on_send_def budget_allow_def try_send_def MAX_QUEUED_FRAMES_def
        MAX_DATAGRAM_def Let_def numeral_2_eq_2)
  then show ?thesis
    unfolding Let_def using relay_sources_authenticated [OF run] by simp
qed


section \<open>The byte budget\<close>

text \<open>A session's requests in order, each a size and its time: the bytes let through and the
  budget afterwards.\<close>

fun budget_run :: "(nat \<times> rat) list \<Rightarrow> byte_budget \<Rightarrow> nat \<times> byte_budget" where
  "budget_run [] b = (0, b)"
| "budget_run ((n, t) # reqs) b =
     (let (b, ok) = budget_allow n t b;
          (total, b) = budget_run reqs b
      in (if ok then n + total else total, b))"

fun ordered_from :: "rat \<Rightarrow> (nat \<times> rat) list \<Rightarrow> bool" where
  "ordered_from t [] = True"
| "ordered_from t ((_, u) # reqs) = (t \<le> u \<and> ordered_from u reqs)"

lemma budget_allow_bound:
  assumes "per_second b \<noteq> 0" "budget_last b \<le> t" "0 \<le> tokens b" "budget_allow n t b = (b', ok)"
  shows "per_second b' = per_second b" "budget_last b' = t" "0 \<le> tokens b'"
    "(if ok then of_nat n else 0) + tokens b' \<le> tokens b + (t - budget_last b) * of_nat (per_second b)"
  using assms by (auto simp: budget_allow_def Let_def split: if_splits)

lemma budget_run_bound:
  assumes "per_second b \<noteq> 0" "0 \<le> tokens b" "ordered_from (budget_last b) reqs"
  shows "of_nat (fst (budget_run reqs b)) + tokens (snd (budget_run reqs b)) \<le>
      tokens b + (budget_last (snd (budget_run reqs b)) - budget_last b) * of_nat (per_second b) \<and>
    0 \<le> tokens (snd (budget_run reqs b))"
  using assms
proof (induction reqs arbitrary: b)
  case (Cons req reqs)
  obtain n t where req: "req = (n, t)" by fastforce
  obtain b' ok where b': "budget_allow n t b = (b', ok)" by fastforce
  have le: "budget_last b \<le> t" using Cons.prems req by simp
  note a = budget_allow_bound [OF Cons.prems(1) le Cons.prems(2) b']
  have IH: "of_nat (fst (budget_run reqs b')) + tokens (snd (budget_run reqs b')) \<le>
      tokens b' + (budget_last (snd (budget_run reqs b')) - t) * of_nat (per_second b) \<and>
    0 \<le> tokens (snd (budget_run reqs b'))"
    using Cons.IH [of b'] Cons.prems a req by simp
  have "budget_run (req # reqs) b =
    (if ok then n + fst (budget_run reqs b') else fst (budget_run reqs b'), snd (budget_run reqs b'))"
    by (simp add: req b' split_beta)
  then show ?case using IH a(4) by (auto simp: algebra_simps)
qed simp



end
