(* ===== verification/Rendezvous_Book.thy ===== *)
theory Rendezvous_Book
  imports Wire "HOL-Library.AList"
begin

text \<open>
  \<open>link-endpoint/src/rendezvous_book.rs\<close>: the endpoint's book of rendezvous material. Each of
  its hash maps is an association list with distinct keys, whose order stands for the map's
  iteration order. The clock and the random route ids are arguments. The lemmas show that the
  send cache never answers anything but the fresh derivation, that an inbound tag is attributed
  exactly when it is registered, and that both ends of a pair meet within one epoch of skew.
\<close>

section \<open>The book\<close>

record rendezvous_peer =
  rv_case :: tag_case
  static_x :: "32 arr"
  eph_x :: "32 arr"

record expiring_secret =
  admission_secret :: "16 arr"
  admission_expires_at :: u64

record live_pairing_route =
  generation :: u64
  live_secret :: "16 arr"

record pairing_route =
  admission :: "expiring_secret option"
  live_route :: "live_pairing_route option"

record tag_book =
  peers :: "(node_id \<times> rendezvous_peer) list"
  pairing :: "(node_id \<times> pairing_route) list"
  paired :: "(node_id \<times> 32 arr) list"
  version :: nat
  cache_host :: string
  cache_tags :: "((node_id \<times> u64) \<times> tag) list"

definition SEND_CACHE_CAP :: nat where "SEND_CACHE_CAP = 4096"

definition EPOCH_WINDOW :: "int list" where "EPOCH_WINDOW = [-1, 0, 1]"

definition with_paired ::
  "(node_id \<times> rendezvous_peer) list \<Rightarrow> (node_id \<times> 32 arr) list \<Rightarrow> tag_book" where
  "with_paired ps qs =
     \<lparr>peers = ps, pairing = [], paired = qs, version = 0, cache_host = [], cache_tags = []\<rparr>"

definition bump :: "tag_book \<Rightarrow> tag_book" where
  "bump b = b\<lparr>version := version b + 1, cache_tags := []\<rparr>"

definition upsert :: "node_id \<Rightarrow> rendezvous_peer \<Rightarrow> tag_book \<Rightarrow> tag_book" where
  "upsert peer material b = bump (b\<lparr>peers := AList.update peer material (peers b)\<rparr>)"

definition remove_peer :: "node_id \<Rightarrow> tag_book \<Rightarrow> tag_book" where
  "remove_peer peer b = bump (b\<lparr>peers := AList.delete peer (peers b)\<rparr>)"

definition upsert_paired :: "node_id \<Rightarrow> 32 arr \<Rightarrow> tag_book \<Rightarrow> tag_book" where
  "upsert_paired peer secret b = bump (b\<lparr>paired := AList.update peer secret (paired b)\<rparr>)"

definition remove_paired :: "node_id \<Rightarrow> tag_book \<Rightarrow> tag_book" where
  "remove_paired peer b =
     (let b' = b\<lparr>paired := AList.delete peer (paired b)\<rparr>
      in if map_of (paired b) peer \<noteq> None then bump b' else b')"

text \<open>The first drawn candidate no map has is the route; \<open>None\<close> asks for more draws.\<close>

definition register_pairing ::
  "node_id list \<Rightarrow> 16 arr \<Rightarrow> u64 \<Rightarrow> tag_book \<Rightarrow> (node_id \<times> tag_book) option" where
  "register_pairing draws secret expires b =
     (case find (\<lambda>c. map_of (peers b) c = None \<and> map_of (pairing b) c = None \<and> map_of (paired b) c = None) draws of
        None \<Rightarrow> None
      | Some route \<Rightarrow>
          Some (route,
            bump (b\<lparr>pairing := AList.update route
              \<lparr>admission = Some \<lparr>admission_secret = secret, admission_expires_at = expires\<rparr>,
               live_route = None\<rparr> (pairing b)\<rparr>)))"

definition remove_pairing :: "node_id \<Rightarrow> tag_book \<Rightarrow> tag_book \<times> bool" where
  "remove_pairing route b =
     (case map_of (pairing b) route of
        None \<Rightarrow> (b, False)
      | Some r \<Rightarrow>
          let removed = (admission r \<noteq> None);
              b' = (if live_route r = None then b\<lparr>pairing := AList.delete route (pairing b)\<rparr>
                    else b\<lparr>pairing := AList.update route (r\<lparr>admission := None\<rparr>) (pairing b)\<rparr>)
          in (if removed then bump b' else b', removed))"

text \<open>\<open>retain\<close>: expired admissions go, and with them the routes that have nothing left.\<close>

definition expire_route :: "u64 \<Rightarrow> pairing_route \<Rightarrow> pairing_route" where
  "expire_route now_unix r =
     (case admission r of
        Some a \<Rightarrow> if now_unix \<ge> admission_expires_at a then r\<lparr>admission := None\<rparr> else r
      | None \<Rightarrow> r)"

definition prune_expired :: "u64 \<Rightarrow> tag_book \<Rightarrow> tag_book" where
  "prune_expired now_unix b =
     (let pairing' = filter (\<lambda>(_, r). admission r \<noteq> None \<or> live_route r \<noteq> None)
                       (map (\<lambda>(k, r). (k, expire_route now_unix r)) (pairing b));
          changed = list_ex (\<lambda>(_, r). admission r \<noteq> None \<and> admission (expire_route now_unix r) = None)
                      (pairing b) \<or> length pairing' \<noteq> length (pairing b);
          b' = b\<lparr>pairing := pairing'\<rparr>
      in if changed then bump b' else b')"

definition promote_pairing ::
  "node_id \<Rightarrow> 16 arr \<Rightarrow> u64 \<Rightarrow> u64 \<Rightarrow> tag_book \<Rightarrow> tag_book \<times> bool" where
  "promote_pairing route secret gen now_unix b =
     (let b = prune_expired now_unix b
      in case map_of (pairing b) route of
           None \<Rightarrow> (b, False)
         | Some r \<Rightarrow>
             if admission r = None then (b, False)
             else (bump (b\<lparr>pairing := AList.update route
                     (r\<lparr>live_route := Some \<lparr>generation = gen, live_secret = secret\<rparr>\<rparr>) (pairing b)\<rparr>), True))"

definition remove_live_pairing :: "node_id \<Rightarrow> u64 \<Rightarrow> tag_book \<Rightarrow> tag_book \<times> bool" where
  "remove_live_pairing route gen b =
     (case map_of (pairing b) route of
        None \<Rightarrow> (b, False)
      | Some r \<Rightarrow>
          let removed = (case live_route r of Some l \<Rightarrow> generation l = gen | None \<Rightarrow> False);
              r' = (if removed then r\<lparr>live_route := None\<rparr> else r);
              b' = (if admission r' = None \<and> live_route r' = None
                    then b\<lparr>pairing := AList.delete route (pairing b)\<rparr>
                    else b\<lparr>pairing := AList.update route r' (pairing b)\<rparr>)
          in (if removed then bump b' else b', removed))"

definition pairing_active :: "node_id \<Rightarrow> u64 \<Rightarrow> tag_book \<Rightarrow> tag_book \<times> bool" where
  "pairing_active route now_unix b =
     (let b = prune_expired now_unix b
      in (b, case map_of (pairing b) route of Some r \<Rightarrow> admission r \<noteq> None | None \<Rightarrow> False))"

definition book_is_empty :: "tag_book \<Rightarrow> bool" where
  "book_is_empty b \<longleftrightarrow> peers b = [] \<and> pairing b = [] \<and> paired b = []"

definition book_contains :: "node_id \<Rightarrow> tag_book \<Rightarrow> bool" where
  "book_contains peer b \<longleftrightarrow>
     map_of (peers b) peer \<noteq> None \<or> map_of (pairing b) peer \<noteq> None \<or> map_of (paired b) peer \<noteq> None"

definition window :: "u64 \<Rightarrow> u64 list" where
  "window now_unix = List.map_filter (checked_add_signed (epoch_index now_unix)) EPOCH_WINDOW"

section \<open>Tags\<close>

definition material_tag :: "crypto \<Rightarrow> rendezvous_peer \<Rightarrow> string \<Rightarrow> u64 \<Rightarrow> tag" where
  "material_tag cr m host epoch = derive_tag cr (rv_case m) (static_x m) (eph_x m) host epoch"

definition registration :: "crypto \<Rightarrow> string \<Rightarrow> u64 \<Rightarrow> tag_book \<Rightarrow> tag_book \<times> tag list" where
  "registration cr relay_host now_unix b =
     (let b = prune_expired now_unix b;
          epochs = window now_unix
      in (b,
          concat (map (\<lambda>(_, m). map (material_tag cr m relay_host) epochs) (peers b))
          @ concat (map (\<lambda>(_, r).
              (case admission r of Some a \<Rightarrow> map (derive_pairing_tag cr (admission_secret a) relay_host) epochs | None \<Rightarrow> [])
              @ (case live_route r of Some l \<Rightarrow> map (derive_pairing_tag cr (live_secret l) relay_host) epochs | None \<Rightarrow> []))
              (pairing b))
          @ concat (map (\<lambda>(_, s). map (derive_paired_route_tag cr s relay_host) epochs) (paired b))))"

text \<open>The tag derived when the cache has none: admission, then live route, then paired route,
  then card material.\<close>

definition fresh_tag :: "crypto \<Rightarrow> node_id \<Rightarrow> string \<Rightarrow> u64 \<Rightarrow> tag_book \<Rightarrow> tag option" where
  "fresh_tag cr peer relay_host epoch b =
     (case Option.bind (map_of (pairing b) peer) (\<lambda>r.
             case admission r of
               Some a \<Rightarrow> Some (derive_pairing_tag cr (admission_secret a) relay_host epoch)
             | None \<Rightarrow> map_option (\<lambda>l. derive_pairing_tag cr (live_secret l) relay_host epoch) (live_route r)) of
        Some t \<Rightarrow> Some t
      | None \<Rightarrow>
          (case map_of (paired b) peer of
             Some s \<Rightarrow> Some (derive_paired_route_tag cr s relay_host epoch)
           | None \<Rightarrow> map_option (\<lambda>m. material_tag cr m relay_host epoch) (map_of (peers b) peer)))"

definition tag_for_send :: "crypto \<Rightarrow> node_id \<Rightarrow> string \<Rightarrow> u64 \<Rightarrow> tag_book \<Rightarrow> tag_book \<times> tag option" where
  "tag_for_send cr peer relay_host now_unix b =
     (let b = prune_expired now_unix b;
          epoch = epoch_index now_unix;
          b = (if cache_host b \<noteq> relay_host then b\<lparr>cache_host := relay_host, cache_tags := []\<rparr> else b)
      in case map_of (cache_tags b) (peer, epoch) of
           Some t \<Rightarrow> (b, Some t)
         | None \<Rightarrow>
             (case fresh_tag cr peer relay_host epoch b of
                None \<Rightarrow> (b, None)
              | Some t \<Rightarrow>
                  let cached = (if length (cache_tags b) \<ge> SEND_CACHE_CAP then [] else cache_tags b)
                  in (b\<lparr>cache_tags := AList.update (peer, epoch) t cached\<rparr>, Some t)))"

text \<open>The search loops of \<open>resolve\<close>: the first key with an epoch whose tag matches.\<close>

fun find_key :: "('v \<Rightarrow> u64 \<Rightarrow> bool) \<Rightarrow> u64 list \<Rightarrow> (node_id \<times> 'v) list \<Rightarrow> node_id option" where
  "find_key P epochs [] = None"
| "find_key P epochs ((k, v) # kvs) = (if list_ex (P v) epochs then Some k else find_key P epochs kvs)"

definition pairing_matches :: "crypto \<Rightarrow> tag \<Rightarrow> string \<Rightarrow> pairing_route \<Rightarrow> u64 \<Rightarrow> bool" where
  "pairing_matches cr t relay_host r epoch \<longleftrightarrow>
     (case admission r of Some a \<Rightarrow> derive_pairing_tag cr (admission_secret a) relay_host epoch = t | None \<Rightarrow> False) \<or>
     (case live_route r of Some l \<Rightarrow> derive_pairing_tag cr (live_secret l) relay_host epoch = t | None \<Rightarrow> False)"

definition resolve :: "crypto \<Rightarrow> tag \<Rightarrow> string \<Rightarrow> u64 \<Rightarrow> tag_book \<Rightarrow> tag_book \<times> node_id option" where
  "resolve cr t relay_host now_unix b =
     (let b = prune_expired now_unix b;
          epochs = window now_unix
      in (b,
          case find_key (\<lambda>m e. material_tag cr m relay_host e = t) epochs (peers b) of
            Some k \<Rightarrow> Some k
          | None \<Rightarrow>
              (case find_key (pairing_matches cr t relay_host) epochs (pairing b) of
                 Some k \<Rightarrow> Some k
               | None \<Rightarrow> find_key (\<lambda>s e. derive_paired_route_tag cr s relay_host e = t) epochs (paired b))))"

text \<open>\<open>PairingRegistration::is_active\<close>, for a registration whose book is still there.\<close>

definition is_active :: "node_id \<Rightarrow> u64 \<Rightarrow> u64 \<Rightarrow> tag_book \<Rightarrow> tag_book \<times> bool" where
  "is_active route expires now_unix b =
     (if now_unix < expires then pairing_active route now_unix b else (b, False))"

section \<open>The invariant\<close>

definition route_ok :: "pairing_route \<Rightarrow> bool" where
  "route_ok r \<longleftrightarrow> admission r \<noteq> None \<or> live_route r \<noteq> None"

lemma route_ok_simps [simp]:
  "route_ok \<lparr>admission = Some a, live_route = l\<rparr>"
  "route_ok (r\<lparr>admission := x\<rparr>) \<longleftrightarrow> x \<noteq> None \<or> live_route r \<noteq> None"
  "route_ok (r\<lparr>live_route := y\<rparr>) \<longleftrightarrow> admission r \<noteq> None \<or> y \<noteq> None"
  by (simp_all add: route_ok_def)

definition cache_ok :: "crypto \<Rightarrow> tag_book \<Rightarrow> bool" where
  "cache_ok cr b \<longleftrightarrow>
     (\<forall>p e t. map_of (cache_tags b) (p, e) = Some t \<longrightarrow> fresh_tag cr p (cache_host b) e b = Some t)"

text \<open>Keys are distinct, no pairing route is left with neither secret, the cache is within its
  bound and holds only tags a fresh derivation would give.\<close>

definition book_ok :: "crypto \<Rightarrow> tag_book \<Rightarrow> bool" where
  "book_ok cr b \<longleftrightarrow>
     distinct (map fst (peers b)) \<and> distinct (map fst (pairing b)) \<and> distinct (map fst (paired b)) \<and>
     list_all (\<lambda>(_, r). route_ok r) (pairing b) \<and>
     length (cache_tags b) \<le> SEND_CACHE_CAP \<and> cache_ok cr b"

lemma fresh_tag_cong:
  assumes "map_of (pairing b) p = map_of (pairing b') p" "map_of (paired b) p = map_of (paired b') p"
    "map_of (peers b) p = map_of (peers b') p"
  shows "fresh_tag cr p h e b = fresh_tag cr p h e b'"
  unfolding fresh_tag_def assms ..

lemma bump_simps [simp]:
  "peers (bump b) = peers b" "pairing (bump b) = pairing b" "paired (bump b) = paired b"
  "cache_tags (bump b) = []" "cache_host (bump b) = cache_host b" "version (bump b) = version b + 1"
  by (simp_all add: bump_def)

lemma book_ok_bump:
  assumes "distinct (map fst (peers b))" "distinct (map fst (pairing b))" "distinct (map fst (paired b))"
    "list_all (\<lambda>(_, r). route_ok r) (pairing b)"
  shows "book_ok cr (bump b)"
  using assms by (simp add: book_ok_def cache_ok_def)

lemma list_all_update:
  "list_all (\<lambda>(_, r). P r) al \<Longrightarrow> P v \<Longrightarrow> list_all (\<lambda>(_, r). P r) (AList.update k v al)"
  by (induction al) auto

lemma list_all_delete:
  "list_all (\<lambda>(_, r). P r) al \<Longrightarrow> list_all (\<lambda>(_, r). P r) (AList.delete k al)"
  by (auto simp: list_all_iff AList.delete_eq)

lemma book_okD:
  assumes "book_ok cr b"
  shows "distinct (map fst (peers b))" "distinct (map fst (pairing b))" "distinct (map fst (paired b))"
    "list_all (\<lambda>(_, r). route_ok r) (pairing b)"
    "map_of (pairing b) k = Some r \<Longrightarrow> route_ok r"
  using assms by (auto simp: book_ok_def list_all_iff dest!: map_of_SomeD)

lemma book_ok_same_maps:
  assumes "book_ok cr b" "map_of (pairing b') = map_of (pairing b)" "map_of (paired b') = map_of (paired b)"
    "peers b' = peers b" "cache_tags b' = cache_tags b" "cache_host b' = cache_host b"
    "distinct (map fst (pairing b'))" "distinct (map fst (paired b'))"
    "list_all (\<lambda>(_, r). route_ok r) (pairing b')"
  shows "book_ok cr b'"
proof -
  have "fresh_tag cr p h e b' = fresh_tag cr p h e b" for p h e
    by (rule fresh_tag_cong) (simp_all add: assms)
  then show ?thesis using assms by (simp add: book_ok_def cache_ok_def)
qed

lemma book_ok_upsert: "book_ok cr b \<Longrightarrow> book_ok cr (upsert p m b)"
  unfolding upsert_def by (rule book_ok_bump) (auto dest: book_okD simp: distinct_update)

lemma book_ok_remove_peer: "book_ok cr b \<Longrightarrow> book_ok cr (remove_peer p b)"
  unfolding remove_peer_def by (rule book_ok_bump) (auto dest: book_okD simp: distinct_delete)

lemma book_ok_upsert_paired: "book_ok cr b \<Longrightarrow> book_ok cr (upsert_paired p s b)"
  unfolding upsert_paired_def by (rule book_ok_bump) (auto dest: book_okD simp: distinct_update)

lemma book_ok_remove_paired:
  assumes "book_ok cr b"
  shows "book_ok cr (remove_paired p b)"
proof (cases "map_of (paired b) p")
  case None
  then have "AList.delete p (paired b) = paired b"
    by (simp add: delete_idem map_of_eq_None_iff)
  then show ?thesis using assms None by (simp add: remove_paired_def)
next
  case (Some x)
  then show ?thesis
    using book_okD [OF assms] by (auto simp: remove_paired_def intro!: book_ok_bump distinct_delete)
qed

lemma book_ok_register_pairing:
  "book_ok cr b \<Longrightarrow> register_pairing draws s x b = Some (route, b') \<Longrightarrow> book_ok cr b'"
  by (auto simp: register_pairing_def distinct_update dest: book_okD
      intro!: book_ok_bump list_all_update split: option.splits)

lemma book_ok_remove_pairing:
  assumes "book_ok cr b"
  shows "book_ok cr (fst (remove_pairing route b))"
proof (cases "map_of (pairing b) route")
  case None
  then show ?thesis using assms by (simp add: remove_pairing_def)
next
  case (Some r)
  note d = book_okD [OF assms]
  have r: "route_ok r" by (rule d(5) [OF Some])
  show ?thesis
  proof (cases "admission r")
    case (Some a)
    then show ?thesis
      using d \<open>map_of (pairing b) route = Some r\<close>
      by (auto simp: remove_pairing_def Let_def
          intro!: book_ok_bump distinct_delete distinct_update list_all_update list_all_delete)
  next
    case None
    then have live: "live_route r \<noteq> None" "r\<lparr>admission := None\<rparr> = r" using r by (simp_all add: route_ok_def)
    then show ?thesis
      using assms d r None Some
      by (auto simp: remove_pairing_def Let_def fun_upd_idem update_conv'
          intro!: book_ok_same_maps [OF assms] distinct_update list_all_update)
  qed
qed

lemma book_ok_remove_live_pairing:
  assumes "book_ok cr b"
  shows "book_ok cr (fst (remove_live_pairing route gen b))"
proof (cases "map_of (pairing b) route")
  case None
  then show ?thesis using assms by (simp add: remove_live_pairing_def)
next
  case (Some r)
  note d = book_okD [OF assms]
  have r: "route_ok r" by (rule d(5) [OF Some])
  show ?thesis
  proof (cases "\<exists>l. live_route r = Some l \<and> generation l = gen")
    case True
    then show ?thesis
      using d Some by (auto simp: remove_live_pairing_def Let_def
          intro!: book_ok_bump distinct_delete distinct_update list_all_update list_all_delete)
  next
    case False
    then have "(case live_route r of Some l \<Rightarrow> generation l = gen | None \<Rightarrow> False) = False"
      by (auto split: option.splits)
    then show ?thesis
      using assms d r Some
      by (auto simp: remove_live_pairing_def Let_def fun_upd_idem update_conv' route_ok_def [of r]
          intro!: book_ok_same_maps [OF assms] distinct_update list_all_update)
  qed
qed

lemma expire_route_id: "\<not> (admission r \<noteq> None \<and> admission (expire_route t r) = None) \<Longrightarrow> expire_route t r = r"
  by (auto simp: expire_route_def split: option.splits if_splits)

lemma prune_expired_unchanged:
  assumes "\<not> (list_ex (\<lambda>(_, r). admission r \<noteq> None \<and> admission (expire_route t r) = None) (pairing b))"
    and "length (filter (\<lambda>(_, r). admission r \<noteq> None \<or> live_route r \<noteq> None)
           (map (\<lambda>(k, r). (k, expire_route t r)) (pairing b))) = length (pairing b)"
  shows "filter (\<lambda>(_, r). admission r \<noteq> None \<or> live_route r \<noteq> None)
      (map (\<lambda>(k, r). (k, expire_route t r)) (pairing b)) = pairing b"
proof -
  have id: "map (\<lambda>(k, r). (k, expire_route t r)) (pairing b) = pairing b"
  proof (rule map_idI)
    fix x
    assume x: "x \<in> set (pairing b)"
    obtain k r where kr: "x = (k, r)" by fastforce
    have "expire_route t r = r"
      using assms(1) x unfolding kr list_ex_iff by (intro expire_route_id) auto
    then show "(case x of (k, r) \<Rightarrow> (k, expire_route t r)) = x" by (simp add: kr)
  qed
  have "filter P xs = xs" if "length (filter P xs) = length xs" for P and xs :: "'z list"
    using that by (metis filter_id_conv length_filter_less less_irrefl)
  then show ?thesis using assms(2) unfolding id by blast
qed

lemma prune_expired_simps [simp]:
  "peers (prune_expired t b) = peers b" "paired (prune_expired t b) = paired b"
  "cache_host (prune_expired t b) = cache_host b"
  by (simp_all add: prune_expired_def Let_def)

lemma pairing_prune_expired:
  "pairing (prune_expired t b) =
   filter (\<lambda>(_, r). admission r \<noteq> None \<or> live_route r \<noteq> None)
     (map (\<lambda>(k, r). (k, expire_route t r)) (pairing b))"
  by (simp add: prune_expired_def Let_def)

lemma book_ok_prune_expired:
  assumes "book_ok cr b"
  shows "book_ok cr (prune_expired t b)"
proof -
  let ?al = "filter (\<lambda>(_, r). admission r \<noteq> None \<or> live_route r \<noteq> None)
    (map (\<lambda>(k, r). (k, expire_route t r)) (pairing b))"
  let ?changed = "list_ex (\<lambda>(_, r). admission r \<noteq> None \<and> admission (expire_route t r) = None) (pairing b)
    \<or> length ?al \<noteq> length (pairing b)"
  note d = book_okD [OF assms]
  have "map fst (map (\<lambda>(k, r). (k, expire_route t r)) (pairing b)) = map fst (pairing b)"
    by (simp add: comp_def split_beta)
  then have "distinct (map fst (map (\<lambda>(k, r). (k, expire_route t r)) (pairing b)))"
    using d(2) by (simp only:)
  then have dist: "distinct (map fst ?al)" by (rule distinct_map_filter)
  have all: "list_all (\<lambda>(_, r). route_ok r) ?al" by (auto simp: list_all_iff route_ok_def)
  show ?thesis
  proof (cases ?changed)
    case True
    then have "prune_expired t b = bump (b\<lparr>pairing := ?al\<rparr>)"
      unfolding prune_expired_def Let_def by (simp only: if_True)
    then show ?thesis using book_ok_bump [of "b\<lparr>pairing := ?al\<rparr>" cr] d dist all by simp
  next
    case False
    then have "?al = pairing b" by (intro prune_expired_unchanged) blast+
    then have "prune_expired t b = b\<lparr>pairing := pairing b\<rparr>"
      using False unfolding prune_expired_def Let_def by (simp only: if_False)
    then show ?thesis using assms by simp
  qed
qed

lemma book_ok_promote_pairing: "book_ok cr b \<Longrightarrow> book_ok cr (fst (promote_pairing route s g t b))"
  using book_okD [OF book_ok_prune_expired]
  by (auto simp: promote_pairing_def Let_def distinct_update split: option.splits
      intro!: book_ok_bump list_all_update book_ok_prune_expired)

lemma fresh_tag_cache [simp]:
  "fresh_tag cr p h e (b\<lparr>cache_host := h'\<rparr>) = fresh_tag cr p h e b"
  "fresh_tag cr p h e (b\<lparr>cache_tags := ts\<rparr>) = fresh_tag cr p h e b"
  by (rule fresh_tag_cong; simp)+

lemma length_update_le: "length (AList.update k v al) \<le> Suc (length al)"
  by (induction al) auto

lemma tag_for_send_correct:
  assumes "book_ok cr b"
  shows "book_ok cr (fst (tag_for_send cr p h t b))"
    and "snd (tag_for_send cr p h t b) = fresh_tag cr p h (epoch_index t) (prune_expired t b)"
proof -
  let ?e = "epoch_index t"
  let ?b = "prune_expired t b"
  define c where "c = (if cache_host ?b \<noteq> h then ?b\<lparr>cache_host := h, cache_tags := []\<rparr> else ?b)"
  have c_ok: "book_ok cr c" "cache_host c = h"
    using book_ok_prune_expired [OF assms, of t] by (auto simp: c_def book_ok_def cache_ok_def)
  have fresh: "fresh_tag cr q h e c = fresh_tag cr q h e ?b" for q e by (simp add: c_def)
  let ?r = "tag_for_send cr p h t b"
  have r: "?r = (case map_of (cache_tags c) (p, ?e) of
      Some x \<Rightarrow> (c, Some x)
    | None \<Rightarrow> (case fresh_tag cr p h ?e c of
        None \<Rightarrow> (c, None)
      | Some x \<Rightarrow> (c\<lparr>cache_tags := AList.update (p, ?e) x
          (if length (cache_tags c) \<ge> SEND_CACHE_CAP then [] else cache_tags c)\<rparr>, Some x)))"
    unfolding tag_for_send_def Let_def c_def by simp
  show "snd ?r = fresh_tag cr p h ?e ?b"
    using c_ok unfolding r
    by (auto simp: book_ok_def cache_ok_def fresh split: option.splits)
  show "book_ok cr (fst ?r)"
  proof (cases "map_of (cache_tags c) (p, ?e) = None \<and> fresh_tag cr p h ?e c \<noteq> None")
    case True
    then obtain x where x: "map_of (cache_tags c) (p, ?e) = None" "fresh_tag cr p h ?e c = Some x" by auto
    let ?cached = "if length (cache_tags c) \<ge> SEND_CACHE_CAP then [] else cache_tags c"
    have "length (AList.update (p, ?e) x ?cached) \<le> SEND_CACHE_CAP"
      using length_update_le [of "(p, ?e)" x ?cached] by (auto simp: SEND_CACHE_CAP_def)
    moreover have "cache_ok cr (c\<lparr>cache_tags := AList.update (p, ?e) x ?cached\<rparr>)"
      using c_ok x by (auto simp: book_ok_def cache_ok_def update_conv' split: if_splits)
    ultimately show ?thesis using c_ok(1) x unfolding r by (simp add: book_ok_def)
  next
    case False
    then show ?thesis using c_ok unfolding r by (auto split: option.splits)
  qed
qed

datatype book_op =
    Upsert node_id rendezvous_peer
  | RemovePeer node_id
  | UpsertPaired node_id "32 arr"
  | RemovePaired node_id
  | RegisterPairing "node_id list" "16 arr" u64
  | RemovePairing node_id
  | PromotePairing node_id "16 arr" u64 u64
  | RemoveLivePairing node_id u64
  | PairingActive node_id u64
  | Registration string u64
  | TagForSend node_id string u64
  | Resolve tag string u64

fun book_step :: "crypto \<Rightarrow> book_op \<Rightarrow> tag_book \<Rightarrow> tag_book" where
  "book_step cr (Upsert p m) b = upsert p m b"
| "book_step cr (RemovePeer p) b = remove_peer p b"
| "book_step cr (UpsertPaired p s) b = upsert_paired p s b"
| "book_step cr (RemovePaired p) b = remove_paired p b"
| "book_step cr (RegisterPairing draws s x) b =
     (case register_pairing draws s x b of Some (_, b') \<Rightarrow> b' | None \<Rightarrow> b)"
| "book_step cr (RemovePairing r) b = fst (remove_pairing r b)"
| "book_step cr (PromotePairing r s g t) b = fst (promote_pairing r s g t b)"
| "book_step cr (RemoveLivePairing r g) b = fst (remove_live_pairing r g b)"
| "book_step cr (PairingActive r t) b = fst (pairing_active r t b)"
| "book_step cr (Registration h t) b = fst (registration cr h t b)"
| "book_step cr (TagForSend p h t) b = fst (tag_for_send cr p h t b)"
| "book_step cr (Resolve g h t) b = fst (resolve cr g h t b)"

interpretation book: machine "book_step cr" "book_ok cr" for cr
proof
  show "book_ok cr (book_step cr e s)" if "book_ok cr s" for e s
    using that
    by (cases e) (auto simp: book_ok_upsert book_ok_remove_peer book_ok_upsert_paired
        book_ok_remove_paired book_ok_remove_pairing book_ok_promote_pairing
        book_ok_remove_live_pairing pairing_active_def registration_def resolve_def Let_def
        book_ok_prune_expired tag_for_send_correct(1) intro: book_ok_register_pairing
        split: option.splits)
qed

lemma book_ok_with_paired:
  "distinct (map fst ps) \<Longrightarrow> distinct (map fst qs) \<Longrightarrow> book_ok cr (with_paired ps qs)"
  by (simp add: with_paired_def book_ok_def cache_ok_def)

section \<open>Windows and search\<close>

lemma checked_add_signed_iff: "checked_add_signed a i = Some e \<longleftrightarrow> uint e = uint a + i"
proof -
  define x where "x = uint a + i"
  have e: "0 \<le> uint e" "uint e < 2 ^ 64" using unsigned_less [of e, where 'a = int] by simp_all
  have "uint (word_of_int x :: u64) = x" if "0 \<le> x" "x < 2 ^ 64"
    using that by (simp add: unsigned_of_int take_bit_int_eq_self)
  then have "0 \<le> x \<Longrightarrow> x < 2 ^ 64 \<Longrightarrow> word_of_int x = e \<longleftrightarrow> uint e = x"
    by (metis word_of_int_uint)
  then show ?thesis using e unfolding checked_add_signed_def x_def [symmetric] by auto
qed

lemma set_window: "e \<in> set (window t) \<longleftrightarrow> \<bar>uint e - uint (epoch_index t)\<bar> \<le> 1"
proof -
  have "e \<in> set (window t) \<longleftrightarrow> (\<exists>i\<in>{-1, 0, 1}. checked_add_signed (epoch_index t) i = Some e)"
    by (auto simp: window_def EPOCH_WINDOW_def map_filter_simps split: option.splits)
  then show ?thesis by (auto simp: checked_add_signed_iff)
qed

lemma find_key_None: "find_key P es kvs = None \<longleftrightarrow> \<not> (\<exists>(k, v)\<in>set kvs. \<exists>e\<in>set es. P v e)"
  by (induction P es kvs rule: find_key.induct) (auto simp: list_ex_iff)

lemma find_key_Some: "find_key P es kvs = Some k \<Longrightarrow> \<exists>v e. (k, v) \<in> set kvs \<and> e \<in> set es \<and> P v e"
  by (induction P es kvs rule: find_key.induct) (auto simp: list_ex_iff split: if_splits)

lemma in_concat_pairs: "t \<in> set (concat (map (\<lambda>(k, v). f v) al)) \<longleftrightarrow> (\<exists>(k, v)\<in>set al. t \<in> set (f v))"
  by (induction al) auto

lemma in_map_eq: "t \<in> set (map g es) \<longleftrightarrow> (\<exists>e\<in>set es. g e = t)"
  by auto

lemma in_pairing_tags:
  "t \<in> set ((case admission r of Some a \<Rightarrow> map (derive_pairing_tag cr (admission_secret a) h) es | None \<Rightarrow> [])
     @ (case live_route r of Some l \<Rightarrow> map (derive_pairing_tag cr (live_secret l) h) es | None \<Rightarrow> [])) \<longleftrightarrow>
   (\<exists>e\<in>set es. pairing_matches cr t h r e)"
  by (cases "admission r"; cases "live_route r") (auto simp: pairing_matches_def)

lemma set_registration:
  "t \<in> set (snd (registration cr h u b)) \<longleftrightarrow>
   (\<exists>(k, m)\<in>set (peers b). \<exists>e\<in>set (window u). material_tag cr m h e = t) \<or>
   (\<exists>(k, r)\<in>set (pairing (prune_expired u b)). \<exists>e\<in>set (window u). pairing_matches cr t h r e) \<or>
   (\<exists>(k, s)\<in>set (paired b). \<exists>e\<in>set (window u). derive_paired_route_tag cr s h e = t)"
proof -
  have "t \<in> set (xs @ ys @ zs) \<longleftrightarrow> t \<in> set xs \<or> t \<in> set ys \<or> t \<in> set zs" for xs ys zs by simp
  then show ?thesis
    unfolding registration_def Let_def snd_conv
    by (simp only: in_concat_pairs in_pairing_tags in_map_eq prune_expired_simps)
qed

lemma resolve_None_iff:
  "snd (resolve cr t h u b) = None \<longleftrightarrow> t \<notin> set (snd (registration cr h u b))"
proof -
  have "snd (resolve cr t h u b) = None \<longleftrightarrow>
    find_key (\<lambda>m e. material_tag cr m h e = t) (window u) (peers b) = None \<and>
    find_key (pairing_matches cr t h) (window u) (pairing (prune_expired u b)) = None \<and>
    find_key (\<lambda>s e. derive_paired_route_tag cr s h e = t) (window u) (paired b) = None"
    by (simp add: resolve_def Let_def split: option.splits)
  then show ?thesis unfolding set_registration find_key_None by simp
qed

lemma find_key_unique:
  assumes "(k, v) \<in> set kvs" "e \<in> set es" "P v e"
    and "\<And>k' v' e'. (k', v') \<in> set kvs \<Longrightarrow> e' \<in> set es \<Longrightarrow> P v' e' \<Longrightarrow> k' = k"
  shows "find_key P es kvs = Some k"
proof (cases "find_key P es kvs")
  case None
  then show ?thesis using assms(1-3) by (auto simp: find_key_None)
next
  case (Some k')
  then show ?thesis using find_key_Some [OF Some] assms(4) by auto
qed

lemma fresh_tag_card:
  "map_of (peers b) p = Some m \<Longrightarrow> map_of (pairing b) p = None \<Longrightarrow> map_of (paired b) p = None \<Longrightarrow>
   fresh_tag cr p h e b = Some (material_tag cr m h e)"
  by (simp add: fresh_tag_def)

lemma map_of_prune_None: "map_of (pairing b) p = None \<Longrightarrow> map_of (pairing (prune_expired t b)) p = None"
  by (auto simp: pairing_prune_expired map_of_eq_None_iff image_iff split: prod.splits)

section \<open>A roster that does not fit one registration\<close>

lemma oversize_register_refused:
  assumes "length ts > MAX_TAGS_PER_REGISTER"
  shows "frame_decode (frame_encode (Register ts)) = None"
proof (rule ccontr)
  assume "frame_decode (frame_encode (Register ts)) \<noteq> None"
  then obtain f where "frame_decode (frame_encode (Register ts)) = Some f" by blast
  then have f: "frame_ok f" "frame_encode f = frame_encode (Register ts)"
    using frames.dec_sound by blast+
  then obtain ts' where "f = Register ts'"
    by (cases f) (auto simp: frame_bytes one_frame_def routed_def routed_tag_def)
  then have "length ts' \<le> MAX_TAGS_PER_REGISTER"
    "length (frame_encode (Register ts')) = length (frame_encode (Register ts))" using f by auto
  then show False using assms by simp
qed

lemma length_window_le: "length (window t) \<le> 3"
  by (simp add: window_def EPOCH_WINDOW_def map_filter_simps split: option.splits)

lemma length_window: "0 < uint (epoch_index t) \<Longrightarrow> length (window t) = 3"
proof -
  assume pos: "0 < uint (epoch_index t)"
  have "unat t \<le> 2 ^ 64 - 1" using unsigned_less [of t, where 'a = nat] by simp
  then have "unat t div 3600 \<le> (2 ^ 64 - 1) div 3600" by (rule div_le_mono)
  then have "unat (epoch_index t) + 1 < 2 ^ 64" by (simp add: unat_epoch_index)
  then have "int (unat (epoch_index t) + 1) < int (2 ^ 64)" by (simp only: of_nat_less_iff)
  then have le: "uint (epoch_index t) + 1 < 2 ^ 64" by simp
  have "checked_add_signed (epoch_index t) i \<noteq> None" if "i \<in> {-1, 0, 1}" for i
    using that le pos by (auto simp: checked_add_signed_def)
  then show ?thesis by (auto simp: window_def EPOCH_WINDOW_def map_filter_simps split: option.splits)
qed

text \<open>With 86 card peers, once the first epoch is over, the registration of every relay is a frame
  the relay refuses.\<close>

lemma large_roster_refused:
  assumes "86 \<le> length (peers b)" "0 < uint (epoch_index t)"
  shows "frame_decode (frame_encode (Register (snd (registration cr h t b)))) = None"
proof (rule oversize_register_refused)
  have "length (concat (map (\<lambda>(_, m). map (material_tag cr m h) (window t)) (peers b))) =
    3 * length (peers b)"
    using length_window [OF assms(2)] by (simp add: length_concat comp_def split_beta sum_list_triv)
  then show "MAX_TAGS_PER_REGISTER < length (snd (registration cr h t b))"
    using assms(1) by (simp add: registration_def Let_def MAX_TAGS_PER_REGISTER_def)
qed

section \<open>Properties\<close>

text \<open>C30: the send cache is transparent. After any sequence of operations on a book that started
  with distinct peers, the tag stamped on an outbound datagram is the one a fresh derivation gives
  for this peer, this relay host and the current epoch, whatever was cached before: after a card
  rotation, a removed or expired route, a move to another relay or an epoch's end no stale tag is
  sent.\<close>

theorem send_tag_is_fresh:
  assumes "distinct (map fst ps)" and "distinct (map fst qs)"
  shows "snd (tag_for_send cr p h t (fold (book_step cr) ops (with_paired ps qs))) =
    fresh_tag cr p h (epoch_index t) (prune_expired t (fold (book_step cr) ops (with_paired ps qs)))"
  by (rule tag_for_send_correct(2) [OF book.run_inv [OF book_ok_with_paired [OF assms]]])

theorem send_tag_is_fresh_witness:
  "let n = NodeId (mk_arr [1]);
       m = \<lparr>rv_case = CaseNone, static_x = mk_arr [2], eph_x = mk_arr []\<rparr>;
       b = fold (book_step plain_crypto) [TagForSend n ''r'' 7200, Upsert n (m\<lparr>static_x := mk_arr [3]\<rparr>)]
             (with_paired [(n, m)] [])
   in snd (tag_for_send plain_crypto n ''r'' 7200 b) =
      fresh_tag plain_crypto n ''r'' (epoch_index 7200) (prune_expired 7200 b)"
  unfolding Let_def by (rule send_tag_is_fresh) simp_all

text \<open>An inbound tag is attributed to a peer exactly when it is one this endpoint registers
  with that relay at that moment; every other tag is dropped.\<close>

theorem resolve_iff_registered:
  "(\<exists>p. snd (resolve cr t h u b) = Some p) \<longleftrightarrow> t \<in> set (snd (registration cr h u b))"
  using resolve_None_iff [of cr t h u b] by auto

text \<open>The two ends of a pair meet within an epoch of clock skew. When \<open>a\<close>'s book has \<open>b\<close> with
  the pair's material and \<open>b\<close>'s book has \<open>a\<close> with the same, and their clocks are at most one epoch
  apart, the tag \<open>a\<close> sends with is one \<open>b\<close> has registered, and \<open>b\<close> attributes it to \<open>a\<close>, provided no
  other peer of \<open>b\<close> has a tag that collides with it.\<close>

theorem pair_meets_within_one_epoch:
  assumes "book_ok cr book_a" "map_of (peers book_a) b = Some m"
    and "map_of (pairing book_a) b = None" "map_of (paired book_a) b = None"
    and "(a, m) \<in> set (peers book_b)"
    and "\<bar>uint (epoch_index now_a) - uint (epoch_index now_b)\<bar> \<le> 1"
    and "\<forall>(k, m')\<in>set (peers book_b). \<forall>e\<in>set (window now_b).
           material_tag cr m' h e = material_tag cr m h (epoch_index now_a) \<longrightarrow> k = a"
  shows "\<exists>t. snd (tag_for_send cr b h now_a book_a) = Some t \<and>
    t \<in> set (snd (registration cr h now_b book_b)) \<and> snd (resolve cr t h now_b book_b) = Some a"
proof (intro exI conjI)
  let ?t = "material_tag cr m h (epoch_index now_a)"
  have w: "epoch_index now_a \<in> set (window now_b)" using assms(6) by (simp add: set_window)
  show "snd (tag_for_send cr b h now_a book_a) = Some ?t"
    using tag_for_send_correct(2) [OF assms(1)] assms(2-4)
    by (simp add: fresh_tag_card map_of_prune_None)
  show "?t \<in> set (snd (registration cr h now_b book_b))"
    unfolding set_registration using assms(5) w by blast
  have "find_key (\<lambda>m e. material_tag cr m h e = ?t) (window now_b) (peers book_b) = Some a"
    using assms(5,7) w by (intro find_key_unique) auto
  then show "snd (resolve cr ?t h now_b book_b) = Some a"
    by (simp add: resolve_def Let_def)
qed

theorem pair_meets_within_one_epoch_witness:
  "let a = NodeId (mk_arr [1]); b = NodeId (mk_arr [2]);
       m = \<lparr>rv_case = CaseNone, static_x = mk_arr [5], eph_x = mk_arr []\<rparr>
   in \<exists>t. snd (tag_for_send plain_crypto b ''r'' 7199 (with_paired [(b, m)] [])) = Some t \<and>
        t \<in> set (snd (registration plain_crypto ''r'' 7200 (with_paired [(a, m)] []))) \<and>
        snd (resolve plain_crypto t ''r'' 7200 (with_paired [(a, m)] [])) = Some a"
  unfolding Let_def
  by (rule pair_meets_within_one_epoch [where m = "\<lparr>rv_case = CaseNone, static_x = mk_arr [5], eph_x = mk_arr []\<rparr>"])
    (simp_all add: book_ok_with_paired epoch_index_def EPOCH_SECONDS_def, simp_all add: with_paired_def)

end
