(* ===== verification/Streams.thy ===== *)
theory Streams
  imports Link_Prelude
begin

text \<open>
  The two halves of a QUIC stream as the program uses them, the slice helper \<open>chunks\<close> and
  the \<open>hex\<close> crate. A receiving half is the bytes that will still arrive before it ends, by a
  clean finish or by a reset; \<open>read_exact\<close> fails on a shorter stream either way. A sending
  half collects what was written; \<open>room\<close> is the number of bytes the connection still takes
  before it breaks, \<open>None\<close> for a connection that does not break.
\<close>

section \<open>Results\<close>

text \<open>\<open>Result::ok\<close>.\<close>

fun result_ok :: "'e + 'a \<Rightarrow> 'a option" where
  "result_ok (Inl _) = None"
| "result_ok (Inr a) = Some a"

lemma result_ok_eq_Some [simp]: "result_ok r = Some a \<longleftrightarrow> r = Inr a"
  by (cases r) auto

section \<open>Slices in pieces\<close>

text \<open>\<open>slice::chunks(n)\<close>: pieces of \<open>n\<close> elements, the last one shorter.\<close>

fun chunks :: "nat \<Rightarrow> 'a list \<Rightarrow> 'a list list" where
  "chunks 0 xs = []"
| "chunks n [] = []"
| "chunks (Suc n) xs = take (Suc n) xs # chunks (Suc n) (drop (Suc n) xs)"

lemma concat_chunks: "0 < n \<Longrightarrow> concat (chunks n xs) = xs"
  by (induction n xs rule: chunks.induct) (auto simp del: take_Suc_Cons drop_Suc_Cons)

lemma chunks_nonempty: "c \<in> set (chunks n xs) \<Longrightarrow> c \<noteq> [] \<and> length c \<le> n"
  by (induction n xs rule: chunks.induct) auto

lemma chunks_step:
  "0 < n \<Longrightarrow> xs \<noteq> [] \<Longrightarrow> chunks n xs = take n xs # chunks n (drop n xs)"
  by (cases n; cases xs) auto

lemma chunks_Nil [simp]: "chunks n [] = []"
  by (cases n) auto

section \<open>Receiving\<close>

definition read_exact :: "nat \<Rightarrow> bytes \<Rightarrow> (bytes \<times> bytes) option" where
  "read_exact n recv = (if length recv < n then None else Some (take n recv, drop n recv))"

lemma read_exact_eq_Some:
  "read_exact n recv = Some (b, rest) \<longleftrightarrow> recv = b @ rest \<and> length b = n"
  by (auto simp: read_exact_def split: if_splits)

lemma read_exact_append [simp]: "length b = n \<Longrightarrow> read_exact n (b @ rest) = Some (b, rest)"
  by (simp add: read_exact_eq_Some)

lemma read_exact_eq_None [simp]: "read_exact n recv = None \<longleftrightarrow> length recv < n"
  by (simp add: read_exact_def)

section \<open>Sending\<close>

record send_stream =
  written :: bytes
  finished :: bool
  room :: "nat option"

definition send_new :: "nat option \<Rightarrow> send_stream" where
  "send_new r = \<lparr>written = [], finished = False, room = r\<rparr>"

definition write_all :: "bytes \<Rightarrow> send_stream \<Rightarrow> (string + unit) \<times> send_stream" where
  "write_all b s =
     (case room s of
        None \<Rightarrow> (Inr (), s\<lparr>written := written s @ b\<rparr>)
      | Some r \<Rightarrow>
          if length b \<le> r then (Inr (), s\<lparr>written := written s @ b, room := Some (r - length b)\<rparr>)
          else (Inl ''connection lost'', s\<lparr>written := written s @ take r b, room := Some 0\<rparr>))"

text \<open>\<open>SendStream::finish\<close> fails only on a stream finished or reset before, which none of the
  callers below has.\<close>

definition finish :: "send_stream \<Rightarrow> send_stream" where
  "finish s = s\<lparr>finished := True\<rparr>"

lemma finish_simps [simp]:
  "written (finish s) = written s" "finished (finish s)" "room (finish s) = room s"
  by (simp_all add: finish_def)

lemma write_all_Ok:
  "write_all b s = (Inr u, s') \<Longrightarrow> written s' = written s @ b \<and> finished s' = finished s"
  by (auto simp: write_all_def split: option.splits if_splits)

lemma write_all_finished [simp]: "finished (snd (write_all b s)) = finished s"
  by (auto simp: write_all_def split: option.splits)

lemma write_all_sound:
  "room s = None \<Longrightarrow> write_all b s = (Inr (), s\<lparr>written := written s @ b\<rparr>)"
  by (simp add: write_all_def)

section \<open>The hex crate\<close>

record hex_lib =
  hex_encode :: "bytes \<Rightarrow> string"
  hex_decode :: "string \<Rightarrow> bytes option"

definition HEX_DIGITS :: string where "HEX_DIGITS = ''0123456789abcdef''"

definition lower_hex :: "char \<Rightarrow> bool" where
  "lower_hex c \<longleftrightarrow> c \<in> set HEX_DIGITS"

text \<open>The crate's documentation: \<open>encode\<close> writes two lower-case digits a byte, \<open>decode\<close> reads
  them back, and every text of an even number of lower-case digits decodes.\<close>

definition hex_correct :: "hex_lib \<Rightarrow> bool" where
  "hex_correct hx \<longleftrightarrow>
     (\<forall>b. length (hex_encode hx b) = 2 * length b \<and> list_all lower_hex (hex_encode hx b) \<and>
          hex_decode hx (hex_encode hx b) = Some b) \<and>
     (\<forall>s. list_all lower_hex s \<and> even (length s) \<longrightarrow>
          (\<exists>b. hex_decode hx s = Some b \<and> hex_encode hx b = s))"

text \<open>A concrete instance, the input at which theorems with this hypothesis are evaluated.\<close>

fun unhex :: "string \<Rightarrow> bytes option" where
  "unhex [] = Some []"
| "unhex [_] = None"
| "unhex (a # b # cs) =
     (case (map_of (zip HEX_DIGITS [0..<16]) a, map_of (zip HEX_DIGITS [0..<16]) b, unhex cs) of
        (Some i, Some j, Some bs) \<Rightarrow> Some (word_of_nat (16 * i + j) # bs)
      | _ \<Rightarrow> None)"

definition plain_hex :: hex_lib where
  "plain_hex =
     \<lparr>hex_encode = \<lambda>b. concat (map (\<lambda>w. [HEX_DIGITS ! (unat w div 16), HEX_DIGITS ! (unat w mod 16)]) b),
      hex_decode = unhex\<rparr>"

lemma length_HEX_DIGITS [simp]: "length HEX_DIGITS = 16"
  by (simp add: HEX_DIGITS_def)

lemma hex_digit_position:
  assumes "i < 16"
  shows "map_of (zip HEX_DIGITS [0..<16]) (HEX_DIGITS ! i) = Some i"
proof -
  have "distinct HEX_DIGITS" by (simp add: HEX_DIGITS_def)
  then show ?thesis using map_of_zip_nth [of HEX_DIGITS "[0..<16]" i] assms by simp
qed

lemma lower_hex_nth: "lower_hex c \<Longrightarrow> \<exists>i<16. c = HEX_DIGITS ! i"
  unfolding lower_hex_def by (auto simp: in_set_conv_nth)

lemma unat_byte_less: "unat (w :: u8) < 256"
  using unsigned_less [of w, where 'a = nat] by simp

lemma lower_hex_digit: "i < 16 \<Longrightarrow> lower_hex (HEX_DIGITS ! i)"
  by (simp add: lower_hex_def)

lemma unhex_encode:
  "unhex (concat (map (\<lambda>w. [HEX_DIGITS ! (unat w div 16), HEX_DIGITS ! (unat w mod 16)]) b)) = Some b"
proof (induction b)
  case Nil
  then show ?case by simp
next
  case (Cons w b)
  have "unat w div 16 < 16" using unat_byte_less [of w] by auto
  with Cons show ?case by (simp add: hex_digit_position)
qed

lemma unhex_lower:
  "list_all lower_hex s \<and> even (length s) \<Longrightarrow>
   \<exists>b. unhex s = Some b \<and>
     concat (map (\<lambda>w. [HEX_DIGITS ! (unat w div 16), HEX_DIGITS ! (unat w mod 16)]) b) = s"
proof (induction s rule: unhex.induct)
  case (3 x y cs)
  obtain i j where ij: "i < 16" "x = HEX_DIGITS ! i" "j < 16" "y = HEX_DIGITS ! j"
    using 3(2) lower_hex_nth [of x] lower_hex_nth [of y] by force
  obtain b where b: "unhex cs = Some b"
      "concat (map (\<lambda>w. [HEX_DIGITS ! (unat w div 16), HEX_DIGITS ! (unat w mod 16)]) b) = cs"
    using 3(1) 3(2) by force
  have "unat (word_of_nat (16 * i + j) :: u8) = 16 * i + j"
    using ij by (simp add: unat_of_nat del: of_nat_add of_nat_mult)
  then show ?case
    using ij b by (intro exI [of _ "word_of_nat (16 * i + j) # b"])
      (simp add: hex_digit_position del: of_nat_add of_nat_mult)
qed auto

lemma plain_hex_correct: "hex_correct plain_hex"
proof -
  have "unat (w :: u8) div 16 < 16" for w using unat_byte_less [of w] by auto
  then have "length (hex_encode plain_hex b) = 2 * length b \<and>
      list_all lower_hex (hex_encode plain_hex b)" for b
    by (induction b) (simp_all add: plain_hex_def lower_hex_digit)
  then show ?thesis
    using unhex_encode unhex_lower by (simp add: hex_correct_def plain_hex_def)
qed

end
