(* ===== verification/Relay_Spec.thy ===== *)
theory Relay_Spec
  imports Wire Streams
begin

text \<open>
  \<open>link-endpoint/src/relay_client.rs\<close>, the part about relay URLs: \<open>RelaySpec\<close>, its parts, the
  host a node signs against, the URL a browser opens and \<open>canonical_host\<close>, with the parts of the
  standard library it uses (splitting, decimal and hexadecimal numbers, IP address text).
\<close>

section \<open>Text\<close>

definition strip_prefix :: "string \<Rightarrow> string \<Rightarrow> string option" where
  "strip_prefix p s = (if take (length p) s = p then Some (drop (length p) s) else None)"

definition strip_suffix :: "string \<Rightarrow> string \<Rightarrow> string option" where
  "strip_suffix p s = map_option rev (strip_prefix (rev p) (rev s))"

definition split_once :: "char \<Rightarrow> string \<Rightarrow> (string \<times> string) option" where
  "split_once c s =
     (if c \<in> set s then Some (takeWhile (\<lambda>x. x \<noteq> c) s, tl (dropWhile (\<lambda>x. x \<noteq> c) s)) else None)"

definition rsplit_once :: "char \<Rightarrow> string \<Rightarrow> (string \<times> string) option" where
  "rsplit_once c s = map_option (\<lambda>(a, b). (rev b, rev a)) (split_once c (rev s))"

fun split_on :: "char \<Rightarrow> string \<Rightarrow> string list" where
  "split_on c [] = [[]]"
| "split_on c (x # xs) =
     (if x = c then [] # split_on c xs
      else case split_on c xs of p # ps \<Rightarrow> (x # p) # ps | [] \<Rightarrow> [[x]])"

definition ascii :: "char \<Rightarrow> int" where "ascii c = of_char c"

definition is_ascii_graphic :: "char \<Rightarrow> bool" where
  "is_ascii_graphic c \<longleftrightarrow> 33 \<le> ascii c \<and> ascii c \<le> 126"

definition is_ascii_digit :: "char \<Rightarrow> bool" where
  "is_ascii_digit c \<longleftrightarrow> 48 \<le> ascii c \<and> ascii c \<le> 57"

definition is_ascii_lowercase :: "char \<Rightarrow> bool" where
  "is_ascii_lowercase c \<longleftrightarrow> 97 \<le> ascii c \<and> ascii c \<le> 122"

definition is_ascii_hexdigit :: "char \<Rightarrow> bool" where
  "is_ascii_hexdigit c \<longleftrightarrow> is_ascii_digit c \<or> 97 \<le> ascii c \<and> ascii c \<le> 102 \<or> 65 \<le> ascii c \<and> ascii c \<le> 70"

definition lower :: "char \<Rightarrow> char" where
  "lower c = (if 65 \<le> ascii c \<and> ascii c \<le> 90 then char_of (ascii c + 32) else c)"

definition to_ascii_lowercase :: "string \<Rightarrow> string" where
  "to_ascii_lowercase = map lower"

text \<open>Decimal and hexadecimal numbers.\<close>

definition digit_value :: "char \<Rightarrow> int" where
  "digit_value c =
     (if is_ascii_digit c then ascii c - 48
      else if is_ascii_lowercase c then ascii c - 87 else ascii c - 55)"

definition digit_char :: "int \<Rightarrow> char" where
  "digit_char n = (if n < 10 then char_of (48 + n) else char_of (87 + n))"

definition number_value :: "int \<Rightarrow> string \<Rightarrow> int" where
  "number_value radix s = foldl (\<lambda>n c. radix * n + digit_value c) 0 s"

function number_text :: "int \<Rightarrow> int \<Rightarrow> string" where
  "number_text radix n =
     (if radix < 2 \<or> n < radix then [digit_char n]
      else number_text radix (n div radix) @ [digit_char (n mod radix)])"
  by auto

termination
proof (relation "measure (\<lambda>(_, n). nat n)", goal_cases)
  case (2 radix n)
  then have "n div radix < n" by (intro int_div_less_self) auto
  then show ?case using 2 by simp
qed simp

declare number_text.simps [simp del]

text \<open>\<open>str::parse::<u16>\<close> on digits.\<close>

definition parse_u16 :: "string \<Rightarrow> u16 option" where
  "parse_u16 s =
     (if s \<noteq> '''' \<and> list_all is_ascii_digit s \<and> number_value 10 s < 65536
      then Some (word_of_int (number_value 10 s)) else None)"

text \<open>\<open>Ipv4Addr\<close>: four numbers of one to three digits, without leading zeros.\<close>

definition parse_ipv4 :: "string \<Rightarrow> int list option" where
  "parse_ipv4 s =
     (let ps = split_on CHR ''.'' s
      in if length ps = 4 \<and>
            list_all (\<lambda>p. p \<noteq> '''' \<and> length p \<le> 3 \<and> list_all is_ascii_digit p \<and>
              (p = ''0'' \<or> hd p \<noteq> CHR ''0'') \<and> number_value 10 p \<le> 255) ps
         then Some (map (number_value 10) ps) else None)"

fun join_with :: "string \<Rightarrow> string list \<Rightarrow> string" where
  "join_with sep [] = ''''"
| "join_with sep [x] = x"
| "join_with sep (x # xs) = x @ sep @ join_with sep xs"

definition ipv4_text :: "int list \<Rightarrow> string" where
  "ipv4_text ps = join_with ''.'' (map (number_text 10) ps)"

text \<open>
  \<open>Ipv6Addr\<close>, for text without a dot (\<open>canonical_host\<close> accepts no other): groups of one to four
  hexadecimal digits, with at most one \<open>::\<close> standing for at least one zero group.
\<close>

definition ipv6_groups :: "string \<Rightarrow> int list option" where
  "ipv6_groups s =
     (if s = '''' then Some []
      else let gs = split_on CHR '':'' s
           in if list_all (\<lambda>g. g \<noteq> '''' \<and> length g \<le> 4 \<and> list_all is_ascii_hexdigit g) gs
              then Some (map (number_value 16) gs) else None)"

fun split_double :: "string \<Rightarrow> (string \<times> string) option" where
  "split_double [] = None"
| "split_double [_] = None"
| "split_double (a # b # cs) =
     (if a = CHR '':'' \<and> b = CHR '':'' then Some ('''', cs)
      else map_option (\<lambda>(h, t). (a # h, t)) (split_double (b # cs)))"

definition parse_ipv6 :: "string \<Rightarrow> int list option" where
  "parse_ipv6 s =
     (case split_double s of
        None \<Rightarrow> (case ipv6_groups s of Some gs \<Rightarrow> if length gs = 8 then Some gs else None | None \<Rightarrow> None)
      | Some (h, t) \<Rightarrow>
          (case (ipv6_groups h, ipv6_groups t) of
             (Some hs, Some ts) \<Rightarrow>
               if length hs + length ts \<le> 7
               then Some (hs @ replicate (8 - length hs - length ts) 0 @ ts) else None
           | _ \<Rightarrow> None))"

text \<open>The first longest run of zero groups: start and length.\<close>

fun longest_zeros :: "nat \<Rightarrow> nat \<times> nat \<Rightarrow> nat \<times> nat \<Rightarrow> int list \<Rightarrow> nat \<times> nat" where
  "longest_zeros i (cs, cl) (ls, ll) [] = (ls, ll)"
| "longest_zeros i (cs, cl) (ls, ll) (g # gs) =
     (if g = 0 then
        let cur = (if cl = 0 then i else cs, cl + 1)
        in longest_zeros (i + 1) cur (if cl + 1 > ll then cur else (ls, ll)) gs
      else longest_zeros (i + 1) (0, 0) (ls, ll) gs)"

definition ipv6_text :: "int list \<Rightarrow> string" where
  "ipv6_text gs =
     (let hex = (\<lambda>xs. join_with '':'' (map (number_text 16) xs))
      in if take 6 gs = [0, 0, 0, 0, 0, 0xffff]
         then ''::ffff:'' @ ipv4_text [gs ! 6 div 256, gs ! 6 mod 256, gs ! 7 div 256, gs ! 7 mod 256]
         else let (s, l) = longest_zeros 0 (0, 0) (0, 0) gs
              in if l > 1 then hex (take s gs) @ ''::'' @ hex (drop (s + l) gs) else hex gs)"

section \<open>Relay specifications\<close>

record relay_spec =
  spec_url :: string
  cert_sha256 :: "string option"
  insecure_tls :: bool

definition spec_plain :: "string \<Rightarrow> relay_spec" where
  "spec_plain u = \<lparr>spec_url = u, cert_sha256 = None, insecure_tls = False\<rparr>"

definition spec_pinned :: "string \<Rightarrow> string \<Rightarrow> relay_spec" where
  "spec_pinned u c = \<lparr>spec_url = u, cert_sha256 = Some c, insecure_tls = False\<rparr>"

definition dns_label :: "string \<Rightarrow> bool" where
  "dns_label label \<longleftrightarrow> 1 \<le> length label \<and> length label \<le> 63 \<and> hd label \<noteq> CHR ''-'' \<and>
     last label \<noteq> CHR ''-'' \<and>
     list_all (\<lambda>c. is_ascii_lowercase c \<or> is_ascii_digit c \<or> c = CHR ''-'') label"

definition canonical_host :: "string \<Rightarrow> bool" where
  "canonical_host host =
     (case Option.bind (strip_prefix ''['' host) (strip_suffix '']'') of
        Some inner \<Rightarrow>
          (case (if CHR ''.'' \<in> set inner then None else parse_ipv6 inner) of
             Some addr \<Rightarrow> ipv6_text addr = inner
           | None \<Rightarrow> False)
      | None \<Rightarrow>
          let labels = split_on CHR ''.'' host;
              final = last labels;
              numeric = final \<noteq> '''' \<and> (list_all is_ascii_digit final \<or>
                (case strip_prefix ''0x'' final of Some hex \<Rightarrow> list_all is_ascii_hexdigit hex | None \<Rightarrow> False))
          in if numeric then
               (case parse_ipv4 host of Some addr \<Rightarrow> ipv4_text addr = host | None \<Rightarrow> False)
             else length host \<le> 253 \<and> list_all dns_label labels)"

text \<open>The character check and the rest of \<open>parts\<close>, from the split of authority and path.\<close>

definition url_char :: "char \<Rightarrow> bool" where
  "url_char c \<longleftrightarrow> is_ascii_graphic c \<and> c \<notin> {CHR ''%'', CHR 0x5C, CHR ''#''}"

definition split_authority :: "string \<Rightarrow> string \<times> string" where
  "split_authority rest =
     (case split_once CHR ''/'' rest of Some (a, p) \<Rightarrow> (a, CHR ''/'' # p) | None \<Rightarrow> (rest, ''/''))"

definition split_port :: "bool \<Rightarrow> string \<Rightarrow> string \<times> u16 option" where
  "split_port tls authority =
     (let dflt = (authority, Some (if tls then 443 else 80))
      in case rsplit_once CHR '':'' authority of
           Some (h, p) \<Rightarrow> if h \<noteq> '''' \<and> list_all is_ascii_digit p then (h, parse_u16 p) else dflt
         | None \<Rightarrow> dflt)"

definition url_parts :: "bool \<Rightarrow> string \<Rightarrow> string + bool \<times> string \<times> u16 \<times> string" where
  "url_parts tls rest =
     (let (authority, path) = split_authority rest;
          (host, pn) = split_port tls authority
      in case pn of
           None \<Rightarrow> Inl ''invalid port''
         | Some n \<Rightarrow>
             let host = to_ascii_lowercase host
             in if \<not> canonical_host host then Inl ''relay URL host is not canonical''
                else Inr (tls, host, n, path))"

definition spec_parts :: "relay_spec \<Rightarrow> string + bool \<times> string \<times> u16 \<times> string" where
  "spec_parts self =
     (case (case strip_prefix ''wss://'' (spec_url self) of
              Some rest \<Rightarrow> Some (True, rest)
            | None \<Rightarrow> map_option (\<lambda>rest. (False, rest)) (strip_prefix ''ws://'' (spec_url self))) of
        None \<Rightarrow> Inl ''relay URL must start with ws:// or wss://''
      | Some (tls, rest) \<Rightarrow>
          if \<not> list_all url_char (spec_url self)
          then Inl ''relay URL must be printable ASCII without escapes''
          else url_parts tls rest)"

definition spec_host :: "relay_spec \<Rightarrow> string + string" where
  "spec_host self = (case spec_parts self of Inl e \<Rightarrow> Inl e | Inr (_, h, _) \<Rightarrow> Inr h)"

definition browser_url :: "relay_spec \<Rightarrow> string + string" where
  "browser_url self =
     (if cert_sha256 self \<noteq> None then Inl ''a browser cannot check a pinned certificate''
      else if insecure_tls self then Inl ''a browser never accepts an unverified certificate''
      else case spec_parts self of
             Inl e \<Rightarrow> Inl e
           | Inr (tls, host, n, path) \<Rightarrow>
               if \<not> tls then Inl ''a browser reaches relays only over wss://''
               else Inr (''wss://'' @ host @ '':'' @ number_text 10 (uint n) @ path))"

section \<open>Lemmas on text\<close>

lemma strip_prefix_append [simp]: "strip_prefix p (p @ s) = Some s"
  by (simp add: strip_prefix_def)

lemma strip_prefix_eq_Some: "strip_prefix p s = Some r \<longleftrightarrow> s = p @ r"
  by (auto simp: strip_prefix_def split: if_splits) (metis append_take_drop_id)

lemma takeWhile_not_in: "c \<notin> set a \<Longrightarrow> takeWhile (\<lambda>x. x \<noteq> c) (a @ c # b) = a"
  by (induction a) auto

lemma dropWhile_not_in: "c \<notin> set a \<Longrightarrow> dropWhile (\<lambda>x. x \<noteq> c) (a @ c # b) = c # b"
  by (induction a) auto

lemma split_once_append: "c \<notin> set a \<Longrightarrow> split_once c (a @ c # b) = Some (a, b)"
  by (simp add: split_once_def takeWhile_not_in dropWhile_not_in)

lemma split_once_SomeD: "split_once c s = Some (a, b) \<Longrightarrow> s = a @ c # b \<and> c \<notin> set a"
proof -
  assume h: "split_once c s = Some (a, b)"
  then have "c \<in> set s" by (auto simp: split_once_def split: if_splits)
  then obtain u v where "s = u @ c # v" "c \<notin> set u" by (meson split_list_first)
  with h split_once_append [of c u v] show ?thesis by simp
qed

lemma split_once_None: "split_once c s = None \<longleftrightarrow> c \<notin> set s"
  by (simp add: split_once_def)

lemma rsplit_once_append: "c \<notin> set b \<Longrightarrow> rsplit_once c (a @ c # b) = Some (a, b)"
  using split_once_append [of c "rev b" "rev a"] by (simp add: rsplit_once_def)

lemma rsplit_once_SomeD: "rsplit_once c s = Some (a, b) \<Longrightarrow> s = a @ c # b"
  unfolding rsplit_once_def
  by (auto dest!: split_once_SomeD) (metis append.assoc append_Cons append_Nil rev_append rev_rev_ident
      rev_singleton_conv rev.simps(2))

lemma ascii_char_of: "0 \<le> n \<Longrightarrow> n < 256 \<Longrightarrow> ascii (char_of n) = n"
  by (simp add: ascii_def)

lemma ascii_inject: "ascii a = ascii b \<longleftrightarrow> a = b"
  by (simp add: ascii_def)

lemma digit_char_digit:
  "0 \<le> n \<Longrightarrow> n < 10 \<Longrightarrow> is_ascii_digit (digit_char n) \<and> digit_value (digit_char n) = n"
  by (simp add: digit_char_def is_ascii_digit_def digit_value_def ascii_char_of)

lemma number_text_induct:
  assumes "0 \<le> n" and "\<And>n. 0 \<le> n \<Longrightarrow> n < 10 \<Longrightarrow> P [digit_char n] n"
    and "\<And>n s. 10 \<le> n \<Longrightarrow> P s (n div 10) \<Longrightarrow> P (s @ [digit_char (n mod 10)]) n"
  shows "P (number_text 10 n) n"
  using assms(1)
proof (induction "nat n" arbitrary: n rule: less_induct)
  case less
  show ?case
  proof (cases "n < 10")
    case True
    then show ?thesis using assms(2) less.prems by (simp add: number_text.simps [of 10 n])
  next
    case False
    then have "P (number_text 10 (n div 10)) (n div 10)" by (intro less.hyps) auto
    then show ?thesis using assms(3) False by (simp add: number_text.simps [of 10 n])
  qed
qed

lemma number_text_digits:
  "0 \<le> n \<Longrightarrow> list_all is_ascii_digit (number_text 10 n) \<and> number_text 10 n \<noteq> ''''"
  by (rule number_text_induct) (simp_all add: digit_char_digit)

lemma number_value_text: "0 \<le> n \<Longrightarrow> number_value 10 (number_text 10 n) = n"
  by (rule number_text_induct) (simp_all add: digit_char_digit number_value_def)

lemma parse_u16_text: "parse_u16 (number_text 10 (uint n)) = Some n"
  using unsigned_less [of n, where 'a = int] number_text_digits [of "uint n"] number_value_text [of "uint n"]
  by (simp add: parse_u16_def)

lemma lower_idem [simp]: "lower (lower c) = lower c"
  by (auto simp: lower_def ascii_char_of)

lemma to_ascii_lowercase_idem [simp]: "to_ascii_lowercase (to_ascii_lowercase s) = to_ascii_lowercase s"
  by (simp add: to_ascii_lowercase_def)

lemma lower_cases: "lower c = c \<or> 97 \<le> ascii (lower c) \<and> ascii (lower c) \<le> 122"
  by (auto simp: lower_def ascii_char_of)

lemma canonical_host_nonempty: "canonical_host h \<Longrightarrow> h \<noteq> ''''"
  by (auto simp: canonical_host_def strip_prefix_def dns_label_def)

lemma ascii_eq_iff: "c = d \<longleftrightarrow> ascii c = ascii d"
  by (simp add: ascii_inject)

lemma url_char_lower: "url_char c \<Longrightarrow> url_char (lower c)"
  using lower_cases [of c]
  by (auto simp: url_char_def is_ascii_graphic_def) (auto simp: ascii_def)

lemma slash_lower: "lower c = CHR ''/'' \<longleftrightarrow> c = CHR ''/''"
  using lower_cases [of c] by (auto simp: lower_def ascii_def)

lemma digit_url_char: "is_ascii_digit c \<Longrightarrow> url_char c \<and> c \<noteq> CHR '':'' \<and> c \<noteq> CHR ''/''"
  by (auto simp: url_char_def is_ascii_digit_def is_ascii_graphic_def ascii_def)

section \<open>Relay URLs\<close>

lemma url_parts_text:
  assumes "CHR ''/'' \<notin> set h" "canonical_host h" "to_ascii_lowercase h = h"
  shows "url_parts tls (h @ '':'' @ number_text 10 (uint n) @ CHR ''/'' # p) = Inr (tls, h, n, CHR ''/'' # p)"
proof -
  let ?d = "number_text 10 (uint n)"
  have d: "list_all is_ascii_digit ?d" "CHR ''/'' \<notin> set ?d" "CHR '':'' \<notin> set ?d"
    using number_text_digits [of "uint n"] digit_url_char by (auto simp: list_all_iff)
  have "CHR ''/'' \<notin> set (h @ CHR '':'' # ?d)" using assms(1) d by simp
  then have s: "split_authority (h @ '':'' @ ?d @ CHR ''/'' # p) = (h @ CHR '':'' # ?d, CHR ''/'' # p)"
    using split_once_append [of "CHR ''/''" "h @ CHR '':'' # ?d" p] by (simp add: split_authority_def)
  have "split_port tls (h @ CHR '':'' # ?d) = (h, Some n)"
    using rsplit_once_append [OF d(3)] d(1) canonical_host_nonempty [OF assms(2)]
    by (simp add: split_port_def Let_def parse_u16_text)
  then show ?thesis using assms unfolding url_parts_def s by simp
qed

lemma split_authority_facts:
  assumes "list_all url_char rest" "split_authority rest = (authority, path)"
  shows "CHR ''/'' \<notin> set authority \<and> list_all url_char authority \<and> list_all url_char path \<and>
    (\<exists>p. path = CHR ''/'' # p)"
  using assms unfolding split_authority_def
  by (auto simp: split_once_None list_all_iff dest!: split_once_SomeD split: option.splits)
    (auto simp: url_char_def is_ascii_graphic_def ascii_def)

lemma split_port_facts:
  assumes "list_all url_char authority" "CHR ''/'' \<notin> set authority"
    and "split_port tls authority = (host, Some n)"
  shows "list_all url_char host \<and> CHR ''/'' \<notin> set host"
  using assms unfolding split_port_def Let_def
  by (auto simp: parse_u16_def list_all_iff dest!: rsplit_once_SomeD split: option.splits if_splits)

lemma spec_parts_url_parts:
  assumes "spec_parts self = Inr q"
  obtains tls rest where "list_all url_char rest" "url_parts tls rest = Inr q"
  using assms unfolding spec_parts_def
  by (auto simp: strip_prefix_eq_Some split: option.splits if_splits)

lemma spec_parts_facts:
  assumes "spec_parts self = Inr (tls, h, n, path)"
  shows "to_ascii_lowercase h = h \<and> canonical_host h \<and> list_all url_char h \<and>
    CHR ''/'' \<notin> set h \<and> list_all url_char path \<and> (\<exists>p. path = CHR ''/'' # p)"
proof -
  obtain tls' rest where rest: "list_all url_char rest" and p: "url_parts tls' rest = Inr (tls, h, n, path)"
    using assms by (rule spec_parts_url_parts)
  obtain authority path' where a: "split_authority rest = (authority, path')" by (rule prod.exhaust)
  obtain host pn where b: "split_port tls' authority = (host, pn)" by (rule prod.exhaust)
  obtain m where m: "pn = Some m"
    using p by (cases pn) (simp_all add: url_parts_def a b)
  then have q: "h = to_ascii_lowercase host" "canonical_host h" "path = path'" "m = n"
    using p by (simp_all add: url_parts_def a b Let_def split: if_splits)
  note fa = split_authority_facts [OF rest a]
  have host: "list_all url_char host \<and> CHR ''/'' \<notin> set host"
    using split_port_facts [of authority tls' host n] fa b m q(4) by simp
  have "list_all url_char h"
    using host by (auto simp: q(1) to_ascii_lowercase_def list_all_iff intro: url_char_lower)
  moreover have "CHR ''/'' \<notin> lower ` set host" using host slash_lower by (metis imageE)
  then have "CHR ''/'' \<notin> set h" by (simp add: q(1) to_ascii_lowercase_def)
  ultimately show ?thesis using fa host q by simp
qed

text \<open>The parts of a relay, written out as a URL again (an absent port explicit), are parsed as the
  same parts.\<close>

definition url_text :: "bool \<Rightarrow> string \<Rightarrow> u16 \<Rightarrow> string \<Rightarrow> string" where
  "url_text tls host n path =
     (if tls then ''wss'' else ''ws'') @ ''://'' @ host @ '':'' @ number_text 10 (uint n) @ path"

lemma scheme_of_text:
  "(case strip_prefix ''wss://'' (url_text tls host n path) of
      Some rest \<Rightarrow> Some (True, rest)
    | None \<Rightarrow> map_option (\<lambda>rest. (False, rest)) (strip_prefix ''ws://'' (url_text tls host n path))) =
   Some (tls, host @ '':'' @ number_text 10 (uint n) @ path)"
  by (simp add: url_text_def strip_prefix_def)

lemma url_text_parts:
  assumes "spec_parts self = Inr (tls, h, n, path)"
  shows "spec_parts (spec_plain (url_text tls h n path)) = spec_parts self"
proof -
  note f = spec_parts_facts [OF assms]
  then obtain q where q: "path = CHR ''/'' # q" by blast
  have "list_all url_char (url_text tls h n path)"
    unfolding q url_text_def using f q number_text_digits [of "uint n"] digit_url_char
    by (auto simp: list_all_iff) (auto simp: url_char_def is_ascii_graphic_def ascii_def)
  moreover have "url_parts tls (h @ '':'' @ number_text 10 (uint n) @ path) = Inr (tls, h, n, path)"
    unfolding q by (rule url_parts_text) (use f in auto)
  moreover have "spec_url (spec_plain (url_text tls h n path)) = url_text tls h n path"
    by (simp add: spec_plain_def)
  ultimately show ?thesis
    unfolding spec_parts_def [of "spec_plain _"] by (simp only: scheme_of_text option.case prod.case assms) simp
qed

text \<open>A browser reaches the same relay. Whenever \<open>browser_url\<close> gives a URL for a relay, that URL has the
  same parts as the specification: TLS, the host a node signs against, the port (a default one
  written out) and the path.\<close>

theorem browser_url_same_relay:
  assumes "browser_url self = Inr u"
  shows "spec_parts (spec_plain u) = spec_parts self"
proof -
  obtain h n path where p: "spec_parts self = Inr (True, h, n, path)"
      "u = ''wss://'' @ h @ '':'' @ number_text 10 (uint n) @ path"
    using assms by (auto simp: browser_url_def split: if_splits sum.splits)
  then show ?thesis using url_text_parts [OF p(1)] by (simp add: url_text_def)
qed

theorem browser_url_same_relay_witness:
  "spec_parts (spec_plain ''wss://relay.example:443/ws'') = spec_parts (spec_plain ''wss://Relay.Example/ws'')"
proof -
  have "browser_url (spec_plain ''wss://Relay.Example/ws'') = Inr ''wss://relay.example:443/ws''"
    by code_simp
  then show ?thesis by (rule browser_url_same_relay)
qed

text \<open>Spellings a browser would rewrite are not canonical.\<close>

lemma canonical_host_examples:
  "canonical_host ''127.0.0.1''" "\<not> canonical_host ''127.1''" "\<not> canonical_host ''0x7f.0.0.1''"
  "\<not> canonical_host ''127.0.0.01''" "canonical_host ''[2001:db8::1]''" "canonical_host ''[::]''"
  "\<not> canonical_host ''[2001:db8:0::1]''" "\<not> canonical_host ''[::ffff:1.2.3.4]''"
  "\<not> canonical_host ''relay.example.''" "\<not> canonical_host ''-relay''"
  by code_simp+

end
