(* ===== verification/Relay_Client.thy ===== *)
theory Relay_Client
  imports Rendezvous_Book Relay_Spec
begin

text \<open>
  \<open>link-endpoint/src/relay_client.rs\<close>: the relay drivers of an endpoint and the pool that holds
  them. A driver is the state its task and its handles share; one function each models a connection
  attempt (an iteration of the loop of \<open>driver\<close>, with \<open>connect\<close>), a branch of \<open>pump\<close>'s select,
  \<open>try_send\<close> and the stop signal; \<open>driver_step\<close> takes one of these at a time. What the socket
  delivers and whether a write succeeds are arguments, as are the clocks (milliseconds for
  \<open>Instant\<close>, seconds for \<open>unix_now\<close>). The frames written to the socket are kept in \<open>wire_log\<close>.
\<close>

section \<open>Types\<close>

definition BACKOFF_MIN :: nat where "BACKOFF_MIN = 1000"
definition BACKOFF_MAX :: nat where "BACKOFF_MAX = 30000"
definition RECONNECT_DEADLINE :: nat where "RECONNECT_DEADLINE = 60000"
definition MAX_EXTRA_DRIVERS :: nat where "MAX_EXTRA_DRIVERS = 16"

datatype relay_status =
    Connecting
  | Up string
  | RelayReconnecting
  | RelaySuperseded
  | RelayFailed

record relay_inbound =
  in_source :: node_id
  in_datagram :: bytes
  in_driver :: nat

record relay_activity =
  registrations_sent :: u64
  tag_datagrams_sent :: u64
  tag_datagrams_received :: u64
  tag_datagrams_resolved :: u64

datatype pump_end = Lost | EndSuperseded

text \<open>Where the driver's task is: before the next attempt, in \<open>pump\<close> on a host with the epoch and
  book version last registered, or returned.\<close>

datatype driver_phase = Waiting | Pumping string u64 nat | Finished

record driver =
  driver_id :: nat
  relays :: "relay_spec list"
  outbound :: "frame list"
  relay_status :: relay_status
  status_events :: "relay_status list"
  book :: "tag_book option"
  host_memo :: "(string \<times> string) option"
  activity :: relay_activity
  stopped :: bool
  wakes :: nat
  index :: nat
  backoff :: nat
  sleep_for :: nat
  down_since :: "nat option"
  phase :: driver_phase
  wire_log :: "frame list"

datatype queue_outcome = Queued | WouldBlock | Dropped

text \<open>What \<open>RelaySocket::next\<close> yields; the empty list is a socket that ended.\<close>

datatype ws_item = WsBinary bytes | WsPing bytes | WsPong | WsOther | WsError | WsTimeout

section \<open>A driver\<close>

definition set_status :: "relay_status \<Rightarrow> driver \<Rightarrow> driver" where
  "set_status nxt d =
     (if relay_status d = nxt then d
      else d\<lparr>relay_status := nxt, status_events := status_events d @ [nxt]\<rparr>)"

definition wake_all :: "driver \<Rightarrow> driver" where
  "wake_all d = d\<lparr>wakes := wakes d + 1\<rparr>"

definition spawn_driver :: "nat \<Rightarrow> relay_spec list \<Rightarrow> tag_book option \<Rightarrow> driver" where
  "spawn_driver i specs b =
     (let d = \<lparr>driver_id = i, relays = specs, outbound = [], relay_status = Connecting,
               status_events = [], book = b, host_memo = None,
               activity = \<lparr>registrations_sent = 0, tag_datagrams_sent = 0,
                           tag_datagrams_received = 0, tag_datagrams_resolved = 0\<rparr>,
               stopped = False, wakes = 0, index = 0, backoff = BACKOFF_MIN, sleep_for = 0,
               down_since = None, phase = Waiting, wire_log = []\<rparr>
      in if specs = [] then (set_status RelayFailed d)\<lparr>phase := Finished\<rparr> else d)"

definition driver_urls :: "driver \<Rightarrow> string list" where
  "driver_urls d = map spec_url (relays d)"

text \<open>\<open>with_current_host\<close>: the host of the relay the session is on, parsed once per URL.\<close>

definition current_host :: "driver \<Rightarrow> driver \<times> string option" where
  "current_host d =
     (case relay_status d of
        Up u \<Rightarrow>
          (case host_memo d of
             Some (memo_url, h) \<Rightarrow>
               if memo_url = u then (d, Some h)
               else (case spec_host (spec_plain u) of
                       Inl _ \<Rightarrow> (d, None)
                     | Inr h \<Rightarrow> (d\<lparr>host_memo := Some (u, h)\<rparr>, Some h))
           | None \<Rightarrow>
               (case spec_host (spec_plain u) of
                  Inl _ \<Rightarrow> (d, None)
                | Inr h \<Rightarrow> (d\<lparr>host_memo := Some (u, h)\<rparr>, Some h)))
      | _ \<Rightarrow> (d, None))"

definition status_up :: "relay_status \<Rightarrow> bool" where
  "status_up s = (case s of Up _ \<Rightarrow> True | _ \<Rightarrow> False)"

text \<open>\<open>outbound.try_send(frame)\<close>; the receiving end is gone once the task returned.\<close>

definition enqueue :: "bool \<Rightarrow> frame \<Rightarrow> driver \<Rightarrow> driver \<times> queue_outcome" where
  "enqueue up f d =
     (if phase d = Finished then (d, Dropped)
      else if length (outbound d) < MAX_QUEUED_FRAMES then (d\<lparr>outbound := outbound d @ [f]\<rparr>, Queued)
      else if up then (d, WouldBlock) else (d, Dropped))"

definition driver_try_send ::
  "crypto \<Rightarrow> u64 \<Rightarrow> node_id \<Rightarrow> bytes \<Rightarrow> driver \<Rightarrow> driver \<times> queue_outcome" where
  "driver_try_send cr now_unix destination datagram d =
     (if stopped d then (d, Dropped)
      else
        let up = status_up (relay_status d)
        in case book d of
             None \<Rightarrow> enqueue up (Send destination datagram) d
           | Some b \<Rightarrow>
               (case current_host d of
                  (d, None) \<Rightarrow> (d, Dropped)
                | (d, Some h) \<Rightarrow>
                    (case tag_for_send cr destination h now_unix b of
                       (b, None) \<Rightarrow> (d\<lparr>book := Some b\<rparr>, Dropped)
                     | (b, Some t) \<Rightarrow> enqueue up (SendTag t datagram) (d\<lparr>book := Some b\<rparr>))))"

definition has_capacity :: "driver \<Rightarrow> bool" where
  "has_capacity d \<longleftrightarrow> length (outbound d) < MAX_QUEUED_FRAMES"

section \<open>Connecting\<close>

definition next_frame :: "ws_item list \<Rightarrow> string + frame option \<times> ws_item list" where
  "next_frame items =
     (case items of
        [] \<Rightarrow> Inr (None, [])
      | WsBinary b # rest \<Rightarrow> Inr (frame_decode b, rest)
      | WsError # _ \<Rightarrow> Inl ''socket error''
      | WsTimeout # _ \<Rightarrow> Inl ''timed out''
      | _ # rest \<Rightarrow> Inr (None, rest))"

definition send_frame :: "frame \<Rightarrow> driver \<Rightarrow> driver" where
  "send_frame f d = d\<lparr>wire_log := wire_log d @ [f]\<rparr>"

definition count_registration :: "driver \<Rightarrow> driver" where
  "count_registration d =
     d\<lparr>activity := (activity d)\<lparr>registrations_sent := registrations_sent (activity d) + 1\<rparr>\<rparr>"

text \<open>The answer to the challenge: identity authentication or tag registration.\<close>

definition answer_challenge ::
  "crypto \<Rightarrow> transport_key \<Rightarrow> string \<Rightarrow> 32 arr \<Rightarrow> u64 \<Rightarrow> bool \<Rightarrow> driver \<Rightarrow> driver \<times> (string + unit)" where
  "answer_challenge cr key host challenge now_unix send_ok d =
     (case book d of
        None \<Rightarrow>
          if send_ok
          then (send_frame (Auth (key_node_id key) (sign_relay_auth cr key host challenge)) d, Inr ())
          else (d, Inl ''send failed'')
      | Some b \<Rightarrow>
          let (b, ts) = registration cr host now_unix b;
              d = d\<lparr>book := Some b\<rparr>
          in if ts = [] then (d, Inl ''tag mode with no rendezvous pairs to register'')
             else if send_ok then (count_registration (send_frame (Register ts) d), Inr ())
             else (d, Inl ''send failed''))"

definition expect_challenge :: "ws_item list \<Rightarrow> string + 32 arr \<times> ws_item list" where
  "expect_challenge items =
     (case next_frame items of
        Inl e \<Rightarrow> Inl e
      | Inr (Some (Challenge challenge), rest) \<Rightarrow> Inr (challenge, rest)
      | Inr _ \<Rightarrow> Inl ''expected a challenge'')"

definition expect_welcome :: "ws_item list \<Rightarrow> string + unit" where
  "expect_welcome items =
     (case next_frame items of
        Inl e \<Rightarrow> Inl e
      | Inr (Some (Welcome _), _) \<Rightarrow> Inr ()
      | Inr _ \<Rightarrow> Inl ''expected a welcome'')"

definition connect ::
  "crypto \<Rightarrow> transport_key \<Rightarrow> relay_spec \<Rightarrow> u64 \<Rightarrow> bool \<Rightarrow> bool \<Rightarrow> ws_item list \<Rightarrow> driver \<Rightarrow>
   driver \<times> (string + unit)" where
  "connect cr key spec now_unix opened send_ok items d =
     (case spec_host spec of
        Inl e \<Rightarrow> (d, Inl e)
      | Inr host \<Rightarrow>
          if \<not> opened then (d, Inl ''open failed'')
          else
            (case expect_challenge items of
               Inl e \<Rightarrow> (d, Inl e)
             | Inr (challenge, rest) \<Rightarrow>
                 (case answer_challenge cr key host challenge now_unix send_ok d of
                    (d, Inl e) \<Rightarrow> (d, Inl e)
                  | (d, Inr _) \<Rightarrow> (d, expect_welcome rest))))"

text \<open>One pass of the loop of \<open>driver\<close> up to \<open>pump\<close> or the sleep that ends it.\<close>

definition driver_attempt ::
  "crypto \<Rightarrow> transport_key \<Rightarrow> nat \<Rightarrow> u64 \<Rightarrow> bool \<Rightarrow> bool \<Rightarrow> ws_item list \<Rightarrow> driver \<Rightarrow> driver" where
  "driver_attempt cr key ms now_unix opened send_ok items d =
     (if (case book d of Some b \<Rightarrow> book_is_empty b | None \<Rightarrow> False)
      then (set_status Connecting d)\<lparr>down_since := None, sleep_for := BACKOFF_MIN\<rparr>
      else
        let spec = relays d ! (index d mod length (relays d))
        in case connect cr key spec now_unix opened send_ok items d of
             (d, Inr _) \<Rightarrow>
               let d = d\<lparr>backoff := BACKOFF_MIN, outbound := []\<rparr>;
                   d = wake_all (set_status (Up (spec_url spec)) d);
                   host = (case spec_host spec of Inr h \<Rightarrow> h | Inl _ \<Rightarrow> '''')
               in d\<lparr>phase := Pumping host (epoch_index now_unix)
                      (case book d of Some b \<Rightarrow> version b | None \<Rightarrow> 0)\<rparr>
           | (d, Inl _) \<Rightarrow>
               let since = (case down_since d of Some s \<Rightarrow> s | None \<Rightarrow> ms);
                   d = d\<lparr>down_since := Some since\<rparr>;
                   d = (if ms - since > RECONNECT_DEADLINE
                        then wake_all (set_status RelayFailed d)
                        else set_status RelayReconnecting d)
               in d\<lparr>index := index d + 1, sleep_for := backoff d,
                    backoff := min (backoff d * 2) BACKOFF_MAX\<rparr>)"

text \<open>What follows \<open>pump\<close>.\<close>

definition after_pump :: "nat \<Rightarrow> pump_end \<Rightarrow> driver \<Rightarrow> driver" where
  "after_pump ms e d =
     (if e = EndSuperseded \<and> book d = None
      then (wake_all (set_status RelaySuperseded d))\<lparr>phase := Finished\<rparr>
      else
        let d = wake_all ((set_status RelayReconnecting d)\<lparr>down_since := Some ms\<rparr>)
        in d\<lparr>index := index d + 1, phase := Waiting,
             sleep_for := (if e = EndSuperseded then BACKOFF_MAX else 0)\<rparr>)"

section \<open>The pump\<close>

datatype pump_event =
    PingTick "8 arr"
  | RefreshTick
  | BookChanged bool
  | OutboundReady
  | Incoming "ws_item option"

definition register_now :: "crypto \<Rightarrow> string \<Rightarrow> u64 \<Rightarrow> bool \<Rightarrow> tag_book \<Rightarrow> driver \<Rightarrow> driver \<times> pump_end option" where
  "register_now cr host now_unix send_ok b d =
     (let d = d\<lparr>phase := Pumping host (epoch_index now_unix) (version b)\<rparr>;
          (b, ts) = registration cr host now_unix b;
          d = d\<lparr>book := Some b\<rparr>
      in if send_ok then (count_registration (send_frame (Register ts) d), None) else (d, Some Lost))"

definition count_received :: "driver \<Rightarrow> driver" where
  "count_received d =
     d\<lparr>activity := (activity d)\<lparr>tag_datagrams_received := tag_datagrams_received (activity d) + 1\<rparr>\<rparr>"

definition count_resolved :: "driver \<Rightarrow> driver" where
  "count_resolved d =
     d\<lparr>activity := (activity d)\<lparr>tag_datagrams_resolved := tag_datagrams_resolved (activity d) + 1\<rparr>\<rparr>"

definition count_sent :: "driver \<Rightarrow> driver" where
  "count_sent d =
     d\<lparr>activity := (activity d)\<lparr>tag_datagrams_sent := tag_datagrams_sent (activity d) + 1\<rparr>\<rparr>"

text \<open>A frame from the relay: the driver, the datagram handed to the path socket if any, and the end
  of the pump if it ends.\<close>

definition on_relay_frame ::
  "crypto \<Rightarrow> string \<Rightarrow> u64 \<Rightarrow> frame option \<Rightarrow> driver \<Rightarrow>
   driver \<times> relay_inbound option \<times> pump_end option" where
  "on_relay_frame cr host now_unix f d =
     (case f of
        Some (Recv source datagram) \<Rightarrow>
          if book d \<noteq> None then (d, None, Some Lost)
          else (d, Some \<lparr>in_source = source, in_datagram = datagram, in_driver = driver_id d\<rparr>, None)
      | Some (RecvTag t datagram) \<Rightarrow>
          (case book d of
             None \<Rightarrow> (d, None, Some Lost)
           | Some b \<Rightarrow>
               let d = count_received d;
                   (b, who) = resolve cr t host now_unix b;
                   d = d\<lparr>book := Some b\<rparr>
               in case who of
                    None \<Rightarrow> (d, None, None)
                  | Some peer \<Rightarrow>
                      (count_resolved d,
                       Some \<lparr>in_source = peer, in_datagram = datagram, in_driver = driver_id d\<rparr>, None))
      | Some (Pong _) \<Rightarrow> (d, None, None)
      | Some (Close reason) \<Rightarrow>
          (d, None, Some (if reason = CLOSE_REASON_SUPERSEDED then EndSuperseded else Lost))
      | _ \<Rightarrow> (d, None, Some Lost))"

definition pump_step ::
  "crypto \<Rightarrow> string \<Rightarrow> u64 \<Rightarrow> nat \<Rightarrow> u64 \<Rightarrow> bool \<Rightarrow> pump_event \<Rightarrow> driver \<Rightarrow>
   driver \<times> relay_inbound option \<times> pump_end option" where
  "pump_step cr host last_epoch last_version now_unix send_ok ev d =
     (case ev of
        PingTick nonce \<Rightarrow>
          if send_ok then (send_frame (Ping nonce) d, None, None) else (d, None, Some Lost)
      | RefreshTick \<Rightarrow>
          (case book d of
             None \<Rightarrow> (d, None, None)
           | Some b \<Rightarrow>
               if epoch_index now_unix \<noteq> last_epoch \<or> version b \<noteq> last_version
               then let (d, e) = register_now cr host now_unix send_ok b d in (d, None, e)
               else (d, None, None))
      | BookChanged ok \<Rightarrow>
          (case book d of
             None \<Rightarrow> (d, None, None)
           | Some b \<Rightarrow>
               if \<not> ok then (d, None, Some Lost)
               else let (d, e) = register_now cr host now_unix send_ok b d in (d, None, e))
      | OutboundReady \<Rightarrow>
          (case outbound d of
             [] \<Rightarrow> (d, None, None)
           | f # rest \<Rightarrow>
               let d = d\<lparr>outbound := rest\<rparr>
               in if \<not> send_ok then (d, None, Some Lost)
                  else
                    let d = send_frame f d;
                        d = (case f of SendTag _ _ \<Rightarrow> count_sent d | _ \<Rightarrow> d);
                        d = (if MAX_QUEUED_FRAMES - length rest \<ge> MAX_QUEUED_FRAMES div 2
                             then wake_all d else d)
                    in (d, None, None))
      | Incoming item \<Rightarrow>
          (case item of
             Some (WsBinary b) \<Rightarrow> on_relay_frame cr host now_unix (frame_decode b) d
           | Some (WsPing _) \<Rightarrow> if send_ok then (d, None, None) else (d, None, Some Lost)
           | Some WsPong \<Rightarrow> (d, None, None)
           | _ \<Rightarrow> (d, None, Some Lost)))"

section \<open>One step of a driver\<close>

datatype driver_event =
    Attempt nat u64 bool bool "ws_item list"
  | Pump nat u64 bool pump_event
  | TrySend u64 node_id bytes
  | BookOp book_op
  | StopDriver

definition stop_driver :: "driver \<Rightarrow> driver" where
  "stop_driver d =
     (if phase d = Finished then d\<lparr>stopped := True\<rparr>
      else (wake_all (wake_all (set_status RelayFailed (d\<lparr>stopped := True\<rparr>))))\<lparr>phase := Finished\<rparr>)"

definition driver_step ::
  "crypto \<Rightarrow> transport_key \<Rightarrow> driver_event \<Rightarrow> driver \<Rightarrow> driver \<times> relay_inbound option" where
  "driver_step cr key ev d =
     (case ev of
        Attempt ms now_unix opened send_ok items \<Rightarrow>
          (if phase d = Waiting then driver_attempt cr key ms now_unix opened send_ok items d else d, None)
      | Pump ms now_unix send_ok pev \<Rightarrow>
          (case phase d of
             Pumping host last_epoch last_version \<Rightarrow>
               (case pump_step cr host last_epoch last_version now_unix send_ok pev d of
                  (d, given, None) \<Rightarrow> (d, given)
                | (d, given, Some e) \<Rightarrow> (after_pump ms e d, given))
           | _ \<Rightarrow> (d, None))
      | TrySend now_unix destination datagram \<Rightarrow>
          (fst (driver_try_send cr now_unix destination datagram d), None)
      | BookOp bop \<Rightarrow> (d\<lparr>book := map_option (book_step cr bop) (book d)\<rparr>, None)
      | StopDriver \<Rightarrow> (stop_driver d, None))"

section \<open>Write readiness\<close>

text \<open>The wakers of \<open>WriteReadiness\<close>, each with the id of the poller that registered it.\<close>

record readiness =
  wakers :: "(nat \<times> nat) list"
  next_waker :: nat

definition readiness_new_id :: "readiness \<Rightarrow> readiness \<times> nat" where
  "readiness_new_id r = (r\<lparr>next_waker := next_waker r + 1\<rparr>, next_waker r)"

definition readiness_register :: "nat \<Rightarrow> nat \<Rightarrow> readiness \<Rightarrow> readiness" where
  "readiness_register i w r = r\<lparr>wakers := AList.update i w (wakers r)\<rparr>"

definition readiness_unregister :: "nat \<Rightarrow> readiness \<Rightarrow> readiness" where
  "readiness_unregister i r = r\<lparr>wakers := filter (\<lambda>(existing, _). existing \<noteq> i) (wakers r)\<rparr>"

definition readiness_wake_all :: "readiness \<Rightarrow> readiness \<times> nat list" where
  "readiness_wake_all r = (r\<lparr>wakers := []\<rparr>, map snd (wakers r))"

section \<open>The pool\<close>

text \<open>
  \<open>RelayClient\<close>: the home driver has id 0; \<open>extra\<close> maps the URL list a peer's card names to the
  id of its driver. The tag book is one object all drivers share, so a driver's operation runs on
  the shared book and leaves it behind. \<open>pool_inbound\<close> is the bounded channel to the path socket.
\<close>

record pool =
  pool_key :: transport_key
  shared :: "tag_book option"
  extra :: "(string list \<times> nat) list"
  by_id :: "nat \<rightharpoonup> driver"
  next_id :: nat
  pool_inbound :: "relay_inbound list"

definition INBOUND_CAPACITY :: nat where "INBOUND_CAPACITY = 512"

definition pool_spawn :: "transport_key \<Rightarrow> relay_spec list \<Rightarrow> tag_book option \<Rightarrow> pool" where
  "pool_spawn key specs b =
     \<lparr>pool_key = key, shared = b, extra = [], by_id = [0 \<mapsto> spawn_driver 0 specs b], next_id = 1,
      pool_inbound = []\<rparr>"

definition pool_driver :: "nat \<Rightarrow> pool \<Rightarrow> driver option" where
  "pool_driver i p = by_id p i"

definition pool_close :: "pool \<Rightarrow> pool" where
  "pool_close p = p\<lparr>by_id := (\<lambda>i. map_option stop_driver (by_id p i))\<rparr>"

definition driver_for :: "relay_spec list \<Rightarrow> pool \<Rightarrow> nat \<times> pool" where
  "driver_for specs p =
     (let urls = map spec_url specs;
          home = the (by_id p 0)
      in if urls = [] \<or> urls = driver_urls home then (0, p)
         else if stopped home then (0, p)
         else case map_of (extra p) urls of
                Some i \<Rightarrow> (i, p)
              | None \<Rightarrow>
                  if length (extra p) \<ge> MAX_EXTRA_DRIVERS then (0, p)
                  else
                    let i = next_id p
                    in (i, p\<lparr>next_id := i + 1, extra := AList.update urls i (extra p),
                             by_id := (by_id p)(i \<mapsto> spawn_driver i specs (shared p))\<rparr>))"

definition pool_give :: "relay_inbound option \<Rightarrow> pool \<Rightarrow> pool" where
  "pool_give given p =
     (case given of
        Some x \<Rightarrow> if length (pool_inbound p) < INBOUND_CAPACITY
                  then p\<lparr>pool_inbound := pool_inbound p @ [x]\<rparr> else p
      | None \<Rightarrow> p)"

datatype pool_event =
    OnDriver nat driver_event
  | DriverFor "relay_spec list"
  | PoolBookOp book_op
  | TakeInbound
  | ClosePool

definition pool_step :: "crypto \<Rightarrow> pool_event \<Rightarrow> pool \<Rightarrow> pool" where
  "pool_step cr ev p =
     (case ev of
        OnDriver i dev \<Rightarrow>
          (case by_id p i of
             None \<Rightarrow> p
           | Some d \<Rightarrow>
               let (d, given) = driver_step cr (pool_key p) dev (d\<lparr>book := shared p\<rparr>)
               in pool_give given (p\<lparr>by_id := (by_id p)(i \<mapsto> d), shared := book d\<rparr>))
      | DriverFor specs \<Rightarrow> snd (driver_for specs p)
      | PoolBookOp bop \<Rightarrow> p\<lparr>shared := map_option (book_step cr bop) (shared p)\<rparr>
      | TakeInbound \<Rightarrow> p\<lparr>pool_inbound := tl (pool_inbound p)\<rparr>
      | ClosePool \<Rightarrow> pool_close p)"

definition pool_run :: "crypto \<Rightarrow> pool_event list \<Rightarrow> pool \<Rightarrow> pool" where
  "pool_run cr es p = fold (pool_step cr) es p"

section \<open>The invariant of a driver\<close>

text \<open>The frames a driver may send: without a book, authentication as this node and datagrams by identity;
  with a book, registrations and datagrams by tag.\<close>

fun frame_fits :: "node_id \<Rightarrow> bool \<Rightarrow> frame \<Rightarrow> bool" where
  "frame_fits me tagged (Auth n _) \<longleftrightarrow> \<not> tagged \<and> n = me"
| "frame_fits me tagged (Send _ _) \<longleftrightarrow> \<not> tagged"
| "frame_fits me tagged (Register _) \<longleftrightarrow> tagged"
| "frame_fits me tagged (SendTag _ _) \<longleftrightarrow> tagged"
| "frame_fits me tagged (Ping _) \<longleftrightarrow> True"
| "frame_fits me tagged _ \<longleftrightarrow> False"

definition frames_fit :: "node_id \<Rightarrow> driver \<Rightarrow> bool" where
  "frames_fit me d \<longleftrightarrow> (\<forall>f\<in>set (outbound d) \<union> set (wire_log d). frame_fits me (book d \<noteq> None) f)"

fun memo_fits :: "(string \<times> string) option \<Rightarrow> bool" where
  "memo_fits None \<longleftrightarrow> True"
| "memo_fits (Some (u, h)) \<longleftrightarrow> spec_host (spec_plain u) = Inr h"

definition bounds_ok :: "driver \<Rightarrow> bool" where
  "bounds_ok d \<longleftrightarrow> length (outbound d) \<le> MAX_QUEUED_FRAMES \<and>
     BACKOFF_MIN \<le> backoff d \<and> backoff d \<le> BACKOFF_MAX \<and> sleep_for d \<le> BACKOFF_MAX"

text \<open>The status is \<open>Up\<close> exactly while the task pumps, on a relay of the list whose host it has.\<close>

fun phase_fits :: "driver_phase \<Rightarrow> relay_spec list \<Rightarrow> bool \<Rightarrow> relay_status \<Rightarrow> bool" where
  "phase_fits Waiting specs halted st \<longleftrightarrow>
     specs \<noteq> [] \<and> \<not> halted \<and> st \<in> {Connecting, RelayReconnecting, RelayFailed}"
| "phase_fits (Pumping h _ _) specs halted st \<longleftrightarrow>
     \<not> halted \<and> (\<exists>spec\<in>set specs. st = Up (spec_url spec) \<and> spec_host spec = Inr h)"
| "phase_fits Finished specs halted st \<longleftrightarrow> st \<in> {RelaySuperseded, RelayFailed}"

fun book_fits :: "crypto \<Rightarrow> tag_book option \<Rightarrow> bool" where
  "book_fits cr None \<longleftrightarrow> True"
| "book_fits cr (Some b) \<longleftrightarrow> book_ok cr b"

definition driver_inv :: "crypto \<Rightarrow> node_id \<Rightarrow> driver \<Rightarrow> bool" where
  "driver_inv cr me d \<longleftrightarrow>
     frames_fit me d \<and> memo_fits (host_memo d) \<and> bounds_ok d \<and>
     phase_fits (phase d) (relays d) (stopped d) (relay_status d) \<and> book_fits cr (book d)"

lemmas driver_inv_defs = driver_inv_def frames_fit_def bounds_ok_def

lemma set_status_simps [simp]:
  "relay_status (set_status s d) = s" "outbound (set_status s d) = outbound d"
  "wire_log (set_status s d) = wire_log d" "book (set_status s d) = book d"
  "host_memo (set_status s d) = host_memo d" "backoff (set_status s d) = backoff d"
  "sleep_for (set_status s d) = sleep_for d" "phase (set_status s d) = phase d"
  "relays (set_status s d) = relays d" "stopped (set_status s d) = stopped d"
  "index (set_status s d) = index d" "down_since (set_status s d) = down_since d"
  "activity (set_status s d) = activity d" "driver_id (set_status s d) = driver_id d"
  by (simp_all add: set_status_def)

lemma wake_all_simps [simp]:
  "relay_status (wake_all d) = relay_status d" "outbound (wake_all d) = outbound d"
  "wire_log (wake_all d) = wire_log d" "book (wake_all d) = book d"
  "host_memo (wake_all d) = host_memo d" "backoff (wake_all d) = backoff d"
  "sleep_for (wake_all d) = sleep_for d" "phase (wake_all d) = phase d"
  "relays (wake_all d) = relays d" "stopped (wake_all d) = stopped d"
  "index (wake_all d) = index d" "down_since (wake_all d) = down_since d"
  by (simp_all add: wake_all_def)

lemma count_simps [simp]:
  "book (count_received d) = book d" "phase (count_received d) = phase d"
  "book (count_resolved d) = book d" "phase (count_resolved d) = phase d"
  "book (count_sent d) = book d" "phase (count_sent d) = phase d"
  "book (count_registration d) = book d" "phase (count_registration d) = phase d"
  by (simp_all add: count_received_def count_resolved_def count_sent_def count_registration_def)

text \<open>Counting changes nothing the invariant speaks of.\<close>

lemma driver_inv_counts [simp]:
  "driver_inv cr me (count_registration d) = driver_inv cr me d"
  "driver_inv cr me (count_received d) = driver_inv cr me d"
  "driver_inv cr me (count_resolved d) = driver_inv cr me d"
  "driver_inv cr me (count_sent d) = driver_inv cr me d"
  "driver_inv cr me (wake_all d) = driver_inv cr me d"
  by (simp_all add: driver_inv_defs count_registration_def count_received_def count_resolved_def
      count_sent_def wake_all_def)

lemma driver_inv_send_frame:
  "driver_inv cr me d \<Longrightarrow> frame_fits me (book d \<noteq> None) f \<Longrightarrow> driver_inv cr me (send_frame f d)"
  by (auto simp: driver_inv_defs send_frame_def)

lemma driver_inv_book:
  "driver_inv cr me d \<Longrightarrow> book d = Some b \<Longrightarrow> book_ok cr b' \<Longrightarrow> driver_inv cr me (d\<lparr>book := Some b'\<rparr>)"
  by (auto simp: driver_inv_defs)

lemma driver_inv_bookD: "driver_inv cr me d \<Longrightarrow> book d = Some b \<Longrightarrow> book_ok cr b"
  by (simp add: driver_inv_defs)

lemma driver_inv_enqueue:
  "driver_inv cr me d \<Longrightarrow> frame_fits me (book d \<noteq> None) f \<Longrightarrow> driver_inv cr me (fst (enqueue up f d))"
  by (auto simp: driver_inv_defs enqueue_def)

lemma book_ok_registration: "book_ok cr b \<Longrightarrow> book_ok cr (fst (registration cr h t b))"
  using book.step_inv [of cr b "Registration h t"] by simp

lemma book_ok_resolve: "book_ok cr b \<Longrightarrow> book_ok cr (fst (resolve cr x h t b))"
  using book.step_inv [of cr b "Resolve x h t"] by simp

lemma current_host_inv:
  assumes "driver_inv cr me d"
  shows "driver_inv cr me (fst (current_host d)) \<and> book (fst (current_host d)) = book d \<and>
    phase (fst (current_host d)) = phase d \<and> outbound (fst (current_host d)) = outbound d"
  using assms by (auto simp: current_host_def driver_inv_defs split: relay_status.splits option.splits sum.splits)

lemma driver_inv_try_send:
  assumes "driver_inv cr me d"
  shows "driver_inv cr me (fst (driver_try_send cr t p data d))"
proof (cases "stopped d \<or> book d = None")
  case True
  then show ?thesis
    using assms by (auto simp: driver_try_send_def Let_def intro!: driver_inv_enqueue)
next
  case False
  then obtain b where b: "book d = Some b" "\<not> stopped d" by auto
  obtain d1 oh where h: "current_host d = (d1, oh)" by (rule prod.exhaust)
  have d1: "driver_inv cr me d1" "book d1 = Some b"
    using current_host_inv [OF assms] h b by auto
  show ?thesis
  proof (cases oh)
    case None
    then show ?thesis using b h d1 by (simp add: driver_try_send_def Let_def)
  next
    case (Some host)
    obtain b' ot where r: "tag_for_send cr p host t b = (b', ot)" by (rule prod.exhaust)
    have "book_ok cr b'"
      using tag_for_send_correct(1) [OF driver_inv_bookD [OF assms b(1)], of p host t] r by simp
    then have "driver_inv cr me (d1\<lparr>book := Some b'\<rparr>)" using driver_inv_book d1 by blast
    then show ?thesis
      using b h Some r by (auto simp: driver_try_send_def Let_def intro!: driver_inv_enqueue split: option.splits)
  qed
qed

lemma driver_inv_answer:
  assumes "driver_inv cr (key_node_id key) d"
  shows "driver_inv cr (key_node_id key) (fst (answer_challenge cr key h c t ok d)) \<and>
    phase (fst (answer_challenge cr key h c t ok d)) = phase d \<and>
    relays (fst (answer_challenge cr key h c t ok d)) = relays d \<and>
    stopped (fst (answer_challenge cr key h c t ok d)) = stopped d"
proof (cases "book d")
  case None
  then show ?thesis
    using assms by (auto simp: answer_challenge_def send_frame_def driver_inv_defs)
next
  case (Some b)
  obtain b' ts where r: "registration cr h t b = (b', ts)" by (rule prod.exhaust)
  have "driver_inv cr (key_node_id key) (d\<lparr>book := Some b'\<rparr>)"
    using driver_inv_book [OF assms Some] book_ok_registration [OF driver_inv_bookD [OF assms Some], of h t] r
    by simp
  then show ?thesis
    using Some r driver_inv_send_frame [of cr "key_node_id key" "d\<lparr>book := Some b'\<rparr>" "Register ts"]
    by (auto simp: answer_challenge_def Let_def)
      (auto simp: count_registration_def send_frame_def)
qed

lemma connect_cases:
  "connect cr key spec t op ok items d = (d', res) \<Longrightarrow>
   d' = d \<and> (\<exists>e. res = Inl e) \<or> (\<exists>h c. spec_host spec = Inr h \<and> d' = fst (answer_challenge cr key h c t ok d))"
  by (auto simp: connect_def split: sum.splits prod.splits if_splits) (metis fst_conv)+

lemma driver_inv_connect:
  assumes "driver_inv cr (key_node_id key) d" "connect cr key spec t op ok items d = (d', res)"
  shows "driver_inv cr (key_node_id key) d' \<and> phase d' = phase d \<and> relays d' = relays d \<and>
    stopped d' = stopped d"
  using connect_cases [OF assms(2)] assms(1) driver_inv_answer [OF assms(1)] by blast

lemma driver_inv_attempt:
  assumes "driver_inv cr (key_node_id key) d" "phase d = Waiting"
  shows "driver_inv cr (key_node_id key) (driver_attempt cr key ms t op ok items d)"
proof (cases "case book d of Some b \<Rightarrow> book_is_empty b | None \<Rightarrow> False")
  case True
  then show ?thesis
    using assms by (simp add: driver_attempt_def driver_inv_defs BACKOFF_MIN_def BACKOFF_MAX_def)
next
  case False
  let ?spec = "relays d ! (index d mod length (relays d))"
  obtain d' res where c: "connect cr key ?spec t op ok items d = (d', res)" by (rule prod.exhaust)
  have d': "driver_inv cr (key_node_id key) d'" "phase d' = Waiting" "relays d' = relays d"
      "stopped d' = stopped d"
    using driver_inv_connect [OF assms(1) c] assms(2) by auto
  have spec: "?spec \<in> set (relays d)" "\<not> stopped d"
    using assms by (auto simp: driver_inv_def)
  show ?thesis
  proof (cases res)
    case (Inl e)
    then show ?thesis
      using False c d' spec
      by (auto simp: driver_attempt_def Let_def driver_inv_defs BACKOFF_MIN_def BACKOFF_MAX_def
          split: option.splits)
  next
    case (Inr u)
    then obtain h where h: "spec_host ?spec = Inr h" using connect_cases [OF c] by auto
    then show ?thesis
      using False c d' spec Inr
      by (auto simp: driver_attempt_def Let_def driver_inv_defs BACKOFF_MIN_def BACKOFF_MAX_def)
  qed
qed

lemma driver_inv_register_now:
  assumes "driver_inv cr me d" "phase d = Pumping h e v" "book d = Some b"
  shows "driver_inv cr me (fst (register_now cr h t ok b d)) \<and>
    (\<exists>e v. phase (fst (register_now cr h t ok b d)) = Pumping h e v)"
proof -
  obtain b' ts where r: "registration cr h t b = (b', ts)" by (rule prod.exhaust)
  let ?d = "d\<lparr>phase := Pumping h (epoch_index t) (version b), book := Some b'\<rparr>"
  have "book_ok cr b'" using book_ok_registration [OF driver_inv_bookD [OF assms(1,3)], of h t] r by simp
  then have "driver_inv cr me ?d" using assms by (auto simp: driver_inv_defs)
  then show ?thesis
    using r driver_inv_send_frame [of cr me ?d "Register ts"]
    by (auto simp: register_now_def Let_def) (auto simp: count_registration_def send_frame_def)
qed

lemma driver_inv_on_relay_frame:
  assumes "driver_inv cr me d" "phase d = Pumping h e v"
  shows "driver_inv cr me (fst (on_relay_frame cr h t f d)) \<and>
    phase (fst (on_relay_frame cr h t f d)) = phase d"
proof (cases "\<exists>g data. f = Some (RecvTag g data) \<and> book d \<noteq> None")
  case False
  then show ?thesis using assms by (auto simp: on_relay_frame_def split: option.splits frame.splits)
next
  case True
  then obtain g data b where f: "f = Some (RecvTag g data)" "book d = Some b" by auto
  obtain b' who where r: "resolve cr g h t b = (b', who)" by (rule prod.exhaust)
  have "book_ok cr b'" using book_ok_resolve [OF driver_inv_bookD [OF assms(1) f(2)], of g h t] r by simp
  then have "driver_inv cr me ((count_received d)\<lparr>book := Some b'\<rparr>)"
    using driver_inv_book [of cr me "count_received d" b b'] assms f by simp
  then show ?thesis
    using f r by (auto simp: on_relay_frame_def Let_def split: option.splits)
qed

lemma driver_inv_pop:
  assumes "driver_inv cr me d" "outbound d = f # rest"
  shows "driver_inv cr me (d\<lparr>outbound := rest\<rparr>) \<and> frame_fits me (book d \<noteq> None) f"
  using assms by (auto simp: driver_inv_defs)

lemma pump_step_inv:
  assumes "driver_inv cr me d" "phase d = Pumping h e v"
    and "pump_step cr h e v t ok ev d = (d', given, fin)"
  shows "driver_inv cr me d' \<and> (\<exists>e v. phase d' = Pumping h e v)"
proof (cases ev)
  case (PingTick nonce)
  then show ?thesis
    using assms driver_inv_send_frame [of cr me d "Ping nonce"]
    by (auto simp: pump_step_def send_frame_def split: if_splits)
next
  case RefreshTick
  then show ?thesis
    using assms driver_inv_register_now [OF assms(1,2), of _ t ok]
    by (auto simp: pump_step_def split_beta split: if_splits option.splits)
next
  case (BookChanged up)
  then show ?thesis
    using assms driver_inv_register_now [OF assms(1,2), of _ t ok]
    by (auto simp: pump_step_def split_beta split: if_splits option.splits)
next
  case OutboundReady
  show ?thesis
  proof (cases "outbound d")
    case Nil
    then show ?thesis using OutboundReady assms by (auto simp: pump_step_def)
  next
    case (Cons f rest)
    let ?d = "d\<lparr>outbound := rest\<rparr>"
    have i: "driver_inv cr me ?d" "frame_fits me (book d \<noteq> None) f"
      using driver_inv_pop [OF assms(1) Cons] by auto
    have "driver_inv cr me (send_frame f ?d)" using driver_inv_send_frame i by simp
    moreover have "phase (send_frame f ?d) = Pumping h e v" using assms(2) by (simp add: send_frame_def)
    ultimately show ?thesis
      using OutboundReady Cons assms i
      by (auto simp: pump_step_def Let_def split: if_splits frame.splits)
  qed
next
  case (Incoming item)
  then show ?thesis
    using assms driver_inv_on_relay_frame [OF assms(1,2), of t]
    by (auto simp: pump_step_def split: option.splits ws_item.splits if_splits) (metis fst_conv)+
qed

lemma driver_inv_after_pump:
  assumes "driver_inv cr me d" "phase d = Pumping h e v"
  shows "driver_inv cr me (after_pump ms fin d)"
  using assms
  by (auto simp: after_pump_def Let_def driver_inv_defs BACKOFF_MIN_def BACKOFF_MAX_def)

lemma driver_inv_stop: "driver_inv cr me d \<Longrightarrow> driver_inv cr me (stop_driver d)"
  by (cases "phase d") (auto simp: stop_driver_def driver_inv_defs)

lemma driver_inv_spawn:
  assumes "case b of Some b \<Rightarrow> book_ok cr b | None \<Rightarrow> True"
  shows "driver_inv cr me (spawn_driver i specs b)"
  using assms by (cases b)
    (auto simp: spawn_driver_def Let_def driver_inv_defs BACKOFF_MIN_def BACKOFF_MAX_def)

lemma driver_inv_step:
  assumes "driver_inv cr (key_node_id key) d"
  shows "driver_inv cr (key_node_id key) (fst (driver_step cr key ev d))"
proof (cases ev)
  case (Attempt ms t op ok items)
  then show ?thesis using assms driver_inv_attempt by (simp add: driver_step_def)
next
  case (Pump ms t ok pev)
  show ?thesis
  proof (cases "phase d")
    case (Pumping h e v)
    obtain d' given fin where p: "pump_step cr h e v t ok pev d = (d', given, fin)"
      by (metis surj_pair)
    then show ?thesis
      using pump_step_inv [OF assms Pumping p] driver_inv_after_pump Pump Pumping
      by (auto simp: driver_step_def split: option.splits)
  qed (use assms Pump in \<open>simp_all add: driver_step_def\<close>)
next
  case (TrySend t p data)
  then show ?thesis using assms driver_inv_try_send by (simp add: driver_step_def)
next
  case (BookOp bop)
  show ?thesis
  proof (cases "book d")
    case None
    then show ?thesis using assms BookOp by (simp add: driver_step_def driver_inv_defs)
  next
    case (Some b)
    then show ?thesis
      using driver_inv_book [OF assms Some book.step_inv [OF driver_inv_bookD [OF assms Some], of bop]] BookOp
      by (simp add: driver_step_def)
  qed
next
  case StopDriver
  then show ?thesis using assms driver_inv_stop by (simp add: driver_step_def)
qed

interpretation driver: machine "\<lambda>ev d. fst (driver_step cr key ev d)" "driver_inv cr (key_node_id key)"
  for cr key
  by unfold_locales (rule driver_inv_step)

definition driver_run :: "crypto \<Rightarrow> transport_key \<Rightarrow> driver_event list \<Rightarrow> driver \<Rightarrow> driver" where
  "driver_run cr key es d = fold (\<lambda>ev d. fst (driver_step cr key ev d)) es d"

lemma driver_run_inv:
  "driver_inv cr (key_node_id key) d \<Longrightarrow> driver_inv cr (key_node_id key) (driver_run cr key es d)"
  unfolding driver_run_def by (rule driver.run_inv)

text \<open>What no step changes: the relay list, the id and whether there is a book.\<close>

definition same_driver :: "driver \<Rightarrow> driver \<Rightarrow> bool" where
  "same_driver d d' \<longleftrightarrow>
     relays d' = relays d \<and> driver_id d' = driver_id d \<and> (book d' = None \<longleftrightarrow> book d = None)"

lemma same_driver_refl [simp]: "same_driver d d"
  by (simp add: same_driver_def)

lemma same_driver_trans: "same_driver a b \<Longrightarrow> same_driver b c \<Longrightarrow> same_driver a c"
  by (simp add: same_driver_def)

lemma same_driver_answer: "same_driver d (fst (answer_challenge cr key h c t ok d))"
  by (auto simp: same_driver_def answer_challenge_def send_frame_def count_registration_def Let_def
      split_beta split: option.splits)

lemma same_driver_attempt: "same_driver d (driver_attempt cr key ms t op ok items d)"
proof -
  let ?spec = "relays d ! (index d mod length (relays d))"
  obtain d' res where c: "connect cr key ?spec t op ok items d = (d', res)" by (rule prod.exhaust)
  have "same_driver d d'" using connect_cases [OF c] same_driver_answer by auto
  then show ?thesis
    by (cases res) (auto simp: driver_attempt_def c Let_def same_driver_def wake_all_def)
qed

lemma same_driver_pump:
  "pump_step cr h e v t ok ev d = (d', given, fin) \<Longrightarrow> same_driver d d'"
  by (auto simp: pump_step_def register_now_def on_relay_frame_def send_frame_def wake_all_def
      count_registration_def count_received_def count_resolved_def count_sent_def same_driver_def
      Let_def split_beta
      split: pump_event.splits if_splits option.splits list.splits frame.splits ws_item.splits)

lemma same_driver_try_send: "same_driver d (fst (driver_try_send cr t p data d))"
  by (auto simp: driver_try_send_def current_host_def enqueue_def same_driver_def Let_def split_beta
      split: relay_status.splits option.splits sum.splits prod.splits if_splits)

lemma same_driver_step: "same_driver d (fst (driver_step cr key ev d))"
proof (cases ev)
  case (Pump ms t ok pev)
  show ?thesis
  proof (cases "phase d")
    case (Pumping h e v)
    obtain d' given fin where p: "pump_step cr h e v t ok pev d = (d', given, fin)"
      by (metis surj_pair)
    have "same_driver d' (after_pump ms f d')" for f
      by (simp add: same_driver_def after_pump_def Let_def wake_all_def set_status_def)
    then show ?thesis
      using same_driver_pump [OF p] same_driver_trans Pump Pumping p
      by (auto simp: driver_step_def split: option.splits)
  qed (use Pump in \<open>simp_all add: driver_step_def\<close>)
qed (auto simp: driver_step_def same_driver_attempt same_driver_try_send,
     auto simp: same_driver_def stop_driver_def wake_all_def)

lemma same_driver_run: "same_driver d (driver_run cr key es d)"
proof (induction es arbitrary: d)
  case Nil
  then show ?case by (simp add: driver_run_def)
next
  case (Cons ev es)
  show ?case
    using same_driver_trans [OF same_driver_step Cons, of d cr key ev] by (simp add: driver_run_def)
qed

lemma spawn_driver_simps [simp]:
  "relays (spawn_driver i specs b) = specs" "book (spawn_driver i specs b) = b"
  "wire_log (spawn_driver i specs b) = []"
  by (simp_all add: spawn_driver_def Let_def)

section \<open>Properties of a driver\<close>




lemma finished_step:
  assumes "phase d = Finished" "book d = None"
  shows "phase (fst (driver_step cr key ev d)) = Finished \<and> book (fst (driver_step cr key ev d)) = None \<and>
    wire_log (fst (driver_step cr key ev d)) = wire_log d \<and>
    relay_status (fst (driver_step cr key ev d)) = relay_status d"
  using assms
  by (cases ev) (auto simp: driver_step_def driver_try_send_def enqueue_def stop_driver_def Let_def)

lemma finished_run:
  assumes "phase d = Finished" "book d = None"
  shows "wire_log (driver_run cr key es d) = wire_log d \<and>
    relay_status (driver_run cr key es d) = relay_status d"
  using assms
proof (induction es arbitrary: d)
  case Nil
  then show ?case by (simp add: driver_run_def)
next
  case (Cons ev es)
  have "driver_run cr key (ev # es) d = driver_run cr key es (fst (driver_step cr key ev d))"
    by (simp add: driver_run_def)
  then show ?case
    using Cons.IH [of "fst (driver_step cr key ev d)"] finished_step [OF Cons.prems, of cr key ev]
    by simp
qed

text \<open>Newest wins, for good. An identity-mode driver whose relay closes with the reason \<open>superseded\<close> reports
  superseded and never writes to a relay again, whatever happens later: two processes with one node
  id do not take the slot from each other in turns.\<close>

theorem superseded_driver_stays_down:
  assumes "phase d = Pumping h e v" "book d = None"
  shows "relay_status (driver_run cr key
      (Pump ms t ok (Incoming (Some (WsBinary (frame_encode (Close CLOSE_REASON_SUPERSEDED))))) # es) d) =
      RelaySuperseded \<and>
    wire_log (driver_run cr key
      (Pump ms t ok (Incoming (Some (WsBinary (frame_encode (Close CLOSE_REASON_SUPERSEDED))))) # es) d) =
      wire_log d"
proof -
  let ?ev = "Pump ms t ok (Incoming (Some (WsBinary (frame_encode (Close CLOSE_REASON_SUPERSEDED)))))"
  let ?d = "fst (driver_step cr key ?ev d)"
  have "frame_decode (frame_encode (Close CLOSE_REASON_SUPERSEDED)) = Some (Close CLOSE_REASON_SUPERSEDED)"
    by (rule frames.dec_enc) simp
  then have d: "?d = after_pump ms EndSuperseded d"
    using assms by (simp add: driver_step_def pump_step_def on_relay_frame_def)
  then have "phase ?d = Finished" "book ?d = None" "wire_log ?d = wire_log d"
      "relay_status ?d = RelaySuperseded"
    using assms(2) by (simp_all add: after_pump_def)
  then show ?thesis
    using finished_run [of ?d cr key es] by (simp add: driver_run_def)
qed

theorem superseded_driver_stays_down_witness:
  "relay_status (driver_run plain_crypto (from_seed plain_crypto (mk_arr [1]))
     [Pump 5 0 True (Incoming (Some (WsBinary (frame_encode (Close CLOSE_REASON_SUPERSEDED))))),
      Attempt 6 0 True True []]
     ((spawn_driver 0 [spec_plain ''ws://r/''] None)\<lparr>phase := Pumping ''r'' 0 0\<rparr>)) = RelaySuperseded"
  using superseded_driver_stays_down [of "(spawn_driver 0 [spec_plain ''ws://r/''] None)\<lparr>phase := Pumping ''r'' 0 0\<rparr>"
      "''r''" 0 0 plain_crypto "from_seed plain_crypto (mk_arr [1])" 5 0 True "[Attempt 6 0 True True []]"]
  by simp

lemma spec_host_url: "spec_host (spec_plain (spec_url spec)) = spec_host spec"
proof -
  have "spec_url (spec_plain (spec_url spec)) = spec_url spec" by (simp add: spec_plain_def)
  then have "spec_parts (spec_plain (spec_url spec)) = spec_parts spec"
    by (simp only: spec_parts_def)
  then show ?thesis by (simp add: spec_host_def)
qed

lemma current_host_pumping:
  assumes "driver_inv cr me d" "phase d = Pumping h e v"
  shows "snd (current_host d) = Some h"
proof -
  obtain spec where "relay_status d = Up (spec_url spec)" "spec_host spec = Inr h"
    using assms by (auto simp: driver_inv_def)
  moreover have "memo_fits (host_memo d)" using assms by (simp add: driver_inv_def)
  ultimately show ?thesis
    using spec_host_url [of spec] by (cases "host_memo d") (auto simp: current_host_def)
qed

lemma current_host_up: "snd (current_host d) = Some h \<Longrightarrow> status_up (relay_status d)"
  by (auto simp: current_host_def status_up_def split: relay_status.splits)

lemma driver_inv_up:
  "driver_inv cr me d \<Longrightarrow> status_up (relay_status d) \<Longrightarrow> \<exists>h e v. phase d = Pumping h e v"
  by (cases "phase d") (auto simp: driver_inv_def status_up_def)

lemma tag_send_queued:
  assumes inv: "driver_inv cr me d" and b: "book d = Some b"
    and q: "driver_try_send cr t p data d = (d', Queued)"
  shows "\<exists>h e v g. phase d = Pumping h e v \<and> outbound d' = outbound d @ [SendTag g data] \<and>
    fresh_tag cr p h (epoch_index t) (prune_expired t b) = Some g"
proof -
  obtain d1 oh where c: "current_host d = (d1, oh)" by (rule prod.exhaust)
  then obtain h where h: "oh = Some h"
    using q b by (cases oh) (auto simp: driver_try_send_def Let_def split: if_splits)
  obtain h' e v where ph: "phase d = Pumping h' e v"
    using driver_inv_up [OF inv current_host_up [of d h]] c h by auto
  then have hh: "h' = h" using current_host_pumping [OF inv] c h by fastforce
  obtain b' og where s: "tag_for_send cr p h t b = (b', og)" by (rule prod.exhaust)
  then obtain g where g: "og = Some g"
    using q b c h by (cases og) (auto simp: driver_try_send_def Let_def split: if_splits)
  have "fresh_tag cr p h (epoch_index t) (prune_expired t b) = Some g"
    using tag_for_send_correct(2) [OF driver_inv_bookD [OF inv b], of p h t] s g by simp
  moreover have "outbound d' = outbound d @ [SendTag g data]"
    using q b c h s g current_host_inv [OF inv]
    by (auto simp: driver_try_send_def Let_def enqueue_def split: if_splits)
  ultimately show ?thesis using ph hh by blast
qed

text \<open>A queued tag datagram is addressed for the relay the session is on. Whenever a tag-mode driver
  accepts a datagram for a peer, after any history, it is in a session, and what it queues last is
  that datagram under the tag freshly derived for the peer, this relay's host and the current epoch.\<close>

theorem tag_send_for_current_relay:
  assumes "distinct (map fst ps)" "distinct (map fst qs)"
    and "d = driver_run cr key es (spawn_driver i specs (Some (with_paired ps qs)))"
    and "driver_try_send cr t p data d = (d', Queued)"
  shows "\<exists>h e v g b. phase d = Pumping h e v \<and> book d = Some b \<and>
    outbound d' = outbound d @ [SendTag g data] \<and>
    fresh_tag cr p h (epoch_index t) (prune_expired t b) = Some g"
proof -
  have "driver_inv cr (key_node_id key) d"
    unfolding assms(3) by (rule driver_run_inv, rule driver_inv_spawn)
      (simp add: book_ok_with_paired [OF assms(1,2)])
  moreover obtain b where "book d = Some b"
    using same_driver_run [of "spawn_driver i specs (Some (with_paired ps qs))" cr key es] assms(3)
    by (auto simp: same_driver_def)
  ultimately show ?thesis using tag_send_queued [OF _ _ assms(4)] by blast
qed

section \<open>Failover\<close>

definition failed_attempt :: "crypto \<Rightarrow> transport_key \<Rightarrow> nat \<times> u64 \<Rightarrow> driver \<Rightarrow> driver" where
  "failed_attempt cr key at d =
     fst (driver_step cr key (Attempt (fst at) (snd at) False True []) d)"

lemma failed_attempt_simps:
  assumes "phase d = Waiting" "book d = None"
  shows "phase (failed_attempt cr key at d) = Waiting" "book (failed_attempt cr key at d) = None"
    "index (failed_attempt cr key at d) = Suc (index d)" "relays (failed_attempt cr key at d) = relays d"
  using assms
  by (auto simp: failed_attempt_def driver_step_def driver_attempt_def connect_def Let_def
      split: sum.splits)

lemma failed_attempts:
  assumes "phase d = Waiting" "book d = None"
  shows "phase (fold (failed_attempt cr key) ats d) = Waiting \<and>
    book (fold (failed_attempt cr key) ats d) = None \<and>
    index (fold (failed_attempt cr key) ats d) = index d + length ats \<and>
    relays (fold (failed_attempt cr key) ats d) = relays d"
  using assms
  by (induction ats arbitrary: d) (simp_all add: failed_attempt_simps)



lemma up_after_welcome:
  assumes "phase d = Waiting" "relays d = [spec]" "spec_host spec = Inr h" "book d = Some b"
    and "\<not> book_is_empty b" "registration cr h t b = (b', ts)" "ts \<noteq> []"
  shows "fst (driver_step cr key (Attempt ms t True True
      [WsBinary (frame_encode (Challenge c)), WsBinary (frame_encode (Welcome w))]) d) =
    (wake_all (set_status (Up (spec_url spec)) ((count_registration (send_frame (Register ts)
      (d\<lparr>book := Some b'\<rparr>)))\<lparr>backoff := BACKOFF_MIN, outbound := []\<rparr>)))
    \<lparr>phase := Pumping h (epoch_index t) (version b')\<rparr>"
proof -
  have frames: "frame_decode (frame_encode (Challenge c)) = Some (Challenge c)"
      "frame_decode (frame_encode (Welcome w)) = Some (Welcome w)"
    by (rule frames.dec_enc, simp)+
  show ?thesis
    using assms
    by (simp add: driver_step_def driver_attempt_def connect_def expect_challenge_def expect_welcome_def
        next_frame_def frames answer_challenge_def Let_def del: frame_encode.simps)
      (simp add: count_registration_def send_frame_def)
qed

theorem tag_send_for_current_relay_witness:
  "\<exists>d' g. driver_try_send plain_crypto 0 (NodeId (mk_arr [2])) [1, 2, 3]
     (driver_run plain_crypto (from_seed plain_crypto (mk_arr [1]))
        [Attempt 0 0 True True [WsBinary (frame_encode (Challenge (mk_arr []))),
           WsBinary (frame_encode (Welcome (mk_arr [])))]]
        (spawn_driver 0 [spec_plain ''ws://r/'']
           (Some (with_paired
              [(NodeId (mk_arr [2]), \<lparr>rv_case = CaseNone, static_x = mk_arr [5], eph_x = mk_arr []\<rparr>)] [])))) =
       (d', Queued) \<and> outbound d' = [SendTag g [1, 2, 3]]"
proof -
  let ?m = "\<lparr>rv_case = CaseNone, static_x = mk_arr [5], eph_x = mk_arr []\<rparr>"
  let ?p = "NodeId (mk_arr [2])" and ?key = "from_seed plain_crypto (mk_arr [1])"
  let ?b = "with_paired [(?p, ?m)] []" and ?spec = "spec_plain ''ws://r/''"
  let ?up = "Attempt 0 0 True True [WsBinary (frame_encode (Challenge (mk_arr []))),
    WsBinary (frame_encode (Welcome (mk_arr [])))]"
  let ?d = "driver_run plain_crypto ?key [?up] (spawn_driver 0 [?spec] (Some ?b))"
  have h: "spec_host ?spec = Inr ''r''" by code_simp
  have reg: "fst (registration plain_crypto ''r'' 0 ?b) = ?b" "snd (registration plain_crypto ''r'' 0 ?b) \<noteq> []"
    by (simp_all add: registration_def Let_def prune_expired_def with_paired_def window_def EPOCH_WINDOW_def
        map_filter_simps checked_add_signed_def epoch_index_def)
  obtain ts where ts: "registration plain_crypto ''r'' 0 ?b = (?b, ts)" "ts \<noteq> []"
    using reg by (metis prod.collapse)
  have d: "?d = (wake_all (set_status (Up (spec_url ?spec)) ((count_registration (send_frame (Register ts)
      ((spawn_driver 0 [?spec] (Some ?b))\<lparr>book := Some ?b\<rparr>)))\<lparr>backoff := BACKOFF_MIN, outbound := []\<rparr>)))
    \<lparr>phase := Pumping ''r'' (epoch_index 0) (version ?b)\<rparr>"
    unfolding driver_run_def using up_after_welcome [OF _ _ h _ _ ts, of _ ?key 0]
    by (simp add: spawn_driver_def book_is_empty_def with_paired_def del: frame_encode.simps)
  have "snd (current_host ?d) = Some ''r''" "\<not> stopped ?d" "phase ?d \<noteq> Finished" "outbound ?d = []"
      "book (fst (current_host ?d)) = Some ?b" "phase (fst (current_host ?d)) \<noteq> Finished"
      "outbound (fst (current_host ?d)) = []" "book ?d = Some ?b"
    unfolding d using h
    by (simp_all add: current_host_def spec_plain_def spawn_driver_def count_registration_def send_frame_def)
  moreover obtain g where "snd (tag_for_send plain_crypto ?p ''r'' 0 ?b) = Some g"
    by (simp add: tag_for_send_def fresh_tag_def Let_def prune_expired_def with_paired_def)
  ultimately obtain d' where s: "driver_try_send plain_crypto 0 ?p [1, 2, 3] ?d = (d', Queued)"
      and e: "outbound ?d = []"
    by (simp add: driver_try_send_def Let_def split_beta enqueue_def MAX_QUEUED_FRAMES_def split: option.splits)
  have "distinct (map fst [(?p, ?m)])" "distinct (map fst [])" by simp_all
  from tag_send_for_current_relay [OF this refl s] obtain g where "outbound d' = outbound ?d @ [SendTag g [1, 2, 3]]"
    by blast
  with s e show ?thesis by (metis append_Nil)
qed

section \<open>The pool\<close>

definition pool_ok :: "relay_spec list \<Rightarrow> pool \<Rightarrow> bool" where
  "pool_ok specs p \<longleftrightarrow>
     distinct (map fst (extra p)) \<and> length (extra p) \<le> MAX_EXTRA_DRIVERS \<and>
     next_id p = Suc (length (extra p)) \<and> dom (by_id p) = {..<next_id p} \<and>
     (\<forall>i d. by_id p i = Some d \<longrightarrow> driver_id d = i) \<and>
     (\<exists>home. by_id p 0 = Some home \<and> relays home = specs) \<and>
     (\<forall>(us, i)\<in>set (extra p). 0 < i \<and> (\<exists>d. by_id p i = Some d \<and> driver_urls d = us)) \<and>
     length (pool_inbound p) \<le> INBOUND_CAPACITY"

lemma pool_okD:
  assumes "pool_ok specs p"
  shows "distinct (map fst (extra p))" "length (extra p) \<le> MAX_EXTRA_DRIVERS"
    "next_id p = Suc (length (extra p))" "dom (by_id p) = {..<next_id p}"
    "by_id p i = Some d \<Longrightarrow> driver_id d = i" "\<exists>home. by_id p 0 = Some home \<and> relays home = specs"
    "(us, i) \<in> set (extra p) \<Longrightarrow> 0 < i \<and> (\<exists>d. by_id p i = Some d \<and> driver_urls d = us)"
    "length (pool_inbound p) \<le> INBOUND_CAPACITY"
  using assms unfolding pool_ok_def by blast+

lemma spawn_driver_id [simp]: "driver_id (spawn_driver i specs b) = i"
  by (simp add: spawn_driver_def Let_def)

lemma pool_ok_spawn: "pool_ok specs (pool_spawn key specs b)"
  by (auto simp: pool_ok_def pool_spawn_def MAX_EXTRA_DRIVERS_def)

lemma pool_ok_drivers:
  assumes "pool_ok specs p" "dom m = dom (by_id p)"
    and "\<And>i d d'. by_id p i = Some d \<Longrightarrow> m i = Some d' \<Longrightarrow> relays d' = relays d \<and> driver_id d' = driver_id d"
  shows "pool_ok specs (p\<lparr>by_id := m\<rparr>)"
proof -
  have keep: "\<exists>d'. m i = Some d' \<and> relays d' = relays d \<and> driver_id d' = driver_id d"
    if "by_id p i = Some d" for i d
    using assms(2,3) that by (metis domD domI)
  have was: "\<exists>d. by_id p i = Some d" if "m i = Some d'" for i d'
    using assms(2) that by (metis domD domI)
  show ?thesis
    unfolding pool_ok_def
  proof (intro conjI)
    show "\<forall>i d. by_id (p\<lparr>by_id := m\<rparr>) i = Some d \<longrightarrow> driver_id d = i"
      using was assms(3) pool_okD(5) [OF assms(1)] by fastforce
    show "\<exists>home. by_id (p\<lparr>by_id := m\<rparr>) 0 = Some home \<and> relays home = specs"
      using keep pool_okD(6) [OF assms(1)] by fastforce
    show "\<forall>(us, i)\<in>set (extra (p\<lparr>by_id := m\<rparr>)). 0 < i \<and>
        (\<exists>d. by_id (p\<lparr>by_id := m\<rparr>) i = Some d \<and> driver_urls d = us)"
      using keep pool_okD(7) [OF assms(1)] by (fastforce simp: driver_urls_def)
  qed (use pool_okD [OF assms(1)] assms(2) in auto)
qed

lemma pool_ok_give: "pool_ok specs p \<Longrightarrow> pool_ok specs (pool_give given p)"
  by (auto simp: pool_ok_def pool_give_def split: option.splits)

lemma pool_ok_shared: "pool_ok specs (p\<lparr>shared := b\<rparr>) = pool_ok specs p"
  by (simp add: pool_ok_def)

lemma update_fresh: "k \<notin> fst ` set al \<Longrightarrow> AList.update k v al = al @ [(k, v)]"
  by (induction al) auto

lemma driver_for_ok:
  assumes "pool_ok specs p"
  shows "pool_ok specs (snd (driver_for ss p))"
proof (cases "snd (driver_for ss p) = p")
  case False
  let ?us = "map spec_url ss" and ?i = "next_id p"
  have new: "map_of (extra p) ?us = None" "length (extra p) < MAX_EXTRA_DRIVERS"
    "snd (driver_for ss p) = p\<lparr>next_id := ?i + 1, extra := AList.update ?us ?i (extra p),
       by_id := (by_id p)(?i \<mapsto> spawn_driver ?i ss (shared p))\<rparr>"
    using False by (auto simp: driver_for_def Let_def not_le split: if_splits option.splits)
  have fresh: "by_id p ?i = None" using pool_okD(4) [OF assms] by (metis lessThan_iff less_irrefl domIff)
  have us: "?us \<notin> fst ` set (extra p)" using new(1) by (simp add: map_of_eq_None_iff)
  then have upd: "AList.update ?us ?i (extra p) = extra p @ [(?us, ?i)]" by (rule update_fresh)
  have "0 < ?i" using pool_okD(3) [OF assms] by simp
  with us show ?thesis
    using pool_okD [OF assms] new fresh unfolding new(3) upd pool_ok_def
    by (auto simp: driver_urls_def lessThan_Suc) (metis fun_upd_other option.distinct(1))+
qed (use assms in simp)

lemma pool_ok_step:
  assumes "pool_ok specs p"
  shows "pool_ok specs (pool_step cr ev p)"
proof (cases ev)
  case (OnDriver i dev)
  show ?thesis
  proof (cases "by_id p i")
    case None
    then show ?thesis using assms OnDriver by (simp add: pool_step_def)
  next
    case (Some d)
    let ?d = "fst (driver_step cr (pool_key p) dev (d\<lparr>book := shared p\<rparr>))"
    have "same_driver (d\<lparr>book := shared p\<rparr>) ?d" by (rule same_driver_step)
    then have same: "relays ?d = relays d \<and> driver_id ?d = driver_id d" by (simp add: same_driver_def)
    have "pool_ok specs (p\<lparr>by_id := (by_id p)(i \<mapsto> ?d)\<rparr>)"
    proof (rule pool_ok_drivers [OF assms])
      show "dom ((by_id p)(i \<mapsto> ?d)) = dom (by_id p)" using Some by auto
      show "relays d' = relays e \<and> driver_id d' = driver_id e"
        if "by_id p j = Some e" "((by_id p)(i \<mapsto> ?d)) j = Some d'" for j e d'
        using that same Some by (cases "j = i") auto
    qed
    then show ?thesis
      using OnDriver Some pool_ok_give pool_ok_shared
      by (simp add: pool_step_def split_beta Let_def)
  qed
next
  case (DriverFor ss)
  then show ?thesis using driver_for_ok [OF assms] by (simp add: pool_step_def)
next
  case (PoolBookOp bop)
  then show ?thesis using assms by (simp add: pool_step_def pool_ok_shared)
next
  case TakeInbound
  then show ?thesis using assms by (auto simp: pool_step_def pool_ok_def)
next
  case ClosePool
  have "relays (stop_driver d) = relays d \<and> driver_id (stop_driver d) = driver_id d" for d
    by (simp add: stop_driver_def wake_all_def)
  then have "pool_ok specs (p\<lparr>by_id := (\<lambda>i. map_option stop_driver (by_id p i))\<rparr>)"
    by (intro pool_ok_drivers [OF assms]) auto
  then show ?thesis using ClosePool by (simp add: pool_step_def pool_close_def)
qed

interpretation pool: machine "pool_step cr" "pool_ok specs" for cr specs
  by unfold_locales (rule pool_ok_step)

lemma driver_for_again:
  assumes "pool_ok specs p"
  shows "fst (driver_for ss (snd (driver_for ss p))) = fst (driver_for ss p)"
proof (cases "snd (driver_for ss p) = p")
  case False
  let ?us = "map spec_url ss" and ?i = "next_id p"
  have new: "?us \<noteq> []" "?us \<noteq> driver_urls (the (by_id p 0))" "\<not> stopped (the (by_id p 0))"
    "driver_for ss p = (?i, p\<lparr>next_id := ?i + 1, extra := AList.update ?us ?i (extra p),
       by_id := (by_id p)(?i \<mapsto> spawn_driver ?i ss (shared p))\<rparr>)"
    using False by (auto simp: driver_for_def Let_def split: if_splits option.splits)
  have "0 < ?i" using pool_okD(3) [OF assms] by simp
  then show ?thesis using new by (simp add: driver_for_def [of ss "_\<lparr>by_id := _\<rparr>"] Let_def update_conv')
qed simp

lemma driver_for_urls:
  assumes "pool_ok specs p" "driver_for ss p = (i, p')"
  shows "\<exists>d. by_id p' i = Some d \<and> driver_id d = i \<and> (i = 0 \<or> driver_urls d = map spec_url ss)"
proof -
  have "i = 0 \<and> p' = p \<or> map_of (extra p) (map spec_url ss) = Some i \<and> p' = p \<or>
      by_id p' i = Some (spawn_driver i ss (shared p))"
    using assms(2) by (auto simp: driver_for_def Let_def split: if_splits option.splits)
  then show ?thesis
  proof (elim disjE conjE)
    assume "map_of (extra p) (map spec_url ss) = Some i" "p' = p"
    then show ?thesis
      using pool_okD(7) [OF assms(1), of "map spec_url ss" i] pool_okD(5) [OF assms(1)] map_of_SomeD by metis
  next
    assume "i = 0" "p' = p"
    then show ?thesis using pool_okD(5,6) [OF assms(1)] by metis
  qed (simp add: driver_urls_def)
qed

text \<open>The relay fan-out is bounded and stable. After any sequence of events the pool has the home
  driver over the configured list and at most sixteen others, and at most 512 datagrams wait for the
  path socket. Asking for a driver over a list gives one that exists and is over exactly these URLs, or
  the home driver; asking again gives the same.\<close>

theorem pool_bounded_and_stable:
  "card (dom (by_id (pool_run cr es (pool_spawn key specs b)))) \<le> 17 \<and>
   length (pool_inbound (pool_run cr es (pool_spawn key specs b))) \<le> 512 \<and>
   (\<exists>home. by_id (pool_run cr es (pool_spawn key specs b)) 0 = Some home \<and> relays home = specs) \<and>
   (case driver_for ss (pool_run cr es (pool_spawn key specs b)) of (i, p) \<Rightarrow>
      fst (driver_for ss p) = i \<and>
      (\<exists>d. by_id p i = Some d \<and> driver_id d = i \<and> (i = 0 \<or> driver_urls d = map spec_url ss)))"
proof -
  let ?p = "pool_run cr es (pool_spawn key specs b)"
  have ok: "pool_ok specs ?p"
    unfolding pool_run_def by (rule pool.run_inv) (rule pool_ok_spawn)
  then have "card (dom (by_id ?p)) \<le> 17"
    using pool_okD(2-4) [OF ok] by (simp add: MAX_EXTRA_DRIVERS_def)
  then show ?thesis
    using pool_okD(6,8) [OF ok] driver_for_again [OF ok, of ss] driver_for_urls [OF ok, of ss]
    by (auto simp: INBOUND_CAPACITY_def split: prod.splits)
qed

end
