(* ===== verification/Network.thy ===== *)
theory Network
  imports Relay_System Relay_Client
begin

text \<open>
  The relay of \<open>link-relay\<close> and the relay clients of \<open>link-endpoint\<close> put together: a client that connects
  is admitted in the mode its book asks for, and a datagram that one end of a pair sends under a
  rendezvous tag arrives at the other end attributed to the sender. Both sides run their own model;
  what one writes is what the other reads, as the bytes of the frame.
\<close>

section \<open>Joining\<close>

definition client_mode :: "crypto \<Rightarrow> transport_key \<Rightarrow> string \<Rightarrow> u64 \<Rightarrow> driver \<Rightarrow> mode" where
  "client_mode cr key host now_unix d =
     (case book d of
        None \<Rightarrow> Identity (key_node_id key)
      | Some b \<Rightarrow> Tags (snd (registration cr host now_unix b)))"

definition registrable :: "mode \<Rightarrow> bool" where
  "registrable m = (case m of Identity _ \<Rightarrow> True | Tags ts \<Rightarrow> ts \<noteq> [] \<and> length ts \<le> MAX_TAGS_PER_REGISTER)"

definition hello :: "crypto \<Rightarrow> transport_key \<Rightarrow> string \<Rightarrow> 32 arr \<Rightarrow> mode \<Rightarrow> frame" where
  "hello cr key host challenge m =
     (case m of
        Identity _ \<Rightarrow> Auth (key_node_id key) (sign_relay_auth cr key host challenge)
      | Tags ts \<Rightarrow> Register ts)"

lemma hello_frame_ok: "registrable m \<Longrightarrow> frame_ok (hello cr key host challenge m)"
  by (cases m) (simp_all add: hello_def registrable_def)

lemma answer_is_hello:
  assumes "m = client_mode cr key host t d" "registrable m"
  shows "\<exists>d'. answer_challenge cr key host challenge t True d = (d', Inr ()) \<and>
    wire_log d' = wire_log d @ [hello cr key host challenge m]"
  using assms
  by (cases "book d")
    (auto simp: answer_challenge_def client_mode_def hello_def registrable_def send_frame_def
      count_registration_def split: prod.split)

lemma connect_says_hello:
  assumes "spec_host spec = Inr host" "m = client_mode cr key host t d" "registrable m"
  shows "\<exists>d'. connect cr key spec t True True
      [WsBinary (frame_encode (Challenge challenge)), WsBinary (frame_encode (Welcome token))] d = (d', Inr ()) \<and>
    wire_log d' = wire_log d @ [hello cr key host challenge m]"
proof -
  obtain d' where d': "answer_challenge cr key host challenge t True d = (d', Inr ())"
      "wire_log d' = wire_log d @ [hello cr key host challenge m]"
    using answer_is_hello [OF assms(2,3)] by blast
  have "frame_decode (frame_encode (Challenge challenge)) = Some (Challenge challenge)"
    "frame_decode (frame_encode (Welcome token)) = Some (Welcome token)"
    by (rule frame_decode_encode, simp)+
  then show ?thesis using d' assms(1)
    by (simp add: connect_def expect_challenge_def expect_welcome_def next_frame_def)
qed

lemma first_contact_hello:
  assumes "ed25519_correct cr" "key = from_seed cr sd" "host \<in> set (hosts config)" "registrable m"
    and "m = client_mode cr key host t d"
  shows "\<exists>r q'. first_contact cr config challenge sid (binary (hello cr key host challenge m)) rg q = Inr (m, r, q')"
proof (cases "book d")
  case None
  have "verify_relay_auth cr (key_node_id key) host challenge (sign_relay_auth cr key host challenge)"
    using assms(1,2) by (simp add: verify_relay_auth_def sign_relay_auth_def node_verify_own_signature)
  then have "list_ex (\<lambda>h. verify_relay_auth cr (key_node_id key) h challenge (sign_relay_auth cr key host challenge)) (hosts config)"
    using assms(3) by (auto simp: list_ex_iff)
  then show ?thesis using None assms(4,5) hello_frame_ok [OF assms(4)]
    by (simp add: first_contact_def hello_def client_mode_def Let_def)
next
  case (Some b)
  then show ?thesis using assms(4,5) hello_frame_ok [OF assms(4), of cr key host challenge]
    by (simp add: first_contact_def hello_def client_mode_def registrable_def split: prod.split)
qed

text \<open>C2: A client and a relay agree on the handshake. Let a relay be at a state that still admits the
  client's address, and a client try one of the relay's own host names with a key pair of its own.
  The relay's challenge, the client's answer to it and the relay's welcome to that answer, each sent
  as bytes, make the client's connect succeed and leave the relay serving the connection in the mode
  that the client asked for: by the client's node identity without a tag book, and by exactly the
  tags its book registers (some, and not more than a frame holds) with one.\<close>

theorem client_joins_relay:
  assumes "ed25519_correct cr" "key = from_seed cr sd"
    and "spec_host spec = Inr host" "host \<in> set (hosts config)"
    and "conns st cid = None" "admit config source_ip (reg st) \<noteq> None"
    and "m = client_mode cr key host now_unix d" "registrable m"
  shows "\<exists>hi st1 st2 d' k s.
    relay_step cr config (Accept cid source_ip challenge) st = (st1, [binary (Challenge challenge)]) \<and>
    relay_step cr config (First cid t token (binary hi)) st1 = (st2, [binary (Welcome token)]) \<and>
    connect cr key spec now_unix True True
      [WsBinary (frame_encode (Challenge challenge)), WsBinary (frame_encode (Welcome token))] d = (d', Inr ()) \<and>
    wire_log d' = wire_log d @ [hi] \<and>
    conns st2 cid = Some k \<and> conn.phase k = Serving s \<and> mode s = m"
proof -
  obtain r where r: "admit config source_ip (reg st) = Some r" using assms(6) by auto
  let ?hi = "hello cr key host challenge m"
  let ?st1 = "st\<lparr>reg := r, conns := (conns st)(cid \<mapsto> \<lparr>conn_source = source_ip, conn.phase = Handshake challenge\<rparr>)\<rparr>"
  have a: "relay_step cr config (Accept cid source_ip challenge) st = (?st1, [binary (Challenge challenge)])"
    using assms(5) r by (simp add: on_accept_def)
  obtain r' q' where f: "first_contact cr config challenge (next_session_id st) (binary ?hi) r
      ((queues st)(next_session_id st \<mapsto> [])) = Inr (m, r', q')"
    using first_contact_hello [OF assms(1,2,4,8,7)] by blast
  obtain d' where "connect cr key spec now_unix True True
      [WsBinary (frame_encode (Challenge challenge)), WsBinary (frame_encode (Welcome token))] d = (d', Inr ())"
      "wire_log d' = wire_log d @ [?hi]"
    using connect_says_hello [OF assms(3,7,8)] by blast
  then show ?thesis using a f by (auto simp: on_first_def session_new_def Let_def)
qed

text \<open>A relay and a client to evaluate at.\<close>

definition open_relay :: relay_config where
  "open_relay =
     \<lparr>hosts = [''r''], bytes_per_second = 1000, max_sessions = 4, max_sessions_per_source = 0,
      reflector_per_second = 1\<rparr>"

theorem client_joins_relay_witness:
  "\<exists>hi st1 st2 d' k s.
    relay_step plain_crypto open_relay (Accept 7 (V4 1) (mk_arr [9])) relay_start = (st1, [binary (Challenge (mk_arr [9]))]) \<and>
    relay_step plain_crypto open_relay (First 7 0 (mk_arr [3]) (binary hi)) st1 = (st2, [binary (Welcome (mk_arr [3]))]) \<and>
    connect plain_crypto (from_seed plain_crypto (mk_arr [1])) (spec_plain ''wss://r'') 0 True True
      [WsBinary (frame_encode (Challenge (mk_arr [9]))), WsBinary (frame_encode (Welcome (mk_arr [3])))]
      (spawn_driver 0 [spec_plain ''wss://r''] None) = (d', Inr ()) \<and>
    wire_log d' = wire_log (spawn_driver 0 [spec_plain ''wss://r''] None) @ [hi] \<and>
    conns st2 7 = Some k \<and> conn.phase k = Serving s \<and>
    mode s = Identity (key_node_id (from_seed plain_crypto (mk_arr [1])))"
proof (rule client_joins_relay [where sd = "mk_arr [1]" and host = "''r''"])
  show "spec_host (spec_plain ''wss://r'') = Inr ''r''" by code_simp
  show "Identity (key_node_id (from_seed plain_crypto (mk_arr [1]))) =
      client_mode plain_crypto (from_seed plain_crypto (mk_arr [1])) ''r'' 0 (spawn_driver 0 [spec_plain ''wss://r''] None)"
    by (simp add: client_mode_def spawn_driver_def)
qed (simp_all add: plain_crypto_ed25519 open_relay_def relay_start_def admit_def registry_default_def registrable_def)

section \<open>A datagram between the two ends of a pair\<close>

lemma send_all_keeps_head: "q c = Some (f # fs) \<Longrightarrow> \<exists>fs'. fst (send_all g cs q) c = Some (f # fs')"
proof (induction cs arbitrary: q fs)
  case (Cons x cs)
  have "\<exists>fs'. fst (try_send x g q) c = Some (f # fs')"
    using Cons.prems by (auto simp: try_send_def split: option.split)
  then show ?case using Cons.IH [of "fst (try_send x g q)"] by (auto simp: Let_def split: prod.splits)
qed simp

lemma send_all_delivers: "c \<in> set cs \<Longrightarrow> q c = Some [] \<Longrightarrow> \<exists>fs. fst (send_all f cs q) c = Some (f # fs)"
proof (induction cs arbitrary: q)
  case (Cons x cs)
  show ?case
  proof (cases "x = c")
    case True
    then have "fst (try_send x f q) c = Some [f]" using Cons.prems(2) by (simp add: try_send_def MAX_QUEUED_FRAMES_def)
    then show ?thesis
      using send_all_keeps_head [of "fst (try_send x f q)" c f "[]" f cs] by (auto simp: Let_def split: prod.splits)
  next
    case False
    then have "fst (try_send x f q) c = Some []" using Cons.prems(2) by (auto simp: try_send_def split: option.split)
    then show ?thesis using Cons.IH [of "fst (try_send x f q)"] Cons.prems(1) False by (auto simp: Let_def split: prod.splits)
  qed
qed simp

text \<open>The relay takes a tag datagram from one session and gives it to another that holds the tag.\<close>

lemma relay_carries_tag:
  assumes "conns st ca = Some ka" "conn.phase ka = Serving sa" "mode sa = Tags ts"
    and "conns st cb = Some kb" "conn.phase kb = Serving sb" "session_id sa \<noteq> session_id sb" "ca \<noteq> cb"
    and "tags (reg st) g = Some es" "(session_id sb, session_id sb) \<in> set es"
    and "snd (budget_allow (length datagram) t (budget sa))"
    and "queues st (session_id sb) = Some []" "frame_ok (SendTag g datagram)"
  shows "\<exists>st1 st2. relay_step cr config (Message ca t (Some (binary (SendTag g datagram)))) st = (st1, []) \<and>
    relay_step cr config (Outbound cb) st1 = (st2, [binary (RecvTag g datagram)])"
proof -
  obtain b ok where b: "budget_allow (length datagram) t (budget sa) = (b, ok)" by (rule prod.exhaust)
  let ?targets = "tag_targets g (session_id sa) (reg st)"
  have c: "session_id sb \<in> set ?targets"
    using assms(6,8,9) by (force simp: tag_targets_def)
  obtain fs where fs: "fst (send_all (RecvTag g datagram) ?targets (queues st)) (session_id sb) = Some (RecvTag g datagram # fs)"
    using send_all_delivers [of "session_id sb" ?targets "queues st" "RecvTag g datagram"] c assms(11) by blast
  have "frame_decode (frame_encode (SendTag g datagram)) = Some (SendTag g datagram)"
    by (rule frame_decode_encode [OF assms(12)])
  then have "\<exists>st1. relay_step cr config (Message ca t (Some (binary (SendTag g datagram)))) st = (st1, []) \<and>
      conns st1 cb = Some kb \<and> queues st1 (session_id sb) = Some (RecvTag g datagram # fs)"
    using assms(1-4,7,10) b c fs
    by (auto simp: in_session_def on_message_def decode_binary_def binary_def on_send_tag_def Let_def split: prod.splits
        simp del: frame_encode.simps)
  then show ?thesis using assms(5) by (auto simp: in_session_def on_outbound_def)
qed

text \<open>A driver that is up and has room queues a datagram for a peer under the tag its book gives.\<close>

lemma try_send_tag:
  assumes "\<not> stopped d" "book d = Some b" "current_host d = (d1, Some h)"
    and "driver.phase d \<noteq> Finished" "length (outbound d) < MAX_QUEUED_FRAMES"
    and "snd (tag_for_send cr p h t b) = Some g"
  shows "\<exists>d'. driver_try_send cr t p datagram d = (d', Queued) \<and> outbound d' = outbound d @ [SendTag g datagram]"
proof -
  have "d1 = d \<or> (\<exists>x. d1 = d\<lparr>host_memo := x\<rparr>)"
    using assms(3) by (auto simp: current_host_def split: relay_status.splits option.splits sum.splits if_splits)
  then have "driver.phase d1 = driver.phase d \<and> outbound d1 = outbound d" by auto
  then show ?thesis using assms
    by (auto simp: driver_try_send_def enqueue_def Let_def split: prod.splits)
qed

text \<open>C1: A datagram crosses from one end of a pair to the other. Let \<open>a\<close> and \<open>b\<close> have each other in their
  books with the pair's material (and nothing newer for each other in \<open>a\<close>'s), their clocks at most
  one epoch apart, and let no other peer of \<open>b\<close> have a tag that collides. Let \<open>a\<close>'s client be up at the
  relay's host with room in its queue, and the relay serve both in tag mode, with what \<open>b\<close>'s book
  registers at that moment. Then the datagram \<open>a\<close> queues for \<open>b\<close>, once sent, is put by the relay on
  \<open>b\<close>'s connection, and \<open>b\<close>'s client hands it on as a datagram from \<open>a\<close>, without the relay or the
  frames having carried the name of either.\<close>

theorem tag_datagram_arrives:
  assumes "book_ok cr book_a" "map_of (peers book_a) b = Some m"
    and "map_of (pairing book_a) b = None" "map_of (paired book_a) b = None"
    and "(a, m) \<in> set (peers book_b)"
    and "\<bar>uint (epoch_index now_a) - uint (epoch_index now_b)\<bar> \<le> 1"
    and "\<forall>(k, m')\<in>set (peers book_b). \<forall>e\<in>set (window now_b).
           material_tag cr m' h e = material_tag cr m h (epoch_index now_a) \<longrightarrow> k = a"
    and "\<not> stopped da" "book da = Some book_a" "current_host da = (da', Some h)"
    and "driver.phase da \<noteq> Finished" "length (outbound da) < MAX_QUEUED_FRAMES"
    and "1 \<le> length datagram" "length datagram \<le> MAX_DATAGRAM"
    and "conns st ca = Some ka" "conn.phase ka = Serving sa" "mode sa = Tags ts"
    and "conns st cb = Some kb" "conn.phase kb = Serving sb" "session_id sa \<noteq> session_id sb" "ca \<noteq> cb"
    and "\<forall>g\<in>set (snd (registration cr h now_b book_b)).
           \<exists>es. tags (reg st) g = Some es \<and> (session_id sb, session_id sb) \<in> set es"
    and "snd (budget_allow (length datagram) t (budget sa))" "queues st (session_id sb) = Some []"
    and "book db = Some book_b"
  shows "\<exists>g d1 st1 st2 d2.
    driver_try_send cr now_a b datagram da = (d1, Queued) \<and> outbound d1 = outbound da @ [SendTag g datagram] \<and>
    relay_step cr config (Message ca t (Some (binary (SendTag g datagram)))) st = (st1, []) \<and>
    relay_step cr config (Outbound cb) st1 = (st2, [binary (RecvTag g datagram)]) \<and>
    on_relay_frame cr h now_b (frame_decode (frame_encode (RecvTag g datagram))) db =
      (d2, Some \<lparr>in_source = a, in_datagram = datagram, in_driver = driver_id db\<rparr>, None)"
proof -
  obtain g where g: "snd (tag_for_send cr b h now_a book_a) = Some g"
      "g \<in> set (snd (registration cr h now_b book_b))" "snd (resolve cr g h now_b book_b) = Some a"
    using pair_meets_within_one_epoch [OF assms(1-7)] by blast
  obtain d1 where d1: "driver_try_send cr now_a b datagram da = (d1, Queued)"
      "outbound d1 = outbound da @ [SendTag g datagram]"
    using try_send_tag [OF assms(8-12) g(1)] by blast
  obtain es where es: "tags (reg st) g = Some es" "(session_id sb, session_id sb) \<in> set es"
    using assms(22) g(2) by blast
  obtain st1 st2 where "relay_step cr config (Message ca t (Some (binary (SendTag g datagram)))) st = (st1, [])"
      "relay_step cr config (Outbound cb) st1 = (st2, [binary (RecvTag g datagram)])"
    using relay_carries_tag [OF assms(15-21) es assms(23,24)] assms(13,14) by auto
  moreover have "frame_decode (frame_encode (RecvTag g datagram)) = Some (RecvTag g datagram)"
    by (rule frame_decode_encode) (use assms(13,14) in simp)
  then have "\<exists>d2. on_relay_frame cr h now_b (frame_decode (frame_encode (RecvTag g datagram))) db =
      (d2, Some \<lparr>in_source = a, in_datagram = datagram, in_driver = driver_id db\<rparr>, None)"
    using assms(25) g(3)
    by (cases "resolve cr g h now_b book_b")
      (simp add: on_relay_frame_def count_received_def count_resolved_def Let_def)
  ultimately show ?thesis using d1 by blast
qed

text \<open>Two ends of a pair at one relay.\<close>

definition pair_a :: node_id where "pair_a = NodeId (mk_arr [1])"
definition pair_b :: node_id where "pair_b = NodeId (mk_arr [2])"
definition pair_m :: rendezvous_peer where "pair_m = \<lparr>rv_case = CaseNone, static_x = mk_arr [5], eph_x = mk_arr []\<rparr>"

definition end_a :: driver where
  "end_a = (spawn_driver 0 [spec_plain ''wss://r''] (Some (with_paired [(pair_b, pair_m)] [])))
     \<lparr>relay_status := Up ''wss://r'', host_memo := Some (''wss://r'', ''r''), driver.phase := Pumping ''r'' 1 0\<rparr>"

definition end_b :: driver where
  "end_b = spawn_driver 0 [spec_plain ''wss://r''] (Some (with_paired [(pair_a, pair_m)] []))"

definition pair_relay :: relay where
  "pair_relay =
     \<lparr>reg = registry_default\<lparr>tags := (\<lambda>_. Some [(1, 1), (2, 2)]), live := 2\<rparr>,
      queues = [1 \<mapsto> [], 2 \<mapsto> []],
      conns = [1 \<mapsto> \<lparr>conn_source = V4 1, conn.phase = Serving (session_new open_relay 1 (Tags []) 0)\<rparr>,
               2 \<mapsto> \<lparr>conn_source = V4 2, conn.phase = Serving (session_new open_relay 2 (Tags []) 0)\<rparr>],
      next_session_id = 3\<rparr>"

theorem tag_datagram_arrives_witness:
  "\<exists>g d1 st1 st2 d2.
    driver_try_send plain_crypto 7199 pair_b [4] end_a = (d1, Queued) \<and> outbound d1 = outbound end_a @ [SendTag g [4]] \<and>
    relay_step plain_crypto open_relay (Message 1 0 (Some (binary (SendTag g [4])))) pair_relay = (st1, []) \<and>
    relay_step plain_crypto open_relay (Outbound 2) st1 = (st2, [binary (RecvTag g [4])]) \<and>
    on_relay_frame plain_crypto ''r'' 7200 (frame_decode (frame_encode (RecvTag g [4]))) end_b =
      (d2, Some \<lparr>in_source = pair_a, in_datagram = [4], in_driver = driver_id end_b\<rparr>, None)"
proof (rule tag_datagram_arrives [where book_a = "with_paired [(pair_b, pair_m)] []" and m = pair_m
      and book_b = "with_paired [(pair_a, pair_m)] []" and da' = end_a and ts = "[]"
      and ka = "\<lparr>conn_source = V4 1, conn.phase = Serving (session_new open_relay 1 (Tags []) 0)\<rparr>"
      and kb = "\<lparr>conn_source = V4 2, conn.phase = Serving (session_new open_relay 2 (Tags []) 0)\<rparr>"
      and sa = "session_new open_relay 1 (Tags []) 0" and sb = "session_new open_relay 2 (Tags []) 0"])
  show "book_ok plain_crypto (with_paired [(pair_b, pair_m)] [])" by (simp add: book_ok_with_paired)
  show "snd (budget_allow (length [4 :: u8]) 0 (budget (session_new open_relay 1 (Tags []) 0)))"
    by (simp add: budget_allow_def session_new_def byte_budget_new_def open_relay_def Let_def)
qed (simp_all add: with_paired_def end_a_def end_b_def spawn_driver_def current_host_def pair_relay_def session_new_def
    MAX_QUEUED_FRAMES_def MAX_DATAGRAM_def epoch_index_def EPOCH_SECONDS_def)

end
