(* ===== verification/Net_Monitor.thy ===== *)
theory Net_Monitor
  imports Net_Addr
begin

text \<open>
  \<open>link-endpoint/src/netmon.rs\<close>: the interface monitor, a generation counter that moves when the set of
  interface addresses changes. A snapshot of the interfaces is an argument.
\<close>

text \<open>The order Rust derives for \<open>IpAddr\<close>: v4 before v6, then by octets.\<close>

instantiation ip_addr :: linorder
begin

fun less_eq_ip_addr :: "ip_addr \<Rightarrow> ip_addr \<Rightarrow> bool" where
  "less_eq_ip_addr (V4 a) (V4 b) \<longleftrightarrow> a \<le> b"
| "less_eq_ip_addr (V4 a) (V6 b) \<longleftrightarrow> True"
| "less_eq_ip_addr (V6 a) (V4 b) \<longleftrightarrow> False"
| "less_eq_ip_addr (V6 a) (V6 b) \<longleftrightarrow> a \<le> b"

definition less_ip_addr :: "ip_addr \<Rightarrow> ip_addr \<Rightarrow> bool" where
  "less_ip_addr a b \<longleftrightarrow> a \<le> b \<and> \<not> b \<le> a"

instance
proof
  fix a b c :: ip_addr
  show "a < b \<longleftrightarrow> a \<le> b \<and> \<not> b \<le> a" by (rule less_ip_addr_def)
  show "a \<le> a" by (cases a) simp_all
  show "a \<le> b \<Longrightarrow> b \<le> c \<Longrightarrow> a \<le> c" by (cases a; cases b; cases c) auto
  show "a \<le> b \<Longrightarrow> b \<le> a \<Longrightarrow> a = b" by (cases a; cases b) auto
  show "a \<le> b \<or> b \<le> a" by (cases a; cases b) auto
qed

end

definition normalised :: "ip_addr list \<Rightarrow> ip_addr list" where
  "normalised xs = remdups_adj (sort xs)"

record net_monitor =
  last_seen :: "ip_addr list"
  generation :: u64

text \<open>\<open>NetMonitor::spawn\<close> with the first snapshot, and one tick of its task.\<close>

definition monitor_spawn :: "ip_addr list \<Rightarrow> net_monitor" where
  "monitor_spawn snapshot = \<lparr>last_seen = normalised snapshot, generation = 0\<rparr>"

definition monitor_tick :: "ip_addr list \<Rightarrow> net_monitor \<Rightarrow> net_monitor" where
  "monitor_tick snapshot m =
     (let seen = normalised snapshot
      in if seen \<noteq> last_seen m then m\<lparr>last_seen := seen, generation := generation m + 1\<rparr> else m)"

text \<open>Order and duplicates are not a change.\<close>

lemma distinct_remdups_adj: "sorted xs \<Longrightarrow> distinct (remdups_adj xs)"
  by (induction xs rule: remdups_adj.induct) (auto simp: antisym)

lemma normalised_set: "normalised xs = sorted_list_of_set (set xs)"
  by (rule sorted_distinct_set_unique)
    (simp_all add: normalised_def sorted_remdups_adj distinct_remdups_adj)

lemma normalised_eq_iff: "normalised xs = normalised ys \<longleftrightarrow> set xs = set ys"
  by (metis normalised_set List.finite_set sorted_list_of_set.set_sorted_key_list_of_set)

text \<open>The generation counts the polls that saw another set of addresses than the poll before, modulo the
  width of the counter.\<close>

primrec set_changes :: "ip_addr list \<Rightarrow> ip_addr list list \<Rightarrow> nat" where
  "set_changes s [] = 0"
| "set_changes s (t # ts) = (if set s = set t then 0 else 1) + set_changes t ts"

lemma generation_from:
  "last_seen m = normalised s \<Longrightarrow>
     generation (fold monitor_tick snaps m) = generation m + word_of_nat (set_changes s snaps)"
proof (induction snaps arbitrary: s m)
  case Nil
  then show ?case by simp
next
  case (Cons t ts)
  have "last_seen (monitor_tick t m) = normalised t"
    using Cons.prems by (simp add: monitor_tick_def Let_def)
  moreover have "generation (monitor_tick t m) = generation m + (if set s = set t then 0 else 1)"
    using Cons.prems normalised_eq_iff [of t s] by (auto simp: monitor_tick_def Let_def)
  ultimately show ?case using Cons.IH [of "monitor_tick t m" t] by simp
qed

lemma generation_counts_changes:
  "generation (fold monitor_tick snaps (monitor_spawn s)) = word_of_nat (set_changes s snaps)"
  using generation_from [of "monitor_spawn s" s snaps] by (simp add: monitor_spawn_def)

end
