(* ===== verification/Inbound_Queue.thy ===== *)
theory Inbound_Queue
  imports Relay_Client
begin

text \<open>
  \<open>link-endpoint/src/relay_socket/inbound.rs\<close>: the receive queue of the browser's relay socket. It is
  bounded by count and by bytes; past a bound the oldest peer datagram makes room, and a message
  is refused only when a control frame would have to go.
\<close>

definition INBOUND_BOUND :: nat where "INBOUND_BOUND = 1024"
definition INBOUND_BYTES :: nat where "INBOUND_BYTES = 2097152"
definition MAX_MESSAGE_BYTES :: nat where "MAX_MESSAGE_BYTES = 16384"

record inbound_queue =
  messages :: "ws_item list"
  queue_bytes :: nat

definition queue_default :: inbound_queue where
  "queue_default = \<lparr>messages = [], queue_bytes = 0\<rparr>"

definition message_len :: "ws_item \<Rightarrow> nat" where
  "message_len m = (case m of WsBinary b \<Rightarrow> length b | _ \<Rightarrow> 0)"

definition is_datagram :: "ws_item \<Rightarrow> bool" where
  "is_datagram m = (case m of WsBinary (k # _) \<Rightarrow> k = FRAME_RECV \<or> k = FRAME_RECV_TAG | _ \<Rightarrow> False)"

text \<open>The oldest datagram: what is before it, it and what follows.\<close>

fun split_datagram :: "ws_item list \<Rightarrow> (ws_item list \<times> ws_item \<times> ws_item list) option" where
  "split_datagram [] = None"
| "split_datagram (m # ms) =
     (if is_datagram m then Some ([], m, ms)
      else map_option (\<lambda>(as, d, bs). (m # as, d, bs)) (split_datagram ms))"

lemma split_datagram_None: "split_datagram ms = None \<longleftrightarrow> list_all (\<lambda>m. \<not> is_datagram m) ms"
  by (induction ms) auto

lemma split_datagram_Some:
  "split_datagram ms = Some (as, d, bs) \<Longrightarrow>
     ms = as @ d # bs \<and> is_datagram d \<and> list_all (\<lambda>m. \<not> is_datagram m) as"
  by (induction ms arbitrary: as) (auto split: if_splits)

text \<open>The loop of \<open>push\<close>; \<open>False\<close> when no datagram is left to drop.\<close>

function make_room :: "nat \<Rightarrow> inbound_queue \<Rightarrow> inbound_queue \<times> bool" where
  "make_room len q =
     (if length (messages q) \<ge> INBOUND_BOUND \<or> queue_bytes q + len > INBOUND_BYTES then
        (case split_datagram (messages q) of
           None \<Rightarrow> (q, False)
         | Some (as, d, bs) \<Rightarrow>
             make_room len (q\<lparr>messages := as @ bs, queue_bytes := queue_bytes q - message_len d\<rparr>))
      else (q, True))"
  by auto

termination
  by (relation "measure (\<lambda>(_, q). length (messages q))") (auto dest: split_datagram_Some)

declare make_room.simps [simp del]

definition queue_push :: "ws_item \<Rightarrow> inbound_queue \<Rightarrow> inbound_queue \<times> bool" where
  "queue_push m q =
     (case make_room (message_len m) q of
        (q, False) \<Rightarrow> (q, False)
      | (q, True) \<Rightarrow> (q\<lparr>messages := messages q @ [m], queue_bytes := queue_bytes q + message_len m\<rparr>, True))"

definition queue_pop :: "inbound_queue \<Rightarrow> inbound_queue \<times> ws_item option" where
  "queue_pop q =
     (case messages q of
        [] \<Rightarrow> (q, None)
      | m # ms \<Rightarrow> (q\<lparr>messages := ms, queue_bytes := queue_bytes q - message_len m\<rparr>, Some m))"

datatype queue_event = Push ws_item | Pop

primrec queue_step :: "queue_event \<Rightarrow> inbound_queue \<Rightarrow> inbound_queue" where
  "queue_step (Push m) q = fst (queue_push m q)"
| "queue_step Pop q = fst (queue_pop q)"

section \<open>The bounds\<close>

definition queue_ok :: "inbound_queue \<Rightarrow> bool" where
  "queue_ok q \<longleftrightarrow>
     queue_bytes q = sum_list (map message_len (messages q)) \<and>
     length (messages q) \<le> INBOUND_BOUND \<and> queue_bytes q \<le> INBOUND_BYTES"

lemma queue_ok_drop:
  assumes "queue_ok q" "split_datagram (messages q) = Some (as, d, bs)"
  shows "queue_ok (q\<lparr>messages := as @ bs, queue_bytes := queue_bytes q - message_len d\<rparr>)"
  using assms split_datagram_Some [OF assms(2)] by (simp add: queue_ok_def)

text \<open>What making room does: the oldest \<open>k\<close> datagrams go, control frames stay in their order.\<close>

lemma make_room_facts:
  assumes "queue_ok q" "make_room len q = (q', ok)"
  shows "queue_ok q' \<and>
    filter (\<lambda>m. \<not> is_datagram m) (messages q') = filter (\<lambda>m. \<not> is_datagram m) (messages q) \<and>
    (\<exists>k. filter is_datagram (messages q') = drop k (filter is_datagram (messages q))) \<and>
    (if ok then length (messages q') < INBOUND_BOUND \<and> queue_bytes q' + len \<le> INBOUND_BYTES
     else filter is_datagram (messages q') = [])"
  using assms
proof (induction len q rule: make_room.induct)
  case (1 len q)
  show ?case
  proof (cases "length (messages q) \<ge> INBOUND_BOUND \<or> queue_bytes q + len > INBOUND_BYTES")
    case False
    then have "q' = q" "ok" using 1(3) by (simp_all add: make_room.simps)
    moreover have "\<exists>k. filter is_datagram (messages q) = drop k (filter is_datagram (messages q))"
      by (rule exI [of _ 0]) simp
    ultimately show ?thesis using False 1(2) by simp
  next
    case full: True
    show ?thesis
    proof (cases "split_datagram (messages q)")
      case None
      then have "q' = q" "\<not> ok" using 1(3) full by (auto simp: make_room.simps)
      moreover have "filter is_datagram (messages q) = []"
        using None by (auto simp: split_datagram_None list_all_iff filter_empty_conv)
      ultimately show ?thesis using 1(2) by simp
    next
      case (Some t)
      then obtain as d bs where s: "split_datagram (messages q) = Some (as, d, bs)" by (cases t) auto
      let ?q = "q\<lparr>messages := as @ bs, queue_bytes := queue_bytes q - message_len d\<rparr>"
      have ih: "queue_ok q' \<and>
          filter (\<lambda>m. \<not> is_datagram m) (messages q') = filter (\<lambda>m. \<not> is_datagram m) (messages ?q) \<and>
          (\<exists>k. filter is_datagram (messages q') = drop k (filter is_datagram (messages ?q))) \<and>
          (if ok then length (messages q') < INBOUND_BOUND \<and> queue_bytes q' + len \<le> INBOUND_BYTES
           else filter is_datagram (messages q') = [])"
        by (rule 1(1) [OF full s refl refl queue_ok_drop [OF 1(2) s]])
          (use 1(3) full s in \<open>simp add: make_room.simps [of len q]\<close>)
      have "messages q = as @ d # bs" "is_datagram d" "filter is_datagram as = []"
        using split_datagram_Some [OF s] by (auto simp: filter_empty_conv list_all_iff)
      then have "filter is_datagram (messages q) = d # filter is_datagram (messages ?q)"
        "filter (\<lambda>m. \<not> is_datagram m) (messages q) = filter (\<lambda>m. \<not> is_datagram m) (messages ?q)"
        by simp_all
      then show ?thesis using ih by (metis drop_Suc_Cons)
    qed
  qed
qed

lemma queue_push_facts:
  assumes "queue_ok q" "queue_push m q = (q', ok)"
  shows "queue_ok q' \<and>
    filter (\<lambda>m. \<not> is_datagram m) (messages q') =
      filter (\<lambda>m. \<not> is_datagram m) (messages q) @ (if ok \<and> \<not> is_datagram m then [m] else []) \<and>
    (\<exists>k. filter is_datagram (messages q') =
       drop k (filter is_datagram (messages q)) @ (if ok \<and> is_datagram m then [m] else [])) \<and>
    (ok \<or> filter is_datagram (messages q') = [])"
proof -
  obtain r b where r: "make_room (message_len m) q = (r, b)" by (rule prod.exhaust)
  have "b = ok" "q' = (if b then r\<lparr>messages := messages r @ [m], queue_bytes := queue_bytes r + message_len m\<rparr> else r)"
    using assms(2) r by (auto simp: queue_push_def split: bool.splits)
  then show ?thesis
    using make_room_facts [OF assms(1) r] by (cases ok) (auto simp: queue_ok_def)
qed

interpretation inbound: machine queue_step queue_ok
proof
  fix q e
  assume ok: "queue_ok q"
  show "queue_ok (queue_step e q)"
  proof (cases e)
    case (Push m)
    then show ?thesis using queue_push_facts [OF ok, of m] by (cases "queue_push m q") simp
  next
    case Pop
    then show ?thesis using ok by (auto simp: queue_pop_def queue_ok_def split: list.splits)
  qed
qed

text \<open>C39: a browser's relay queue loses only datagrams, oldest first. After any pushes and pops it holds at
  most 1024 messages of at most two mebibytes, with its byte count exact. A push keeps every queued
  control frame in order, drops only a prefix of the queued datagrams, and refuses the message only
  when no datagram is left to drop.\<close>

theorem queue_loses_oldest_datagrams:
  "let q = fold queue_step es queue_default; (q', ok) = queue_push m q
   in queue_bytes q = sum_list (map message_len (messages q)) \<and> length (messages q) \<le> 1024 \<and>
      queue_bytes q \<le> 2097152 \<and>
      filter (\<lambda>m. \<not> is_datagram m) (messages q') =
        filter (\<lambda>m. \<not> is_datagram m) (messages q) @ (if ok \<and> \<not> is_datagram m then [m] else []) \<and>
      (\<exists>k. filter is_datagram (messages q') =
         drop k (filter is_datagram (messages q)) @ (if ok \<and> is_datagram m then [m] else [])) \<and>
      (ok \<or> filter is_datagram (messages q') = [])"
proof -
  define q where "q = fold queue_step es queue_default"
  have ok: "queue_ok q"
    unfolding q_def by (rule inbound.run_inv) (simp add: queue_ok_def queue_default_def)
  obtain q' b where "queue_push m q = (q', b)" by (rule prod.exhaust)
  then show ?thesis
    using ok queue_push_facts [OF ok]
    unfolding q_def [symmetric] by (auto simp: queue_ok_def INBOUND_BOUND_def INBOUND_BYTES_def)
qed

end
