(* ===== verification/Relay_Transport.thy ===== *)
theory Relay_Transport
  imports Inbound_Queue
begin

text \<open>
  The sockets under a relay driver: \<open>link-endpoint/src/relay_tls.rs\<close> (which certificate a \<open>wss\<close> relay
  must show), \<open>link-endpoint/src/relay_socket/native.rs\<close> (opening a socket over TCP and TLS),
  \<open>link-endpoint/src/relay_socket/web.rs\<close> (the page's \<open>WebSocket\<close> as a state machine driven by the
  browser's events) and \<open>SocketShutdown\<close> of \<open>link-endpoint/src/relay_socket.rs\<close>, the barrier that
  counts browser sockets until the browser confirms them closed. The TCP, TLS and WebSocket
  libraries' answers are arguments.
\<close>

section \<open>The relay's certificate\<close>

definition hex_byte :: "u8 \<Rightarrow> string" where
  "hex_byte b = [digit_char (uint b div 16), digit_char (uint b mod 16)]"

definition hex_text :: "bytes \<Rightarrow> string" where
  "hex_text = concat \<circ> map hex_byte"

text \<open>The verifier a connector is built with. \<open>to_lowercase\<close> of a fingerprint is the ASCII one: a pin with
  any other character equals no digest either way.\<close>

datatype relay_verifier = WebPki | PinnedRelayVerifier "string option"

definition connector :: "relay_spec \<Rightarrow> relay_verifier" where
  "connector spec =
     (case (cert_sha256 spec, insecure_tls spec) of
        (None, False) \<Rightarrow> WebPki
      | (Some fingerprint, _) \<Rightarrow> PinnedRelayVerifier (Some (to_ascii_lowercase fingerprint))
      | (None, True) \<Rightarrow> PinnedRelayVerifier None)"

definition pinned_verify :: "crypto \<Rightarrow> string option \<Rightarrow> bytes \<Rightarrow> string + unit" where
  "pinned_verify cr expected end_entity =
     (case expected of
        Some fp \<Rightarrow>
          if hex_text (bytes_of (sha256 cr end_entity)) \<noteq> fp
          then Inl ''application verification failure'' else Inr ()
      | None \<Rightarrow> Inr ())"

text \<open>The answers of the libraries: \<open>TcpStream::connect\<close> within the ten seconds, the parse of a server
  name, the leaf the relay shows, webpki's verdict on it for a name, the rest of the handshake
  (\<open>rustls\<close> checks the signature with the leaf's key in every mode) and the WebSocket upgrade.\<close>

record relay_net =
  tcp_connect :: "string \<Rightarrow> u16 \<Rightarrow> string + unit"
  server_name :: "string \<Rightarrow> string + unit"
  relay_leaf :: bytes
  webpki_verify :: "string \<Rightarrow> bytes \<Rightarrow> string + unit"
  tls_finish :: "string + unit"
  ws_upgrade :: "string \<Rightarrow> string + unit"

definition verify_leaf :: "crypto \<Rightarrow> relay_net \<Rightarrow> relay_spec \<Rightarrow> string \<Rightarrow> string + unit" where
  "verify_leaf cr net spec host =
     (case connector spec of
        WebPki \<Rightarrow> webpki_verify net host (relay_leaf net)
      | PinnedRelayVerifier expected \<Rightarrow> pinned_verify cr expected (relay_leaf net))"

definition tls_connect :: "crypto \<Rightarrow> relay_net \<Rightarrow> relay_spec \<Rightarrow> string \<Rightarrow> string + unit" where
  "tls_connect cr net spec host =
     (case server_name net host of
        Inl e \<Rightarrow> Inl e
      | Inr _ \<Rightarrow>
          (case verify_leaf cr net spec host of Inl e \<Rightarrow> Inl e | Inr _ \<Rightarrow> tls_finish net))"

text \<open>\<open>RelaySocket::open\<close> of \<open>native.rs\<close>; the result is the URL the upgrade was requested with.\<close>

definition native_open :: "crypto \<Rightarrow> relay_net \<Rightarrow> relay_spec \<Rightarrow> string + string" where
  "native_open cr net spec =
     (case spec_parts spec of
        Inl e \<Rightarrow> Inl e
      | Inr (tls, host, n, path) \<Rightarrow>
          (case tcp_connect net host n of
             Inl e \<Rightarrow> Inl e
           | Inr _ \<Rightarrow>
               (case (if tls then tls_connect cr net spec host else Inr ()) of
                  Inl e \<Rightarrow> Inl e
                | Inr _ \<Rightarrow>
                    (let request = url_text tls host n path
                     in case ws_upgrade net request of Inl e \<Rightarrow> Inl e | Inr _ \<Rightarrow> Inr request))))"

datatype tungstenite_message = Binary bytes | Ping bytes | PongFrame bytes | Text string | CloseFrame | RawFrame bytes

definition native_next :: "(string + tungstenite_message) option \<Rightarrow> ws_item option" where
  "native_next item =
     (case item of
        None \<Rightarrow> None
      | Some (Inl _) \<Rightarrow> Some WsError
      | Some (Inr (Binary b)) \<Rightarrow> Some (WsBinary b)
      | Some (Inr (Ping p)) \<Rightarrow> Some (WsPing p)
      | Some (Inr (PongFrame _)) \<Rightarrow> Some WsPong
      | Some (Inr _) \<Rightarrow> Some WsOther)"

section \<open>The page's WebSocket\<close>

definition SEND_HIGH_WATER :: nat where "SEND_HIGH_WATER = 1048576"

text \<open>\<open>Shared\<close>, the socket's handle and what the browser holds for it. \<open>woken\<close> counts the wakes of a
  waiting task; \<open>held\<close> says that the handle is alive (its handlers set), \<open>guarded\<close> that its
  \<open>SocketGuard\<close> is.\<close>

datatype ready_state = Connecting | Opened | Closing | Closed

record browser_socket =
  sh_open :: bool
  sh_ended :: "string option"
  sh_queue :: inbound_queue
  sh_waker :: bool
  woken :: nat
  ws_state :: ready_state
  ws_sent :: "bytes list"
  held :: bool
  guarded :: bool

definition web_socket_new :: browser_socket where
  "web_socket_new =
     \<lparr>sh_open = False, sh_ended = None, sh_queue = queue_default, sh_waker = False, woken = 0,
      ws_state = Connecting, ws_sent = [], held = True, guarded = True\<rparr>"

definition shared_wake :: "browser_socket \<Rightarrow> browser_socket" where
  "shared_wake s = (if sh_waker s then s\<lparr>sh_waker := False, woken := woken s + 1\<rparr> else s)"

definition shared_end :: "string \<Rightarrow> browser_socket \<Rightarrow> browser_socket" where
  "shared_end reason s =
     shared_wake (if sh_ended s = None then s\<lparr>sh_ended := Some reason\<rparr> else s)"

definition ws_close :: "browser_socket \<Rightarrow> browser_socket" where
  "ws_close s = (if ws_state s = Closed then s else s\<lparr>ws_state := Closing\<rparr>)"

definition on_open :: "browser_socket \<Rightarrow> browser_socket" where
  "on_open s = shared_wake (s\<lparr>sh_open := True\<rparr>)"

text \<open>A message's data: an \<open>ArrayBuffer\<close>'s bytes, or anything else.\<close>

definition on_ws_message :: "bytes option \<Rightarrow> browser_socket \<Rightarrow> browser_socket" where
  "on_ws_message data s =
     (if sh_ended s \<noteq> None then s
      else if (case data of Some b \<Rightarrow> length b > MAX_MESSAGE_BYTES | None \<Rightarrow> False)
      then shared_end ''relay message above the frame bound'' (ws_close s)
      else
        (let m = (case data of Some b \<Rightarrow> WsBinary b | None \<Rightarrow> WsOther)
         in case queue_push m (sh_queue s) of
              (q, False) \<Rightarrow>
                shared_end ''relay control frames arrived faster than they were read''
                  (ws_close (s\<lparr>sh_queue := q\<rparr>))
            | (q, True) \<Rightarrow> shared_wake (s\<lparr>sh_queue := q\<rparr>)))"

definition on_error :: "browser_socket \<Rightarrow> browser_socket" where
  "on_error s = shared_end ''WebSocket error'' s"

definition on_close :: "nat \<Rightarrow> browser_socket \<Rightarrow> browser_socket" where
  "on_close code s = shared_end (''closed with code '' @ number_text 10 (int code)) s"

datatype 'a poll = Ready 'a | Pending

text \<open>The wait at the end of \<open>open\<close>, and the operations of the handle. \<open>buffered\<close> is the browser's
  \<open>bufferedAmount\<close>, \<open>taken\<close> whether its \<open>send\<close> did not throw.\<close>

definition open_poll :: "browser_socket \<Rightarrow> (string + unit) poll \<times> browser_socket" where
  "open_poll s =
     (if sh_open s then (Ready (Inr ()), s)
      else case sh_ended s of
             Some reason \<Rightarrow> (Ready (Inl (''relay WebSocket did not open: '' @ reason)), s)
           | None \<Rightarrow> (Pending, s\<lparr>sh_waker := True\<rparr>))"

definition send_ready :: "nat \<Rightarrow> bool" where
  "send_ready buffered \<longleftrightarrow> buffered \<le> SEND_HIGH_WATER"

definition web_socket_send :: "bytes \<Rightarrow> bool \<Rightarrow> browser_socket \<Rightarrow> (string + unit) \<times> browser_socket" where
  "web_socket_send b taken s =
     (case sh_ended s of
        Some reason \<Rightarrow> (Inl (''relay WebSocket ended: '' @ reason), s)
      | None \<Rightarrow>
          if taken then (Inr (), s\<lparr>ws_sent := ws_sent s @ [b]\<rparr>) else (Inl ''relay send failed'', s))"

definition web_socket_next :: "browser_socket \<Rightarrow> ws_item option poll \<times> browser_socket" where
  "web_socket_next s =
     (case queue_pop (sh_queue s) of
        (q, Some m) \<Rightarrow> (Ready (Some m), s\<lparr>sh_queue := q\<rparr>)
      | (q, None) \<Rightarrow>
          if sh_ended s \<noteq> None then (Ready None, s\<lparr>sh_queue := q\<rparr>)
          else (Pending, s\<lparr>sh_queue := q, sh_waker := True\<rparr>))"

definition web_socket_drop :: "browser_socket \<Rightarrow> browser_socket" where
  "web_socket_drop s = ws_close (s\<lparr>held := False\<rparr>)"

section \<open>The shutdown barrier\<close>

text \<open>The sockets a page has opened and the count of \<open>SocketShutdown\<close>; \<open>wait\<close> returns when it is zero.\<close>

record page_sockets =
  pending :: nat
  sockets :: "browser_socket list"

definition page_new :: page_sockets where
  "page_new = \<lparr>pending = 0, sockets = []\<rparr>"

definition opened :: "page_sockets \<Rightarrow> page_sockets" where
  "opened p = p\<lparr>pending := pending p + 1, sockets := sockets p @ [web_socket_new]\<rparr>"

definition shutdown_wait :: "page_sockets \<Rightarrow> unit poll" where
  "shutdown_wait p = (if pending p = 0 then Ready () else Pending)"

text \<open>\<open>open\<close> up to its wait: the URL check, the browser's constructor (\<open>made\<close>), the guard.\<close>

definition open_start :: "relay_spec \<Rightarrow> bool \<Rightarrow> page_sockets \<Rightarrow> (string + unit) \<times> page_sockets" where
  "open_start spec made p =
     (case browser_url spec of
        Inl e \<Rightarrow> (Inl e, p)
      | Inr _ \<Rightarrow>
          if made then (Inr (), opened p)
          else (Inl ''the browser refused the relay WebSocket'', p))"

text \<open>The task that \<open>drop\<close> spawns: it ends, and lets the guard go, once the browser says \<open>CLOSED\<close>.\<close>

definition reap :: "browser_socket \<Rightarrow> browser_socket \<times> nat" where
  "reap s =
     (if \<not> held s \<and> guarded s \<and> ws_state s = Closed then (s\<lparr>guarded := False\<rparr>, 1) else (s, 0))"

text \<open>The browser's events reach the handlers only while the handle is held. A browser opens a
  connecting socket, delivers messages on an open one and closes once.\<close>

datatype web_socket_event =
    BrowserOpen
  | BrowserMessage "bytes option"
  | BrowserError
  | BrowserClose nat
  | PollOpen
  | PollNext
  | SendBytes bytes bool
  | DropSocket
  | Reap

definition handled :: "(browser_socket \<Rightarrow> browser_socket) \<Rightarrow> browser_socket \<Rightarrow> browser_socket" where
  "handled h s = (if held s then h s else s)"

fun web_socket_step :: "web_socket_event \<Rightarrow> browser_socket \<Rightarrow> browser_socket \<times> nat" where
  "web_socket_step BrowserOpen s =
     (if ws_state s = Connecting then handled on_open (s\<lparr>ws_state := Opened\<rparr>) else s, 0)"
| "web_socket_step (BrowserMessage data) s =
     (if ws_state s = Opened then handled (on_ws_message data) s else s, 0)"
| "web_socket_step BrowserError s = (if ws_state s \<noteq> Closed then handled on_error s else s, 0)"
| "web_socket_step (BrowserClose code) s =
     (if ws_state s \<noteq> Closed then handled (on_close code) (s\<lparr>ws_state := Closed\<rparr>) else s, 0)"
| "web_socket_step PollOpen s =
     (case open_poll s of
        (Ready (Inl _), s) \<Rightarrow> (handled web_socket_drop s, 0)
      | (_, s') \<Rightarrow> (if held s then s' else s, 0))"
| "web_socket_step PollNext s =
     (if held s \<and> sh_open s then snd (web_socket_next s) else s, 0)"
| "web_socket_step (SendBytes b taken) s =
     (if held s \<and> sh_open s then snd (web_socket_send b taken s) else s, 0)"
| "web_socket_step DropSocket s = (handled web_socket_drop s, 0)"
| "web_socket_step Reap s = reap s"

datatype page_event = OpenRelay relay_spec bool | OnSocket nat web_socket_event

fun page_step :: "page_event \<Rightarrow> page_sockets \<Rightarrow> page_sockets" where
  "page_step (OpenRelay spec made) p = snd (open_start spec made p)"
| "page_step (OnSocket i ev) p =
     (if i < length (sockets p) then
        (case web_socket_step ev (sockets p ! i) of
           (s, gone) \<Rightarrow> p\<lparr>pending := pending p - gone, sockets := (sockets p)[i := s]\<rparr>)
      else p)"

section \<open>Certificates\<close>

lemma digit_char_inj: "0 \<le> a \<Longrightarrow> a < 16 \<Longrightarrow> 0 \<le> b \<Longrightarrow> b < 16 \<Longrightarrow> digit_char a = digit_char b \<Longrightarrow> a = b"
  by (auto simp: digit_char_def split: if_splits dest!: arg_cong [where f = "of_char :: char \<Rightarrow> nat"])

lemma hex_byte_inj: "hex_byte a = hex_byte b \<Longrightarrow> a = b"
proof -
  assume "hex_byte a = hex_byte b"
  then have "uint a div 16 = uint b div 16" "uint a mod 16 = uint b mod 16"
    using uint_lt2p [of a] uint_lt2p [of b] by (auto simp: hex_byte_def pos_imp_zdiv_nonneg_iff intro!: digit_char_inj)
  then have "uint a = uint b" by (metis div_mult_mod_eq)
  then show "a = b" by (simp add: word_uint_eq_iff)
qed

lemma hex_text_inj: "hex_text a = hex_text b \<Longrightarrow> a = b"
proof (induction a arbitrary: b)
  case Nil
  then show ?case by (cases b) (simp_all add: hex_text_def hex_byte_def)
next
  case (Cons x xs)
  then obtain y ys where b: "b = y # ys" by (cases b) (auto simp: hex_text_def hex_byte_def)
  have "hex_byte x = hex_byte y" "hex_text xs = hex_text ys"
    using Cons.prems by (simp_all add: b hex_text_def hex_byte_def)
  then show ?case using Cons.IH hex_byte_inj b by blast
qed

lemma pinned_verify_iff [simp]:
  "pinned_verify cr expected leaf = Inr () \<longleftrightarrow>
     (case expected of Some fp \<Rightarrow> hex_text (bytes_of (sha256 cr leaf)) = fp | None \<Rightarrow> True)"
  by (simp add: pinned_verify_def split: option.split)

text \<open>A pin admits one certificate, up to a collision of SHA-256.\<close>

lemma pin_admits_one_digest:
  assumes "pinned_verify cr (Some fp) a = Inr ()" "pinned_verify cr (Some fp) b = Inr ()"
  shows "sha256 cr a = sha256 cr b"
proof -
  have "hex_text (bytes_of (sha256 cr a)) = hex_text (bytes_of (sha256 cr b))" using assms by simp
  then show ?thesis by (metis hex_text_inj bytes_of_inject)
qed

lemma verify_leaf_iff:
  "verify_leaf cr net spec host = Inr () \<longleftrightarrow>
     (case cert_sha256 spec of
        Some fp \<Rightarrow> hex_text (bytes_of (sha256 cr (relay_leaf net))) = to_ascii_lowercase fp
      | None \<Rightarrow> insecure_tls spec \<or> webpki_verify net host (relay_leaf net) = Inr ())"
  by (simp add: verify_leaf_def connector_def split: option.split bool.split)

text \<open>A native socket is to the relay that was named. Whenever \<open>RelaySocket::open\<close> succeeds, TCP
  reached the specification's host and port, the upgrade's URL has the specification's parts, and
  on \<open>wss\<close> the leaf the relay showed passed the check of the specification's mode: its fingerprint
  is the pin when there is one, otherwise webpki accepts it for the host unless the specification
  says it may be unverified.\<close>

theorem native_socket_reaches_relay:
  assumes "native_open cr net spec = Inr request"
  shows "\<exists>tls host n path. spec_parts spec = Inr (tls, host, n, path) \<and>
    spec_parts (spec_plain request) = spec_parts spec \<and> tcp_connect net host n = Inr () \<and>
    (tls \<longrightarrow> tls_finish net = Inr () \<and>
      (case cert_sha256 spec of
         Some fp \<Rightarrow> hex_text (bytes_of (sha256 cr (relay_leaf net))) = to_ascii_lowercase fp
       | None \<Rightarrow> insecure_tls spec \<or> webpki_verify net host (relay_leaf net) = Inr ()))"
proof -
  obtain tls host n path where p: "spec_parts spec = Inr (tls, host, n, path)"
    using assms by (auto simp: native_open_def split: sum.splits)
  have q: "request = url_text tls host n path" "tcp_connect net host n = Inr ()"
      "tls \<Longrightarrow> tls_connect cr net spec host = Inr ()"
    using assms by (auto simp: native_open_def p Let_def split: sum.splits if_splits)
  have "tls \<Longrightarrow> tls_finish net = Inr () \<and> verify_leaf cr net spec host = Inr ()"
    using q(3) by (auto simp: tls_connect_def split: sum.splits)
  then show ?thesis using p q url_text_parts [OF p] by (simp add: verify_leaf_iff)
qed

definition quiet_net :: relay_net where
  "quiet_net =
     \<lparr>tcp_connect = (\<lambda>_ _. Inr ()), server_name = (\<lambda>_. Inr ()), relay_leaf = [],
      webpki_verify = (\<lambda>_ _. Inr ()), tls_finish = Inr (), ws_upgrade = (\<lambda>_. Inr ())\<rparr>"

theorem native_socket_reaches_relay_witness:
  "native_open plain_crypto quiet_net (spec_plain ''wss://Relay.Example/ws'') = Inr ''wss://relay.example:443/ws'' \<and>
   spec_parts (spec_plain ''wss://relay.example:443/ws'') = spec_parts (spec_plain ''wss://Relay.Example/ws'')"
proof -
  have "spec_parts (spec_plain ''wss://Relay.Example/ws'') = Inr (True, ''relay.example'', 443, ''/ws'')"
    "url_text True ''relay.example'' 443 ''/ws'' = ''wss://relay.example:443/ws''"
    by code_simp+
  then have "native_open plain_crypto quiet_net (spec_plain ''wss://Relay.Example/ws'') = Inr ''wss://relay.example:443/ws''"
    by (simp add: native_open_def tls_connect_def verify_leaf_def connector_def quiet_net_def spec_plain_def)
  from this native_socket_reaches_relay [OF this] show ?thesis by blast
qed

section \<open>The barrier\<close>

definition web_socket_ok :: "browser_socket \<Rightarrow> bool" where
  "web_socket_ok s \<longleftrightarrow>
     (held s \<longrightarrow> guarded s) \<and> (\<not> guarded s \<longrightarrow> ws_state s = Closed) \<and>
     (held s \<and> ws_state s = Opened \<longrightarrow> sh_open s) \<and>
     (\<not> sh_open s \<longrightarrow> messages (sh_queue s) = []) \<and>
     (sh_waker s \<longrightarrow> messages (sh_queue s) = [] \<and> sh_ended s = None)"

lemma wake_fields [simp]:
  "sh_open (shared_wake s) = sh_open s" "sh_ended (shared_wake s) = sh_ended s"
  "sh_queue (shared_wake s) = sh_queue s" "ws_state (shared_wake s) = ws_state s"
  "held (shared_wake s) = held s" "guarded (shared_wake s) = guarded s" "\<not> sh_waker (shared_wake s)"
  by (simp_all add: shared_wake_def)

lemma end_fields [simp]:
  "sh_open (shared_end r s) = sh_open s" "sh_queue (shared_end r s) = sh_queue s"
  "ws_state (shared_end r s) = ws_state s" "held (shared_end r s) = held s"
  "guarded (shared_end r s) = guarded s" "\<not> sh_waker (shared_end r s)"
  by (simp_all add: shared_end_def)

lemma close_fields [simp]:
  "sh_open (ws_close s) = sh_open s" "sh_ended (ws_close s) = sh_ended s"
  "sh_queue (ws_close s) = sh_queue s" "sh_waker (ws_close s) = sh_waker s"
  "held (ws_close s) = held s" "guarded (ws_close s) = guarded s"
  "ws_state (ws_close s) = (if ws_state s = Closed then Closed else Closing)"
  by (simp_all add: ws_close_def)

lemma on_ws_message_fields [simp]:
  "held (on_ws_message data s) = held s" "guarded (on_ws_message data s) = guarded s"
  "sh_open (on_ws_message data s) = sh_open s"
  by (simp_all add: on_ws_message_def Let_def split: prod.split bool.split)

lemma on_ws_message_state:
  "ws_state s = Opened \<Longrightarrow> ws_state (on_ws_message data s) \<in> {Opened, Closing}"
  by (simp add: on_ws_message_def Let_def split: prod.split bool.split)

lemma on_ws_message_waker: "sh_waker (on_ws_message data s) \<Longrightarrow> on_ws_message data s = s"
  by (auto simp: on_ws_message_def Let_def split: prod.splits bool.splits if_splits)

lemma on_ws_message_ok:
  assumes "web_socket_ok s" "held s" "ws_state s = Opened"
  shows "web_socket_ok (on_ws_message data s)"
  using assms on_ws_message_state [OF assms(3), of data] on_ws_message_waker [of data s]
  unfolding web_socket_ok_def by fastforce

lemma handled_simps [simp]: "held s \<Longrightarrow> handled h s = h s" "\<not> held s \<Longrightarrow> handled h s = s"
  by (simp_all add: handled_def)

lemma drop_ok: "web_socket_ok s \<Longrightarrow> web_socket_ok (handled web_socket_drop s)"
  by (cases "held s") (auto simp: web_socket_ok_def web_socket_drop_def)

lemma next_ok: "web_socket_ok s \<Longrightarrow> held s \<Longrightarrow> sh_open s \<Longrightarrow> web_socket_ok (snd (web_socket_next s))"
  by (auto simp: web_socket_ok_def web_socket_next_def queue_pop_def split: list.split)

lemma web_socket_step_ok:
  assumes "web_socket_ok s"
  shows "web_socket_ok (fst (web_socket_step ev s))"
proof (cases ev)
  case (BrowserMessage data)
  then show ?thesis using assms on_ws_message_ok [OF assms] by (cases "held s") simp_all
next
  case PollOpen
  then show ?thesis using assms drop_ok [OF assms]
    by (auto simp: open_poll_def web_socket_ok_def split: option.split)
next
  case PollNext
  then show ?thesis using assms next_ok [OF assms] by simp
next
  case (SendBytes b taken)
  then show ?thesis using assms by (auto simp: web_socket_send_def web_socket_ok_def split: option.split)
next
  case DropSocket
  then show ?thesis using drop_ok [OF assms] by simp
next
  case Reap
  then show ?thesis using assms by (auto simp: reap_def web_socket_ok_def)
next
  case BrowserOpen
  then show ?thesis using assms by (cases "held s") (auto simp: on_open_def web_socket_ok_def)
next
  case BrowserError
  then show ?thesis using assms by (cases "held s") (auto simp: on_error_def web_socket_ok_def)
next
  case (BrowserClose code)
  then show ?thesis using assms by (cases "held s") (auto simp: on_close_def web_socket_ok_def)
qed

text \<open>A socket gives up its guard exactly when it leaves the count.\<close>

lemma web_socket_step_guard:
  "of_bool (guarded s) = of_bool (guarded (fst (web_socket_step ev s))) + snd (web_socket_step ev s)"
proof (cases ev)
  case PollOpen
  then show ?thesis
    by (cases "held s") (auto simp: open_poll_def web_socket_drop_def split: option.split)
next
  case PollNext
  then show ?thesis by (auto simp: web_socket_next_def split: prod.split option.split)
next
  case (SendBytes b taken)
  then show ?thesis by (auto simp: web_socket_send_def split: option.split)
qed (auto simp: handled_def on_open_def on_error_def on_close_def web_socket_drop_def reap_def)

lemma count_update:
  "i < length xs \<Longrightarrow> length (filter P (xs[i := y])) + of_bool (P (xs ! i)) = length (filter P xs) + of_bool (P y)"
proof (induction xs arbitrary: i)
  case (Cons x xs)
  then show ?case using Cons.IH [of "i - 1"] by (cases i) auto
qed simp

definition page_ok :: "page_sockets \<Rightarrow> bool" where
  "page_ok p \<longleftrightarrow> pending p = length (filter guarded (sockets p)) \<and> list_all web_socket_ok (sockets p)"

lemma page_step_ok:
  assumes "page_ok p"
  shows "page_ok (page_step ev p)"
proof (cases ev)
  case (OpenRelay spec made)
  have "web_socket_ok web_socket_new" by (simp add: web_socket_ok_def web_socket_new_def queue_default_def)
  then show ?thesis using assms OpenRelay
    by (auto simp: open_start_def opened_def page_ok_def web_socket_new_def split: sum.split)
next
  case (OnSocket i sev)
  show ?thesis
  proof (cases "i < length (sockets p)")
    case True
    obtain s gone where s: "web_socket_step sev (sockets p ! i) = (s, gone)" by (rule prod.exhaust)
    have "web_socket_ok (sockets p ! i)" using assms True by (simp add: page_ok_def list_all_length)
    then have ok: "web_socket_ok s" using web_socket_step_ok [of "sockets p ! i" sev] s by simp
    have "list_all web_socket_ok ((sockets p)[i := s])"
      using assms ok set_update_subset_insert [of "sockets p" i s] by (auto simp: page_ok_def list_all_iff)
    moreover have "pending p - gone = length (filter guarded ((sockets p)[i := s]))"
      using count_update [OF True, of guarded s] web_socket_step_guard [of "sockets p ! i" sev] assms s
      by (simp add: page_ok_def)
    ultimately show ?thesis using True s OnSocket by (simp add: page_ok_def)
  qed (use assms OnSocket in simp)
qed

interpretation page: machine page_step page_ok
  by unfold_locales (rule page_step_ok)

lemma page_reachable_ok: "page_ok (fold page_step es page_new)"
  by (rule page.run_inv) (simp add: page_ok_def page_new_def)

text \<open>C29: Shutting down waits for every socket of the page. Whatever sockets were opened and however the
  browser's events, the sockets' owners and the closing tasks interleave, the shutdown barrier
  counts exactly the sockets whose guard is alive, and a socket without its guard has been dropped
  by its owner and confirmed closed by the browser. So when \<open>wait\<close> returns, no socket is left.\<close>

theorem shutdown_waits_for_every_socket:
  "let p = fold page_step es page_new
   in pending p = length (filter guarded (sockets p)) \<and>
      filter (\<lambda>s. \<not> guarded s \<and> \<not> (\<not> held s \<and> ws_state s = Closed)) (sockets p) = [] \<and>
      (shutdown_wait p = Ready () \<longleftrightarrow> list_all (\<lambda>s. \<not> guarded s \<and> \<not> held s \<and> ws_state s = Closed) (sockets p))"
proof -
  let ?p = "fold page_step es page_new"
  have ok: "page_ok ?p" by (rule page_reachable_ok)
  have gone: "\<not> held s \<and> ws_state s = Closed" if "s \<in> set (sockets ?p)" "\<not> guarded s" for s
    using ok that unfolding page_ok_def list_all_iff web_socket_ok_def by blast
  have "shutdown_wait ?p = Ready () \<longleftrightarrow> filter guarded (sockets ?p) = []"
    using ok by (simp add: shutdown_wait_def page_ok_def)
  also have "\<dots> \<longleftrightarrow> list_all (\<lambda>s. \<not> guarded s \<and> \<not> held s \<and> ws_state s = Closed) (sockets ?p)"
    using gone unfolding filter_empty_conv list_all_iff by blast
  finally show ?thesis using ok gone by (auto simp: Let_def page_ok_def filter_empty_conv)
qed

text \<open>No wake-up is lost: a socket whose reader waits has nothing to tell it.\<close>

lemma no_lost_wakeup:
  assumes "s \<in> set (sockets (fold page_step es page_new))" "sh_waker s"
  shows "fst (web_socket_next s) = Pending"
proof -
  have "web_socket_ok s" using page_reachable_ok [of es] assms(1) by (auto simp: page_ok_def list_all_iff)
  then show ?thesis using assms(2) by (simp add: web_socket_ok_def web_socket_next_def queue_pop_def)
qed

text \<open>What was queued before the end is still read, in order, and then the end.\<close>

fun read_all :: "nat \<Rightarrow> browser_socket \<Rightarrow> ws_item option poll list" where
  "read_all 0 s = []"
| "read_all (Suc n) s = (case web_socket_next s of (r, s) \<Rightarrow> r # read_all n s)"

lemma ended_socket_drains:
  "sh_ended s = Some why \<Longrightarrow> messages (sh_queue s) = ms \<Longrightarrow>
     read_all (length ms + 1) s = map (Ready \<circ> Some) ms @ [Ready None]"
proof (induction ms arbitrary: s)
  case (Cons m ms)
  obtain s' where s': "web_socket_next s = (Ready (Some m), s')" "sh_ended s' = Some why" "messages (sh_queue s') = ms"
    using Cons.prems by (simp add: web_socket_next_def queue_pop_def)
  then show ?case using Cons.IH [OF s'(2,3)] by simp
qed (simp add: web_socket_next_def queue_pop_def)

text \<open>The first reason stays, and nothing is queued after it.\<close>

lemma end_is_final:
  assumes "sh_ended s = Some why"
  shows "sh_ended (fst (web_socket_step ev s)) = Some why"
proof (cases ev)
  case PollOpen
  then show ?thesis using assms by (cases "held s") (simp_all add: open_poll_def web_socket_drop_def)
next
  case PollNext
  then show ?thesis using assms by (auto simp: web_socket_next_def split: prod.split option.split)
qed (use assms in \<open>auto simp: handled_def on_open_def on_error_def on_close_def web_socket_drop_def reap_def
  on_ws_message_def web_socket_send_def shared_end_def\<close>)

end
