(* ===== verification/Web_Timer.thy ===== *)
theory Web_Timer
  imports Link_Prelude
begin

text \<open>
  The timers of \<open>link-endpoint/src/rt.rs\<close> in a page, where a timeout above \<open>2 ^ 31 - 1\<close> milliseconds fires at
  once: \<open>delay\<close>, the chain of timers that a long \<open>sleep\<close> becomes, \<open>timeout\<close>, the periodic tick and quinn's
  timer. Durations and times are nanoseconds as natural numbers; a timer is the list of milliseconds
  handed to the browser, or the time at which it is due. The native functions of the file only call
  Tokio and have no definition here.
\<close>

definition MAX_TIMER :: nat where "MAX_TIMER = 20 * 24 * 60 * 60 * 10 ^ 9"

definition unix_now :: "int \<Rightarrow> u64" where
  "unix_now wall = (if wall < 0 then 0 else word_of_int (wall div 10 ^ 9))"

text \<open>\<open>div_ceil\<close> and the cast to \<open>u32\<close>.\<close>

definition delay :: "nat \<Rightarrow> u32" where
  "delay d = of_nat ((min d MAX_TIMER + 999999) div 1000000)"

function sleep_timers :: "nat \<Rightarrow> u32 list" where
  "sleep_timers left =
     (if left > MAX_TIMER then delay MAX_TIMER # sleep_timers (left - MAX_TIMER) else [delay left])"
  by auto

termination
  by (relation "measure id") (auto simp: MAX_TIMER_def)

declare sleep_timers.simps [simp del]

text \<open>One poll of \<open>timeout\<close>: the future's output if it has one, then the deadline.\<close>

datatype 'a timed = Completed 'a | Elapsed | Unfinished

definition timeout_poll :: "'a option \<Rightarrow> bool \<Rightarrow> 'a timed" where
  "timeout_poll output slept =
     (case output of Some x \<Rightarrow> Completed x | None \<Rightarrow> if slept then Elapsed else Unfinished)"

text \<open>\<open>None\<close> is the failed assertion.\<close>

record web_interval =
  interval_period :: nat
  interval_due :: nat

abbreviation due_after :: "nat \<Rightarrow> nat \<Rightarrow> nat" where
  "due_after t d \<equiv> t + unat (delay d) * 1000000"

definition interval :: "nat \<Rightarrow> nat \<Rightarrow> web_interval option" where
  "interval t period =
     (if period = 0 then None
      else Some \<lparr>interval_period = min period MAX_TIMER, interval_due = due_after t 0\<rparr>)"

definition tick_poll :: "nat \<Rightarrow> web_interval \<Rightarrow> web_interval \<times> bool" where
  "tick_poll t v =
     (if interval_due v \<le> t then (v\<lparr>interval_due := due_after t (interval_period v)\<rparr>, True) else (v, False))"

text \<open>\<open>new_timer\<close> and \<open>reset\<close>.\<close>

definition timer_due :: "nat \<Rightarrow> nat \<Rightarrow> nat" where
  "timer_due t deadline = due_after t (deadline - t)"

section \<open>A timer is never early\<close>

lemma ceil_ms: "d \<le> (d + 999999) div 1000000 * 1000000 \<and> (d + 999999) div 1000000 * 1000000 < d + 1000000" for d :: nat
proof -
  have "(d + 999999) div 1000000 * 1000000 + (d + 999999) mod 1000000 = d + 999999" by (rule div_mult_mod_eq)
  moreover have "(d + 999999) mod 1000000 < 1000000" by simp
  ultimately show ?thesis by linarith
qed

lemma unat_delay: "unat (delay d) = (min d MAX_TIMER + 999999) div 1000000"
proof -
  have "(min d MAX_TIMER + 999999) div 1000000 \<le> (MAX_TIMER + 999999) div 1000000" by (intro div_le_mono) simp
  then have "(min d MAX_TIMER + 999999) div 1000000 < 2 ^ 32" by (simp add: MAX_TIMER_def)
  then show ?thesis by (simp add: delay_def unat_of_nat)
qed

lemma delay_in_browser_range: "unat (delay d) \<le> 2 ^ 31 - 1"
proof -
  have "(min d MAX_TIMER + 999999) div 1000000 \<le> (MAX_TIMER + 999999) div 1000000" by (intro div_le_mono) simp
  then show ?thesis by (simp add: unat_delay MAX_TIMER_def)
qed

lemma delay_MAX_TIMER: "unat (delay MAX_TIMER) * 1000000 = MAX_TIMER"
  by (simp add: unat_delay MAX_TIMER_def)

text \<open>A sleep of any length, \<open>Duration::MAX\<close> included, is a chain of timers the browser takes, which together
  last at least as long and less than a millisecond longer.\<close>

theorem sleep_is_exact:
  "d \<le> sum_list (map unat (sleep_timers d)) * 1000000 \<and>
   sum_list (map unat (sleep_timers d)) * 1000000 < d + 1000000 \<and>
   list_all (\<lambda>ms. unat ms \<le> 2 ^ 31 - 1) (sleep_timers d)"
proof (induction d rule: sleep_timers.induct)
  case (1 left)
  show ?case
  proof (cases "left > MAX_TIMER")
    case True
    have "unat (delay MAX_TIMER) * 1000000 = MAX_TIMER" by (rule delay_MAX_TIMER)
    then show ?thesis
      using 1 [OF True] True delay_in_browser_range [of MAX_TIMER]
      by (auto simp: sleep_timers.simps [of left] algebra_simps)
  next
    case False
    then show ?thesis using ceil_ms [of left] delay_in_browser_range [of left]
      by (simp add: sleep_timers.simps [of left] unat_delay)
  qed
qed

text \<open>Two ticks of an interval are a period apart, also after the page was busy: a missed tick is delayed.\<close>

fun ticks :: "nat list \<Rightarrow> web_interval \<Rightarrow> nat list" where
  "ticks [] v = []"
| "ticks (t # ts) v = (case tick_poll t v of (v, ready) \<Rightarrow> (if ready then [t] else []) @ ticks ts v)"

lemma delay_not_early: "d \<le> MAX_TIMER \<Longrightarrow> d \<le> unat (delay d) * 1000000"
  using ceil_ms [of d] by (simp add: unat_delay)

lemma ticks_after_due: "t \<in> set (ticks ts v) \<Longrightarrow> interval_due v \<le> t"
proof (induction ts arbitrary: v)
  case (Cons u us)
  then show ?case using Cons.IH [of "v\<lparr>interval_due := due_after u (interval_period v)\<rparr>"]
    by (auto simp: tick_poll_def split: if_splits)
qed simp

theorem ticks_keep_their_distance:
  assumes "interval_period v \<le> MAX_TIMER"
  shows "sorted_wrt (\<lambda>a b. a + interval_period v \<le> b) (ticks ts v)"
  using assms
proof (induction ts arbitrary: v)
  case (Cons t ts)
  let ?v = "v\<lparr>interval_due := due_after t (interval_period v)\<rparr>"
  have "t + interval_period v \<le> b" if "b \<in> set (ticks ts ?v)" for b
    using ticks_after_due [OF that] delay_not_early [OF Cons.prems] by simp
  then show ?case using Cons.IH [of ?v] Cons.IH [of v] Cons.prems by (auto simp: tick_poll_def)
qed simp

end
