(* ===== verification/Path_Status.thy ===== *)
theory Path_Status
  imports Net_Addr
begin

text \<open>
  \<open>link-core/src/path.rs\<close>: the states of a session's path, the reason of a failure, the report
  of the current path and the one word an acceptance record carries.
\<close>

datatype fail_reason = FailRelay | FailRendezvous | FailIdentity | FailTimeout | FailSuperseded

text \<open>\<open>Display for FailReason\<close>.\<close>

fun fail_word :: "fail_reason \<Rightarrow> string" where
  "fail_word FailRelay = ''relay''"
| "fail_word FailRendezvous = ''rendezvous''"
| "fail_word FailIdentity = ''identity''"
| "fail_word FailTimeout = ''timeout''"
| "fail_word FailSuperseded = ''superseded''"

datatype path_status =
  Idle | InRendezvous | Relayed | Probing | Direct | Reconnecting | Failed fail_reason

fun outcome :: "path_status \<Rightarrow> string" where
  "outcome Idle = ''idle''"
| "outcome InRendezvous = ''rendezvous''"
| "outcome Relayed = ''relayed''"
| "outcome Probing = ''probing''"
| "outcome Direct = ''direct''"
| "outcome Reconnecting = ''reconnecting''"
| "outcome (Failed reason) = ''failed('' @ fail_word reason @ '')''"

text \<open>Time is a number of milliseconds on a monotonic clock.\<close>

record path_report =
  status :: path_status
  relay_url :: "string option"
  direct :: "socket_addr option"
  since :: nat
  cause :: string


lemma fail_word_inject [simp]: "fail_word a = fail_word b \<longleftrightarrow> a = b"
  by (cases a; cases b) simp_all

lemma outcome_inject: "outcome a = outcome b \<longleftrightarrow> a = b"
  by (cases a; cases b) simp_all

end
