(* ===== verification/Path_Socket.thy ===== *)
theory Path_Socket
  imports Relay_Client Path_Status
begin

text \<open>
  \<open>link-endpoint/src/path_socket.rs\<close>: the socket under QUIC. QUIC addresses a peer by its synthetic
  address; this component decides whether a datagram leaves by UDP, to an address this side has
  proved, or by a relay driver, and to which peer an inbound datagram belongs. Time is in
  milliseconds; the nonces, the outcome of a UDP send and the host's interfaces are arguments. The
  datagrams handed to the operating system are kept in \<open>udp_out\<close>, the sessions told that they were
  superseded in \<open>notified\<close>.
\<close>

section \<open>State\<close>

definition DIRECT_FRESH :: nat where "DIRECT_FRESH = 15000"
definition PROBE_TIMEOUT :: nat where "PROBE_TIMEOUT = 5000"
definition COUNTER_PROBE_INTERVAL :: nat where "COUNTER_PROBE_INTERVAL = 1000"
definition PONG_INTERVAL :: nat where "PONG_INTERVAL = 1000"
definition LEARNED_TTL :: nat where "LEARNED_TTL = 10000"
definition MAX_LOCAL_CANDIDATES :: nat where "MAX_LOCAL_CANDIDATES = 8"

record proven =
  proven_addr :: socket_addr
  proved_at :: nat

record path_peer =
  candidates :: "socket_addr list"
  updates :: u32
  pending :: "16 arr \<rightharpoonup> socket_addr \<times> nat"
  last_ping :: "socket_addr \<rightharpoonup> nat"
  last_pong :: "socket_addr \<rightharpoonup> nat"
  learned :: "(socket_addr \<times> nat) list"
  probe_key :: "(8 arr \<times> 32 arr) option"
  direct_proof :: "proven option"
  peer_driver :: "nat option"

definition peer_default :: path_peer where
  "peer_default =
     \<lparr>candidates = [], updates = 0, pending = Map.empty, last_ping = Map.empty, last_pong = Map.empty,
      learned = [], probe_key = None, direct_proof = None, peer_driver = None\<rparr>"

record paths =
  path_peers :: "node_id \<rightharpoonup> path_peer"
  live_sessions :: "node_id \<rightharpoonup> nat"
  next_session :: nat
  by_synthetic :: "socket_addr \<rightharpoonup> node_id"
  by_direct :: "socket_addr \<rightharpoonup> node_id"
  by_key_id :: "8 arr \<rightharpoonup> node_id"
  udp :: bool
  udp_local :: socket_addr
  relay_pool :: pool
  path_inbound :: "(socket_addr \<times> bytes) list"
  reflexive :: "socket_addr option"
  reflector_nonce :: "16 arr option"
  reflector :: "socket_addr option"
  blocked_on :: "nat option"
  udp_out :: "(socket_addr \<times> bytes) list"
  notified :: "nat list"

text \<open>\<open>build\<close> with a bound UDP socket and \<open>build_relay_only\<close> without.\<close>

definition assemble :: "bool \<Rightarrow> socket_addr \<Rightarrow> pool \<Rightarrow> socket_addr option \<Rightarrow> paths" where
  "assemble has_udp local_addr p rf =
     \<lparr>path_peers = Map.empty, live_sessions = Map.empty, next_session = 0, by_synthetic = Map.empty,
      by_direct = Map.empty, by_key_id = Map.empty, udp = has_udp, udp_local = local_addr,
      relay_pool = p, path_inbound = [], reflexive = None, reflector_nonce = None, reflector = rf,
      blocked_on = None, udp_out = [], notified = []\<rparr>"

datatype udp_result = UdpSent | UdpWouldBlock | UdpError string

definition udp_send :: "udp_result \<Rightarrow> socket_addr \<Rightarrow> bytes \<Rightarrow> paths \<Rightarrow> paths" where
  "udp_send r addr data s = (if r = UdpSent then s\<lparr>udp_out := udp_out s @ [(addr, data)]\<rparr> else s)"

definition is_ipv4 :: "ip_addr \<Rightarrow> bool" where
  "is_ipv4 a = (case a of V4 _ \<Rightarrow> True | V6 _ \<Rightarrow> False)"

definition is_relay_only :: "paths \<Rightarrow> bool" where "is_relay_only s \<longleftrightarrow> \<not> udp s"

text \<open>\<open>peers.entry(peer).or_default()\<close> and an update of that entry.\<close>

definition peer_entry :: "node_id \<Rightarrow> paths \<Rightarrow> path_peer" where
  "peer_entry p s = (case path_peers s p of Some e \<Rightarrow> e | None \<Rightarrow> peer_default)"

definition set_peer :: "node_id \<Rightarrow> path_peer \<Rightarrow> paths \<Rightarrow> paths" where
  "set_peer p e s = s\<lparr>path_peers := (path_peers s)(p \<mapsto> e)\<rparr>"

section \<open>Peers and sessions\<close>

definition register_peer :: "crypto \<Rightarrow> node_id \<Rightarrow> paths \<Rightarrow> paths" where
  "register_peer cr p s =
     (let s = set_peer p (peer_entry p s) s
      in s\<lparr>by_synthetic := (by_synthetic s)(synthetic_addr cr p \<mapsto> p)\<rparr>)"

definition can_reach :: "socket_addr \<Rightarrow> paths \<Rightarrow> bool" where
  "can_reach addr s \<longleftrightarrow> \<not> is_relay_only s \<and> is_ipv4 (ip (udp_local s)) = is_ipv4 (ip addr)"

definition set_peer_candidates :: "node_id \<Rightarrow> socket_addr list \<Rightarrow> paths \<Rightarrow> paths" where
  "set_peer_candidates p cs s =
     (let usable = filter (\<lambda>addr. can_reach addr s) (map unmap_ipv6 cs);
          e = peer_entry p s
      in set_peer p (e\<lparr>candidates := usable, updates := updates e + 1\<rparr>) s)"

definition candidate_updates :: "node_id \<Rightarrow> paths \<Rightarrow> u32" where
  "candidate_updates p s = (case path_peers s p of Some e \<Rightarrow> updates e | None \<Rightarrow> 0)"

definition peer_candidates :: "node_id \<Rightarrow> paths \<Rightarrow> socket_addr list" where
  "peer_candidates p s = (case path_peers s p of Some e \<Rightarrow> candidates e | None \<Rightarrow> [])"

definition proven_direct :: "node_id \<Rightarrow> paths \<Rightarrow> proven option" where
  "proven_direct p s =
     (if is_relay_only s then None
      else case path_peers s p of Some e \<Rightarrow> direct_proof e | None \<Rightarrow> None)"

text \<open>Take the peer's proof away, and its address from \<open>by_direct\<close>.\<close>

definition take_direct :: "node_id \<Rightarrow> path_peer \<Rightarrow> paths \<Rightarrow> paths" where
  "take_direct p e s =
     (let s = set_peer p (e\<lparr>direct_proof := None\<rparr>) s
      in case direct_proof e of
           Some proof \<Rightarrow> s\<lparr>by_direct := (by_direct s)(proven_addr proof := None)\<rparr>
         | None \<Rightarrow> s)"

definition drop_direct :: "node_id \<Rightarrow> nat \<Rightarrow> paths \<Rightarrow> paths" where
  "drop_direct p session s =
     (if live_sessions s p \<noteq> Some session then s
      else case path_peers s p of None \<Rightarrow> s | Some e \<Rightarrow> take_direct p e s)"

definition begin_session :: "node_id \<Rightarrow> paths \<Rightarrow> paths \<times> nat" where
  "begin_session p s =
     (let i = next_session s;
          s = s\<lparr>next_session := i + 1,
                notified := notified s @ (case live_sessions s p of Some old \<Rightarrow> [old] | None \<Rightarrow> []),
                live_sessions := (live_sessions s)(p \<mapsto> i)\<rparr>;
          s = (case path_peers s p of
                 None \<Rightarrow> s
               | Some e \<Rightarrow>
                   take_direct p (e\<lparr>candidates := [], learned := [], pending := Map.empty,
                                    last_ping := Map.empty, last_pong := Map.empty\<rparr>) s)
      in (s, i))"

definition end_session :: "node_id \<Rightarrow> nat \<Rightarrow> paths \<Rightarrow> paths" where
  "end_session p session s =
     (if live_sessions s p = Some session then s\<lparr>live_sessions := (live_sessions s)(p := None)\<rparr> else s)"

definition register_probe_key :: "node_id \<Rightarrow> 8 arr \<Rightarrow> 32 arr \<Rightarrow> paths \<Rightarrow> paths" where
  "register_probe_key p k key s =
     (let e = peer_entry p s;
          s = set_peer p (e\<lparr>probe_key := Some (k, key)\<rparr>) s;
          s = (case probe_key e of
                 Some (old, _) \<Rightarrow> s\<lparr>by_key_id := (by_key_id s)(old := None)\<rparr>
               | None \<Rightarrow> s)
      in s\<lparr>by_key_id := (by_key_id s)(k \<mapsto> p)\<rparr>)"

definition unregister_probe_key :: "8 arr \<Rightarrow> paths \<Rightarrow> paths" where
  "unregister_probe_key k s =
     (case by_key_id s k of
        None \<Rightarrow> s
      | Some p \<Rightarrow>
          let s = s\<lparr>by_key_id := (by_key_id s)(k := None)\<rparr>
          in case path_peers s p of
               None \<Rightarrow> s
             | Some e \<Rightarrow>
                 (case probe_key e of
                    Some (i, _) \<Rightarrow> if i = k then set_peer p (e\<lparr>probe_key := None\<rparr>) s else s
                  | None \<Rightarrow> s))"

section \<open>Relays\<close>

text \<open>The id of the driver \<open>peer\<close> is reached on.\<close>

definition relay_for :: "node_id \<Rightarrow> paths \<Rightarrow> nat" where
  "relay_for p s =
     (case Option.bind (path_peers s p) peer_driver of
        Some i \<Rightarrow> (case pool_driver i (relay_pool s) of Some _ \<Rightarrow> i | None \<Rightarrow> 0)
      | None \<Rightarrow> 0)"

definition set_peer_relays :: "node_id \<Rightarrow> relay_spec list \<Rightarrow> paths \<Rightarrow> paths \<times> nat" where
  "set_peer_relays p specs s =
     (let (i, pl) = driver_for specs (relay_pool s);
          s = s\<lparr>relay_pool := pl\<rparr>
      in (set_peer p ((peer_entry p s)\<lparr>peer_driver := Some i\<rparr>) s, i))"

definition copy_relay_route :: "node_id \<Rightarrow> node_id \<Rightarrow> paths \<Rightarrow> paths" where
  "copy_relay_route route p s =
     (let d = Option.bind (path_peers s route) peer_driver
      in set_peer p ((peer_entry p s)\<lparr>peer_driver := d\<rparr>) s)"

definition heard_on :: "node_id \<Rightarrow> nat \<Rightarrow> paths \<Rightarrow> paths" where
  "heard_on p i s =
     (let e = peer_entry p s
      in set_peer p (if peer_driver e \<noteq> Some i then e\<lparr>peer_driver := Some i\<rparr> else e) s)"

section \<open>Probes and the reflector\<close>

definition probe_targets :: "nat \<Rightarrow> node_id \<Rightarrow> paths \<Rightarrow> socket_addr list" where
  "probe_targets ms p s =
     (case path_peers s p of
        None \<Rightarrow> []
      | Some e \<Rightarrow>
          fold (\<lambda>(addr, seen) out. if ms - seen < LEARNED_TTL \<and> addr \<notin> set out then out @ [addr] else out)
            (learned e) (candidates e))"

definition prune_learned :: "nat \<Rightarrow> node_id \<Rightarrow> paths \<Rightarrow> paths" where
  "prune_learned ms p s =
     (case path_peers s p of
        None \<Rightarrow> s
      | Some e \<Rightarrow> set_peer p (e\<lparr>learned := filter (\<lambda>(_, seen). ms - seen < LEARNED_TTL) (learned e)\<rparr>) s)"

definition send_ping :: "crypto \<Rightarrow> nat \<Rightarrow> 16 arr \<Rightarrow> udp_result \<Rightarrow> node_id \<Rightarrow> socket_addr \<Rightarrow> paths \<Rightarrow> paths \<times> bool" where
  "send_ping cr ms nonce r p addr s =
     (if \<not> udp s then (s, False)
      else
        let e = peer_entry p s
        in case probe_key e of
             None \<Rightarrow> (set_peer p e s, False)
           | Some (k, key) \<Rightarrow>
               let e = e\<lparr>pending := (pending e)(nonce \<mapsto> (addr, ms)), last_ping := (last_ping e)(addr \<mapsto> ms)\<rparr>;
                   wire = bytes_of (probe_seal cr \<lparr>probe_kind = PROBE_PING, key_id = k, probe_nonce = nonce\<rparr> key)
               in (udp_send r addr wire (set_peer p e s), r = UdpSent))"

text \<open>The loop over the probe targets, each with its own nonce and send result.\<close>

fun ping_all :: "crypto \<Rightarrow> nat \<Rightarrow> (socket_addr \<Rightarrow> 16 arr \<times> udp_result) \<Rightarrow> node_id \<Rightarrow> socket_addr list \<Rightarrow>
    paths \<Rightarrow> paths \<times> nat" where
  "ping_all cr ms env p [] s = (s, 0)"
| "ping_all cr ms env p (a # as) s =
     (let (s, ok) = send_ping cr ms (fst (env a)) (snd (env a)) p a s;
          (s, n) = ping_all cr ms env p as s
      in (s, (if ok then 1 else 0) + n))"

definition send_probes :: "crypto \<Rightarrow> nat \<Rightarrow> (socket_addr \<Rightarrow> 16 arr \<times> udp_result) \<Rightarrow> node_id \<Rightarrow> paths \<Rightarrow> paths \<times> nat" where
  "send_probes cr ms env p s =
     (let e = peer_entry p s;
          keep = (\<lambda>n. case pending e n of
                    Some (a, sent) \<Rightarrow> if ms - sent < PROBE_TIMEOUT then Some (a, sent) else None
                  | None \<Rightarrow> None);
          s = set_peer p (e\<lparr>pending := keep\<rparr>) s;
          s = prune_learned ms p s
      in ping_all cr ms env p (probe_targets ms p s) s)"

definition query_reflector :: "16 arr \<Rightarrow> udp_result \<Rightarrow> socket_addr \<Rightarrow> paths \<Rightarrow> paths" where
  "query_reflector nonce r addr s =
     (if \<not> udp s then s
      else udp_send r addr (bytes_of (reflect_request nonce)) (s\<lparr>reflector_nonce := Some nonce\<rparr>))"

definition requery_reflector :: "16 arr \<Rightarrow> udp_result \<Rightarrow> paths \<Rightarrow> paths" where
  "requery_reflector nonce r s =
     (case reflector s of Some addr \<Rightarrow> query_reflector nonce r addr s | None \<Rightarrow> s)"

definition probe_session :: "8 arr \<Rightarrow> paths \<Rightarrow> (node_id \<times> 32 arr) option" where
  "probe_session k s =
     (case by_key_id s k of
        None \<Rightarrow> None
      | Some p \<Rightarrow> map_option (\<lambda>(_, key). (p, key)) (Option.bind (path_peers s p) probe_key))"

text \<open>\<open>handle_probe\<close>; \<open>nonce\<close> and the two send results are for the pong and the probe back.\<close>

definition handle_ping ::
  "crypto \<Rightarrow> nat \<Rightarrow> 16 arr \<Rightarrow> udp_result \<Rightarrow> udp_result \<Rightarrow> node_id \<Rightarrow> 32 arr \<Rightarrow> probe \<Rightarrow> socket_addr \<Rightarrow> paths \<Rightarrow> paths" where
  "handle_ping cr ms nonce r1 r2 p key pr source s =
     (let e = peer_entry p s;
          answer = (case last_pong e source of Some sent \<Rightarrow> ms - sent \<ge> PONG_INTERVAL | None \<Rightarrow> True);
          e = (if answer then e\<lparr>last_pong := (last_pong e)(source \<mapsto> ms)\<rparr> else e);
          e = (if source \<notin> set (candidates e) then e\<lparr>learned := AList.update source ms (learned e)\<rparr> else e);
          proved = (case direct_proof e of
                      Some d \<Rightarrow> proven_addr d = source \<and> ms - proved_at d < DIRECT_FRESH | None \<Rightarrow> False);
          recent = (case last_ping e source of Some sent \<Rightarrow> ms - sent < COUNTER_PROBE_INTERVAL | None \<Rightarrow> False);
          s = set_peer p e s;
          s = (if answer
               then udp_send r1 source (bytes_of (probe_seal cr
                      \<lparr>probe_kind = PROBE_PONG, key_id = key_id pr, probe_nonce = probe_nonce pr\<rparr> key)) s
               else s)
      in if \<not> proved \<and> \<not> recent then fst (send_ping cr ms nonce r2 p source s) else s)"

definition handle_pong :: "nat \<Rightarrow> node_id \<Rightarrow> probe \<Rightarrow> socket_addr \<Rightarrow> paths \<Rightarrow> paths" where
  "handle_pong ms p pr source s =
     (case path_peers s p of
        None \<Rightarrow> s
      | Some e \<Rightarrow>
          (case pending e (probe_nonce pr) of
             None \<Rightarrow> s
           | Some _ \<Rightarrow>
               let e = e\<lparr>pending := (pending e)(probe_nonce pr := None),
                         direct_proof := Some \<lparr>proven_addr = source, proved_at = ms\<rparr>,
                         learned := AList.delete source (learned e)\<rparr>;
                   s = set_peer p e s
               in s\<lparr>by_direct := (by_direct s)(source \<mapsto> p)\<rparr>))"

definition handle_probe ::
  "crypto \<Rightarrow> nat \<Rightarrow> 16 arr \<Rightarrow> udp_result \<Rightarrow> udp_result \<Rightarrow> node_id \<Rightarrow> 32 arr \<Rightarrow> probe \<Rightarrow> socket_addr \<Rightarrow> paths \<Rightarrow> paths" where
  "handle_probe cr ms nonce r1 r2 p key pr source s =
     (if \<not> udp s then s
      else if probe_kind pr = PROBE_PING then handle_ping cr ms nonce r1 r2 p key pr source s
      else if probe_kind pr = PROBE_PONG then handle_pong ms p pr source s
      else s)"

section \<open>Datagrams in and out\<close>

definition deliver :: "socket_addr \<Rightarrow> bytes \<Rightarrow> paths \<Rightarrow> paths" where
  "deliver source data s =
     (if length (path_inbound s) < INBOUND_CAPACITY
      then s\<lparr>path_inbound := path_inbound s @ [(source, data)]\<rparr> else s)"

text \<open>The relay receive task.\<close>

definition relay_inbound_step :: "crypto \<Rightarrow> relay_inbound \<Rightarrow> paths \<Rightarrow> paths" where
  "relay_inbound_step cr x s =
     deliver (synthetic_addr cr (in_source x)) (in_datagram x)
       (heard_on (in_source x) (in_driver x) (register_peer cr (in_source x) s))"

text \<open>The direct receive task.\<close>

definition direct_inbound_step ::
  "crypto \<Rightarrow> nat \<Rightarrow> 16 arr \<Rightarrow> udp_result \<Rightarrow> udp_result \<Rightarrow> socket_addr \<Rightarrow> bytes \<Rightarrow> paths \<Rightarrow> paths" where
  "direct_inbound_step cr ms nonce r1 r2 source data s =
     (let source = unmap_ipv6 source
      in case peek_key_id data of
           Some k \<Rightarrow>
             (case probe_session k s of
                Some (p, key) \<Rightarrow>
                  (case probe_open cr data key of
                     Some pr \<Rightarrow> handle_probe cr ms nonce r1 r2 p key pr source s
                   | None \<Rightarrow> s)
              | None \<Rightarrow> s)
         | None \<Rightarrow>
             if length data = REFLECT_REPLY_BYTES \<and> take 4 data = REFLECT_MAGIC then
               (case parse_reflect_reply data of
                  Some (n, observed) \<Rightarrow>
                    if reflector_nonce s = Some n
                    then s\<lparr>reflector_nonce := None, reflexive := Some (unmap_ipv6 observed)\<rparr> else s
                | None \<Rightarrow> s)
             else
               (case by_direct s source of
                  Some p \<Rightarrow> deliver (synthetic_addr cr p) data s
                | None \<Rightarrow> s))"

datatype io_result = IoOk | IoWouldBlock | IoInvalidInput | IoOther string

text \<open>\<open>RelayDriver::try_send\<close> of a driver of the pool, on the shared book.\<close>

definition pool_try_send ::
  "crypto \<Rightarrow> u64 \<Rightarrow> nat \<Rightarrow> node_id \<Rightarrow> bytes \<Rightarrow> pool \<Rightarrow> pool \<times> queue_outcome" where
  "pool_try_send cr now_unix i p data pl =
     (case by_id pl i of
        None \<Rightarrow> (pl, Dropped)
      | Some d \<Rightarrow>
          let (d, out) = driver_try_send cr now_unix p data (d\<lparr>book := shared pl\<rparr>)
          in (pl\<lparr>by_id := (by_id pl)(i \<mapsto> d), shared := book d\<rparr>, out))"

definition path_try_send ::
  "crypto \<Rightarrow> nat \<Rightarrow> u64 \<Rightarrow> udp_result \<Rightarrow> socket_addr \<Rightarrow> bytes \<Rightarrow> paths \<Rightarrow> paths \<times> io_result" where
  "path_try_send cr ms now_unix r destination contents s =
     (if length contents > MAX_DATAGRAM then (s, IoInvalidInput)
      else case by_synthetic s destination of
             None \<Rightarrow> (s, IoOk)
           | Some p \<Rightarrow>
               (case (case proven_direct p s of
                        Some d \<Rightarrow> if ms - proved_at d < DIRECT_FRESH \<and> udp s then Some d else None
                      | None \<Rightarrow> None) of
                  Some d \<Rightarrow>
                    (udp_send r (proven_addr d) contents s,
                     case r of UdpSent \<Rightarrow> IoOk | UdpWouldBlock \<Rightarrow> IoOk | UdpError e \<Rightarrow> IoOther e)
                | None \<Rightarrow>
                    let i = relay_for p s;
                        (pl, out) = pool_try_send cr now_unix i p contents (relay_pool s);
                        s = s\<lparr>relay_pool := pl\<rparr>
                    in if out = WouldBlock then (s\<lparr>blocked_on := Some i\<rparr>, IoWouldBlock)
                       else (s\<lparr>blocked_on := None\<rparr>, IoOk)))"

text \<open>\<open>poll_recv\<close> into buffers of the given sizes; no filled buffer is \<open>Pending\<close>.\<close>

definition path_poll_recv :: "nat list \<Rightarrow> paths \<Rightarrow> paths \<times> (socket_addr \<times> bytes) list" where
  "path_poll_recv bufs s =
     (let got = zip bufs (path_inbound s)
      in (s\<lparr>path_inbound := drop (length got) (path_inbound s)\<rparr>,
          map (\<lambda>(n, (source, data)). (source, take n data)) got))"

text \<open>\<open>Poller::poll_writable\<close>: whether it is ready, judged on the driver that last refused a send.\<close>

definition poll_writable :: "bool \<Rightarrow> paths \<Rightarrow> bool" where
  "poll_writable udp_ready s \<longleftrightarrow>
     (udp s \<longrightarrow> udp_ready) \<and>
     (case blocked_on s of
        Some i \<Rightarrow> (case pool_driver i (relay_pool s) of Some d \<Rightarrow> has_capacity d | None \<Rightarrow> True)
      | None \<Rightarrow> True)"

section \<open>Local candidates\<close>

definition is_loopback :: "ip_addr \<Rightarrow> bool" where
  "is_loopback a = (case a of V4 w \<Rightarrow> unat w div 2 ^ 24 = 127 | V6 w \<Rightarrow> w = 1)"

definition is_unspecified :: "ip_addr \<Rightarrow> bool" where
  "is_unspecified a = (case a of V4 w \<Rightarrow> w = 0 | V6 w \<Rightarrow> w = 0)"

definition is_link_local :: "ip_addr \<Rightarrow> bool" where
  "is_link_local a =
     (case a of V4 w \<Rightarrow> unat w div 2 ^ 16 = 169 * 256 + 254 | V6 w \<Rightarrow> unat w div 2 ^ 118 = 0xfe80 div 2 ^ 6)"

definition offer :: "bool \<Rightarrow> ip_addr \<Rightarrow> ip_addr list \<Rightarrow> ip_addr list" where
  "offer v4 a out = (if is_ipv4 a = v4 \<and> a \<notin> set out then out @ [a] else out)"

definition local_addresses :: "bool \<Rightarrow> ip_addr option \<Rightarrow> ip_addr list \<Rightarrow> ip_addr list" where
  "local_addresses v4 via interfaces =
     (let out = (case via of Some a \<Rightarrow> offer v4 a [] | None \<Rightarrow> []);
          out = fold (\<lambda>a out. if is_loopback a \<or> is_unspecified a \<or> is_link_local a then out
                              else offer v4 a out) interfaces out;
          out = take (MAX_LOCAL_CANDIDATES - 1) out
      in offer v4 (if v4 then V4 0x7F000001 else V6 1) out)"

definition local_candidates :: "ip_addr list \<Rightarrow> paths \<Rightarrow> socket_addr list" where
  "local_candidates addrs s =
     (if is_relay_only s then []
      else
        let out = (if is_unspecified (ip (udp_local s))
                   then map (\<lambda>a. socket a (port (udp_local s))) addrs else [udp_local s])
        in case reflexive s of
             Some a \<Rightarrow> if a \<in> set out then out else out @ [a]
           | None \<Rightarrow> out)"

section \<open>One step of the path socket\<close>

datatype path_event =
    RegisterPeer node_id
  | PeerCandidates node_id "socket_addr list"
  | DropDirect node_id nat
  | BeginSession node_id
  | EndSession node_id nat
  | RegisterKey node_id "8 arr" "32 arr"
  | UnregisterKey "8 arr"
  | PeerRelays node_id "relay_spec list"
  | CopyRoute node_id node_id
  | RelayIn relay_inbound
  | DirectIn nat "16 arr" udp_result udp_result socket_addr bytes
  | SendProbes nat "socket_addr \<Rightarrow> 16 arr \<times> udp_result" node_id
  | Requery "16 arr" udp_result
  | Transmit nat u64 udp_result socket_addr bytes
  | PollRecv "nat list"
  | PoolEvent pool_event

fun path_step :: "crypto \<Rightarrow> path_event \<Rightarrow> paths \<Rightarrow> paths" where
  "path_step cr (RegisterPeer p) s = register_peer cr p s"
| "path_step cr (PeerCandidates p cs) s = set_peer_candidates p cs s"
| "path_step cr (DropDirect p i) s = drop_direct p i s"
| "path_step cr (BeginSession p) s = fst (begin_session p s)"
| "path_step cr (EndSession p i) s = end_session p i s"
| "path_step cr (RegisterKey p k key) s = register_probe_key p k key s"
| "path_step cr (UnregisterKey k) s = unregister_probe_key k s"
| "path_step cr (PeerRelays p specs) s = fst (set_peer_relays p specs s)"
| "path_step cr (CopyRoute r p) s = copy_relay_route r p s"
| "path_step cr (RelayIn x) s = relay_inbound_step cr x s"
| "path_step cr (DirectIn ms nonce r1 r2 source data) s =
     (if udp s then direct_inbound_step cr ms nonce r1 r2 source data s else s)"
| "path_step cr (SendProbes ms env p) s = fst (send_probes cr ms env p s)"
| "path_step cr (Requery nonce r) s = requery_reflector nonce r s"
| "path_step cr (Transmit ms t r dest contents) s = fst (path_try_send cr ms t r dest contents s)"
| "path_step cr (PollRecv bufs) s = fst (path_poll_recv bufs s)"
| "path_step cr (PoolEvent ev) s = s\<lparr>relay_pool := pool_step cr ev (relay_pool s)\<rparr>"

definition path_run :: "crypto \<Rightarrow> path_event list \<Rightarrow> paths \<Rightarrow> paths" where
  "path_run cr es s = fold (path_step cr) es s"

lemma path_run_snoc: "path_run cr (es @ [ev]) s = path_step cr ev (path_run cr es s)"
  by (simp add: path_run_def)

section \<open>What each operation leaves alone\<close>

lemma set_peer_simps [simp]:
  "by_direct (set_peer p e s) = by_direct s" "udp (set_peer p e s) = udp s"
  "udp_out (set_peer p e s) = udp_out s" "live_sessions (set_peer p e s) = live_sessions s"
  "next_session (set_peer p e s) = next_session s" "notified (set_peer p e s) = notified s"
  "by_key_id (set_peer p e s) = by_key_id s" "relay_pool (set_peer p e s) = relay_pool s"
  "by_synthetic (set_peer p e s) = by_synthetic s"
  "path_peers (set_peer p e s) = (path_peers s)(p \<mapsto> e)"
  "udp_local (set_peer p e s) = udp_local s" "path_inbound (set_peer p e s) = path_inbound s"
  by (simp_all add: set_peer_def)

lemma udp_send_simps [simp]:
  "by_direct (udp_send r a d s) = by_direct s" "udp (udp_send r a d s) = udp s"
  "live_sessions (udp_send r a d s) = live_sessions s" "next_session (udp_send r a d s) = next_session s"
  "notified (udp_send r a d s) = notified s" "path_peers (udp_send r a d s) = path_peers s"
  "relay_pool (udp_send r a d s) = relay_pool s"
  by (simp_all add: udp_send_def)

text \<open>The parts of the state that the session and attribution properties speak of, as one view.\<close>

abbreviation view :: "paths \<Rightarrow> (node_id \<rightharpoonup> nat) \<times> nat \<times> nat list \<times> (socket_addr \<rightharpoonup> node_id) \<times> bool" where
  "view s \<equiv> (live_sessions s, next_session s, notified s, by_direct s, udp s)"

lemma send_ping_view: "view (fst (send_ping cr ms n r p a s)) = view s"
  by (auto simp: send_ping_def Let_def split: option.splits)

lemmas send_ping_simps [simp] = send_ping_view [unfolded prod.inject]

lemma ping_all_view: "view (fst (ping_all cr ms env p as s)) = view s"
proof (induction as arbitrary: s)
  case Nil
  then show ?case by simp
next
  case (Cons a as)
  have "view (fst (ping_all cr ms env p (a # as) s)) =
      view (fst (send_ping cr ms (fst (env a)) (snd (env a)) p a s))"
    using Cons [of "fst (send_ping cr ms (fst (env a)) (snd (env a)) p a s)"]
    by (simp add: split_beta Let_def)
  then show ?case by (simp only: send_ping_view)
qed

lemma quiet_ops_view:
  "view (register_peer cr p s) = view s"
  "view (set_peer_candidates p cs s) = view s"
  "view (register_probe_key p k key s) = view s"
  "view (unregister_probe_key k s) = view s"
  "view (fst (set_peer_relays p specs s)) = view s"
  "view (copy_relay_route r p s) = view s"
  "view (heard_on p i s) = view s"
  "view (deliver a d s) = view s"
  "view (prune_learned ms p s) = view s"
  "view (requery_reflector nonce u s) = view s"
  "view (fst (path_poll_recv bufs s)) = view s"
  by (auto simp: register_peer_def set_peer_candidates_def register_probe_key_def unregister_probe_key_def
      set_peer_relays_def copy_relay_route_def heard_on_def deliver_def prune_learned_def
      requery_reflector_def query_reflector_def path_poll_recv_def Let_def split_beta split: option.splits)

lemma relay_inbound_view: "view (relay_inbound_step cr x s) = view s"
  by (simp only: relay_inbound_step_def quiet_ops_view)

lemma send_probes_view: "view (fst (send_probes cr ms env p s)) = view s"
  by (simp only: send_probes_def Let_def ping_all_view quiet_ops_view set_peer_simps)

lemma path_try_send_view: "view (fst (path_try_send cr ms t r dest c s)) = view s"
  by (auto simp: path_try_send_def Let_def split_beta split: option.splits)

lemma handle_ping_view: "view (handle_ping cr ms n r1 r2 p key pr a s) = view s"
  unfolding handle_ping_def Let_def by simp

section \<open>Direct datagrams are attributed by proof\<close>

text \<open>A pong that proves address \<open>a\<close> for peer \<open>p\<close> in state \<open>s\<close>: it came from \<open>a\<close>, opens under the key of \<open>p\<close>'s
  session and echoes a nonce this side issued to \<open>p\<close> and has not forgotten.\<close>

definition proves :: "crypto \<Rightarrow> paths \<Rightarrow> path_event \<Rightarrow> socket_addr \<Rightarrow> node_id \<Rightarrow> bool" where
  "proves cr s ev a p \<longleftrightarrow>
     (\<exists>ms nonce r1 r2 source data k key pr e.
        ev = DirectIn ms nonce r1 r2 source data \<and> unmap_ipv6 source = a \<and> udp s \<and>
        peek_key_id data = Some k \<and> probe_session k s = Some (p, key) \<and>
        probe_open cr data key = Some pr \<and> probe_kind pr = PROBE_PONG \<and>
        path_peers s p = Some e \<and> pending e (probe_nonce pr) \<noteq> None)"

lemma handle_pong_by_direct:
  assumes "by_direct (handle_pong ms p pr a s) b = Some q"
  shows "by_direct s b = Some q \<or>
    b = a \<and> q = p \<and> (\<exists>e. path_peers s p = Some e \<and> pending e (probe_nonce pr) \<noteq> None)"
  using assms by (auto simp: handle_pong_def Let_def split: option.splits if_splits)

lemma direct_inbound_by_direct:
  assumes "by_direct (direct_inbound_step cr ms n r1 r2 source data s) b = Some q" "udp s"
  shows "by_direct s b = Some q \<or> proves cr s (DirectIn ms n r1 r2 source data) b q"
proof (cases "\<exists>k p key pr. peek_key_id data = Some k \<and> probe_session k s = Some (p, key) \<and>
    probe_open cr data key = Some pr")
  case True
  then obtain k p key pr where k: "peek_key_id data = Some k" "probe_session k s = Some (p, key)"
      "probe_open cr data key = Some pr" by blast
  then have "by_direct (handle_probe cr ms n r1 r2 p key pr (unmap_ipv6 source) s) b = Some q"
    using assms by (simp add: direct_inbound_step_def Let_def)
  then consider "by_direct s b = Some q"
    | "probe_kind pr = PROBE_PONG" "by_direct (handle_pong ms p pr (unmap_ipv6 source) s) b = Some q"
    using handle_ping_view [of cr ms n r1 r2 p key pr "unmap_ipv6 source" s]
    by (auto simp: handle_probe_def split: if_splits)
  then show ?thesis
    using handle_pong_by_direct [of ms p pr "unmap_ipv6 source" s b q] k assms(2)
    unfolding proves_def by cases blast+
next
  case False
  then show ?thesis
    using assms quiet_ops_view(8)
    by (fastforce simp: direct_inbound_step_def Let_def split: option.splits if_splits)
qed

lemma take_direct_by_direct: "by_direct (take_direct p e s) b = Some q \<Longrightarrow> by_direct s b = Some q"
  by (auto simp: take_direct_def Let_def split: option.splits if_splits)

lemma path_step_by_direct:
  assumes "by_direct (path_step cr ev s) b = Some q"
  shows "by_direct s b = Some q \<or> proves cr s ev b q"
proof (cases ev)
  case (DirectIn ms n r1 r2 source data)
  then show ?thesis using assms direct_inbound_by_direct by (auto split: if_splits)
next
  case (DropDirect p i)
  then show ?thesis
    using assms by (auto simp: drop_direct_def dest: take_direct_by_direct split: if_splits option.splits)
next
  case (BeginSession p)
  then show ?thesis
    using assms by (auto simp: begin_session_def Let_def dest!: take_direct_by_direct split: option.splits)
next
  case (EndSession p i)
  then show ?thesis using assms by (auto simp: end_session_def split: if_splits)
next
  case (Transmit ms t r dest c)
  then show ?thesis using assms path_try_send_view [of cr ms t r dest c s] by simp
next
  case (SendProbes ms env p)
  then show ?thesis using assms send_probes_view [of cr ms env p s] by simp
next
  case (RelayIn x)
  then show ?thesis using assms relay_inbound_view [of cr x s] by simp
qed (use assms quiet_ops_view [unfolded prod.inject] in simp_all)

text \<open>C7: a direct address belongs to a peer only by proof. Whenever, after any sequence of operations on a fresh
  path socket, datagrams from an address are attributed to a peer, a pong arrived from exactly that
  address earlier, sealed under the key of that peer's session at that moment, answering a nonce
  this side had outstanding to it.\<close>

theorem direct_attribution_proved:
  assumes "by_direct (path_run cr es (assemble u l pl rf)) a = Some p"
  shows "\<exists>pre ev post. es = pre @ ev # post \<and> proves cr (path_run cr pre (assemble u l pl rf)) ev a p"
  using assms
proof (induction es rule: rev_induct)
  case Nil
  then show ?case by (simp add: path_run_def assemble_def)
next
  case (snoc ev es)
  show ?case
  proof (cases "by_direct (path_run cr es (assemble u l pl rf)) a = Some p")
    case True
    then obtain pre ev' post where "es = pre @ ev' # post"
        "proves cr (path_run cr pre (assemble u l pl rf)) ev' a p"
      using snoc.IH by blast
    then show ?thesis by (intro exI [of _ pre] exI [of _ ev'] exI [of _ "post @ [ev]"]) simp
  next
    case False
    then have "proves cr (path_run cr es (assemble u l pl rf)) ev a p"
      using path_step_by_direct [of cr ev _ a p] snoc.prems by (auto simp: path_run_snoc)
    then show ?thesis by blast
  qed
qed

text \<open>A proof at a second address leaves the first one attributed: \<open>handle_probe\<close> replaces the peer's proof
  and adds the new address, and dropping the direct path removes only the newest.\<close>

lemma superseded_proof_keeps_attribution:
  assumes "path_peers s p = Some e" "pending e (probe_nonce x) \<noteq> None" "pending e (probe_nonce y) \<noteq> None"
    and "probe_nonce x \<noteq> probe_nonce y" "a \<noteq> b" "live_sessions s p = Some i"
  shows "by_direct (drop_direct p i (handle_pong n p y b (handle_pong m p x a s))) a = Some p \<and>
    proven_direct p (drop_direct p i (handle_pong n p y b (handle_pong m p x a s))) = None"
proof -
  obtain c d where "pending e (probe_nonce x) = Some c" "pending e (probe_nonce y) = Some d"
    using assms by blast
  then show ?thesis
    using assms
    by (auto simp: handle_pong_def drop_direct_def take_direct_def proven_direct_def Let_def)
qed

theorem direct_attribution_proved_witness:
  "\<exists>pre ev post.
    [RegisterKey (NodeId (mk_arr [2])) (mk_arr [3]) (mk_arr [4]),
     PeerCandidates (NodeId (mk_arr [2])) [socket (V4 9) 7],
     SendProbes 0 (\<lambda>_. (mk_arr [8], UdpSent)) (NodeId (mk_arr [2])),
     DirectIn 5 (mk_arr []) UdpSent UdpSent (socket (V4 9) 7)
       (bytes_of (probe_seal plain_crypto
          \<lparr>probe_kind = PROBE_PONG, key_id = mk_arr [3], probe_nonce = mk_arr [8]\<rparr> (mk_arr [4])))] =
      pre @ ev # post \<and>
    proves plain_crypto (path_run plain_crypto pre
      (assemble True (socket (V4 1) 5) (pool_spawn (from_seed plain_crypto (mk_arr [1])) [] None) None)) ev
      (socket (V4 9) 7) (NodeId (mk_arr [2]))"
proof (rule direct_attribution_proved)
  let ?p = "NodeId (mk_arr [2])" and ?a = "socket (V4 9) 7"
  let ?pr = "\<lparr>probe_kind = PROBE_PONG, key_id = mk_arr [3], probe_nonce = mk_arr [8]\<rparr>"
  let ?d = "bytes_of (probe_seal plain_crypto ?pr (mk_arr [4]))"
  let ?s = "assemble True (socket (V4 1) 5) (pool_spawn (from_seed plain_crypto (mk_arr [1])) [] None) None"
  have "probe_open plain_crypto ?d (mk_arr [4]) = Some ?pr" "peek_key_id ?d = Some (mk_arr [3])"
    by (simp_all add: probe_open_iff peek_key_id_seal)
  then show "by_direct (path_run plain_crypto
     [RegisterKey ?p (mk_arr [3]) (mk_arr [4]), PeerCandidates ?p [?a],
      SendProbes 0 (\<lambda>_. (mk_arr [8], UdpSent)) ?p, DirectIn 5 (mk_arr []) UdpSent UdpSent ?a ?d] ?s) ?a = Some ?p"
    by (simp add: path_run_def assemble_def register_probe_key_def set_peer_candidates_def can_reach_def
        is_relay_only_def is_ipv4_def unmap_ipv6_def send_probes_def prune_learned_def probe_targets_def
        send_ping_def udp_send_def set_peer_def peer_entry_def peer_default_def direct_inbound_step_def
        probe_session_def handle_probe_def handle_pong_def PROBE_PING_def PROBE_PONG_def Let_def)
qed

section \<open>Newest session wins\<close>

definition sessions_ok :: "paths \<Rightarrow> bool" where
  "sessions_ok s \<longleftrightarrow>
     (\<forall>p i. live_sessions s p = Some i \<longrightarrow> i < next_session s) \<and> (\<forall>i\<in>set (notified s). i < next_session s)"

lemma take_direct_simps [simp]:
  "live_sessions (take_direct p e s) = live_sessions s" "next_session (take_direct p e s) = next_session s"
  "notified (take_direct p e s) = notified s" "udp (take_direct p e s) = udp s"
  "udp_out (take_direct p e s) = udp_out s"
  "path_peers (take_direct p e s) = (path_peers s)(p \<mapsto> e\<lparr>direct_proof := None\<rparr>)"
  by (simp_all add: take_direct_def Let_def split: option.splits)

lemma begin_session_simps:
  "live_sessions (fst (begin_session p s)) = (live_sessions s)(p \<mapsto> next_session s)"
  "next_session (fst (begin_session p s)) = Suc (next_session s)"
  "notified (fst (begin_session p s)) =
     notified s @ (case live_sessions s p of Some old \<Rightarrow> [old] | None \<Rightarrow> [])"
  "snd (begin_session p s) = next_session s"
  by (simp_all add: begin_session_def Let_def split: option.splits)

lemma handle_probe_sessions:
  "live_sessions (handle_probe cr ms n r1 r2 p key pr a s) = live_sessions s \<and>
   next_session (handle_probe cr ms n r1 r2 p key pr a s) = next_session s \<and>
   notified (handle_probe cr ms n r1 r2 p key pr a s) = notified s"
proof -
  have "live_sessions (handle_pong ms p pr a s) = live_sessions s \<and>
      next_session (handle_pong ms p pr a s) = next_session s \<and> notified (handle_pong ms p pr a s) = notified s"
    by (simp add: handle_pong_def Let_def split: option.splits)
  then show ?thesis
    using handle_ping_view [of cr ms n r1 r2 p key pr a s] by (simp add: handle_probe_def)
qed

lemma direct_inbound_sessions:
  "live_sessions (direct_inbound_step cr ms n r1 r2 src d s) = live_sessions s \<and>
   next_session (direct_inbound_step cr ms n r1 r2 src d s) = next_session s \<and>
   notified (direct_inbound_step cr ms n r1 r2 src d s) = notified s"
  using handle_probe_sessions quiet_ops_view(8) [unfolded prod.inject]
  by (simp add: direct_inbound_step_def Let_def split: option.splits)

lemma sessions_ok_step:
  assumes "sessions_ok s"
  shows "sessions_ok (path_step cr ev s)"
proof (cases ev)
  case (BeginSession p)
  then show ?thesis
    using assms by (auto simp: sessions_ok_def begin_session_simps less_Suc_eq split: option.splits)
next
  case (DropDirect p i)
  then show ?thesis using assms by (auto simp: sessions_ok_def drop_direct_def split: option.splits)
next
  case (EndSession p i)
  then show ?thesis using assms by (auto simp: sessions_ok_def end_session_def)
next
  case (DirectIn ms n r1 r2 src d)
  then show ?thesis using assms direct_inbound_sessions by (simp add: sessions_ok_def)
next
  case (Transmit ms t r dest c)
  then show ?thesis using assms path_try_send_view [of cr ms t r dest c s] by (simp add: sessions_ok_def)
next
  case (SendProbes ms env p)
  then show ?thesis using assms send_probes_view [of cr ms env p s] by (simp add: sessions_ok_def)
next
  case (RelayIn x)
  then show ?thesis using assms relay_inbound_view [of cr x s] by (simp add: sessions_ok_def)
qed (use assms quiet_ops_view [unfolded prod.inject] in \<open>simp_all add: sessions_ok_def\<close>)

interpretation path: machine "path_step cr" sessions_ok for cr
  by unfold_locales (rule sessions_ok_step)



section \<open>Relay-only sockets\<close>

definition relay_only_ok :: "paths \<Rightarrow> bool" where
  "relay_only_ok s \<longleftrightarrow> \<not> udp s \<and> udp_out s = [] \<and> by_direct s = Map.empty \<and>
     (\<forall>e\<in>ran (path_peers s). candidates e = [])"

lemma relay_only_set_peer:
  "relay_only_ok s \<Longrightarrow> candidates e = [] \<Longrightarrow> relay_only_ok (set_peer p e s)"
  by (auto simp: relay_only_ok_def ran_def)

lemma relay_only_entry: "relay_only_ok s \<Longrightarrow> candidates (peer_entry p s) = []"
  by (auto simp: relay_only_ok_def peer_entry_def peer_default_def ran_def split: option.splits)

lemma relay_only_peer: "relay_only_ok s \<Longrightarrow> path_peers s p = Some e \<Longrightarrow> candidates e = []"
  by (auto simp: relay_only_ok_def ran_def)

lemma relay_only_upd [simp]:
  "relay_only_ok (s\<lparr>by_synthetic := a\<rparr>) = relay_only_ok s"
  "relay_only_ok (s\<lparr>by_key_id := b\<rparr>) = relay_only_ok s"
  "relay_only_ok (s\<lparr>relay_pool := c\<rparr>) = relay_only_ok s"
  "relay_only_ok (s\<lparr>path_inbound := d\<rparr>) = relay_only_ok s"
  "relay_only_ok (s\<lparr>live_sessions := f\<rparr>) = relay_only_ok s"
  "relay_only_ok (s\<lparr>blocked_on := g\<rparr>) = relay_only_ok s"
  "relay_only_ok (s\<lparr>next_session := h\<rparr>) = relay_only_ok s"
  "relay_only_ok (s\<lparr>notified := i\<rparr>) = relay_only_ok s"
  by (simp_all add: relay_only_ok_def)

lemma relay_only_take_direct:
  "relay_only_ok s \<Longrightarrow> candidates e = [] \<Longrightarrow> relay_only_ok (take_direct p e s)"
  by (auto simp: take_direct_def Let_def relay_only_ok_def ran_def split: option.splits)

lemma relay_only_register_probe_key:
  "relay_only_ok s \<Longrightarrow> relay_only_ok (register_probe_key p k key s)"
  by (auto simp: register_probe_key_def Let_def relay_only_set_peer relay_only_entry split: option.splits)

lemma relay_only_unregister_probe_key:
  "relay_only_ok s \<Longrightarrow> relay_only_ok (unregister_probe_key k s)"
  by (auto simp: unregister_probe_key_def Let_def intro!: relay_only_set_peer intro: relay_only_peer
      split: option.splits)

lemma relay_only_ping_all:
  "relay_only_ok s \<Longrightarrow> fst (ping_all cr ms env p as s) = s"
  by (induction as) (auto simp: send_ping_def relay_only_ok_def Let_def split_beta)

lemma relay_only_send_probes: "relay_only_ok s \<Longrightarrow> relay_only_ok (fst (send_probes cr ms env p s))"
proof -
  assume a: "relay_only_ok s"
  have "relay_only_ok (prune_learned ms p s')" if "relay_only_ok s'" for s'
    using that by (auto simp: prune_learned_def intro!: relay_only_set_peer intro: relay_only_peer
        split: option.splits)
  then show ?thesis
    using a by (simp add: send_probes_def Let_def relay_only_ping_all relay_only_set_peer relay_only_entry)
qed

lemma relay_only_register_peer: "relay_only_ok s \<Longrightarrow> relay_only_ok (register_peer cr p s)"
  by (simp add: register_peer_def Let_def relay_only_set_peer relay_only_entry)

lemma relay_only_step:
  assumes "relay_only_ok s"
  shows "relay_only_ok (path_step cr ev s)"
proof (cases ev)
  case (PeerCandidates p cs)
  have "filter (\<lambda>a. can_reach a s) (map unmap_ipv6 cs) = []"
    using assms by (simp add: can_reach_def is_relay_only_def relay_only_ok_def)
  then show ?thesis
    using assms PeerCandidates by (simp add: set_peer_candidates_def Let_def relay_only_set_peer)
next
  case (DropDirect p i)
  then show ?thesis
    using assms by (auto simp: drop_direct_def intro!: relay_only_take_direct intro: relay_only_peer
        split: option.splits)
next
  case (BeginSession p)
  then show ?thesis
    using assms by (auto simp: begin_session_def Let_def relay_only_take_direct split: option.splits)
next
  case (RelayIn x)
  have "relay_only_ok (heard_on p i s')" if "relay_only_ok s'" for p i s'
    using that by (simp add: heard_on_def Let_def relay_only_set_peer relay_only_entry)
  then show ?thesis
    using assms RelayIn by (simp add: relay_inbound_step_def deliver_def relay_only_register_peer)
next
  case (Transmit ms t r dest c)
  have "proven_direct p s = None" for p
    using assms by (simp add: proven_direct_def is_relay_only_def relay_only_ok_def)
  then show ?thesis
    using assms Transmit by (auto simp: path_try_send_def Let_def split_beta split: option.splits)
next
  case (DirectIn ms n r1 r2 src d)
  then show ?thesis using assms by (simp add: relay_only_ok_def)
qed (use assms in \<open>auto simp: relay_only_register_peer relay_only_register_probe_key
       relay_only_unregister_probe_key relay_only_send_probes end_session_def set_peer_relays_def
       copy_relay_route_def requery_reflector_def query_reflector_def path_poll_recv_def Let_def split_beta
       relay_only_set_peer relay_only_entry split: option.splits\<close>,
     auto simp: relay_only_ok_def peer_entry_def)

interpretation relay_only: machine "path_step cr" relay_only_ok for cr
  by unfold_locales (rule relay_only_step)

text \<open>A relay-only path socket never goes direct. Without a UDP socket, whatever the peers, the sessions and the
  relays do, no datagram is ever sent by UDP, no address is attributed to a peer, no peer has a direct
  proof or a usable candidate, and none is offered.\<close>

theorem relay_only_never_direct:
  "udp_out (path_run cr es (assemble False l pl rf)) = [] \<and>
   by_direct (path_run cr es (assemble False l pl rf)) = Map.empty \<and>
   proven_direct p (path_run cr es (assemble False l pl rf)) = None \<and>
   peer_candidates p (path_run cr es (assemble False l pl rf)) = [] \<and>
   local_candidates addrs (path_run cr es (assemble False l pl rf)) = []"
proof -
  have "relay_only_ok (path_run cr es (assemble False l pl rf))"
    unfolding path_run_def by (rule relay_only.run_inv) (simp add: relay_only_ok_def assemble_def)
  then show ?thesis
    by (auto simp: relay_only_ok_def proven_direct_def peer_candidates_def local_candidates_def
        is_relay_only_def ran_def split: option.splits)
qed

section \<open>Routing\<close>

text \<open>An answer follows the relay its question came by. After a relay datagram from a peer arrives on a driver
  of the pool, and while there is no fresh direct proof for that peer, a datagram to the peer's
  synthetic address is queued on exactly that driver, and nothing leaves by UDP.\<close>

theorem replies_follow_the_relay:
  assumes "length contents \<le> MAX_DATAGRAM" "pool_driver (in_driver x) (relay_pool s) = Some d"
    and "proven_direct (in_source x) s = None"
  shows "relay_pool (fst (path_try_send cr ms t r (synthetic_addr cr (in_source x)) contents
      (relay_inbound_step cr x s))) =
      fst (pool_try_send cr t (in_driver x) (in_source x) contents (relay_pool s)) \<and>
    udp_out (fst (path_try_send cr ms t r (synthetic_addr cr (in_source x)) contents
      (relay_inbound_step cr x s))) = udp_out s"
proof -
  let ?p = "in_source x" and ?s = "relay_inbound_step cr x s"
  let ?e = "(peer_entry ?p s)\<lparr>peer_driver := Some (in_driver x)\<rparr>"
  have peers: "path_peers ?s ?p = Some ?e"
    by (simp add: relay_inbound_step_def deliver_def heard_on_def register_peer_def peer_entry_def Let_def)
  have rest: "relay_pool ?s = relay_pool s" "udp_out ?s = udp_out s" "udp ?s = udp s"
      "by_synthetic ?s (synthetic_addr cr ?p) = Some ?p"
    by (simp_all add: relay_inbound_step_def deliver_def heard_on_def register_peer_def Let_def)
  have "proven_direct ?p ?s = None"
    using assms(3) peers rest(3)
    by (auto simp: proven_direct_def is_relay_only_def peer_entry_def peer_default_def split: option.splits)
  moreover have "relay_for ?p ?s = in_driver x"
    using peers rest(1) assms(2) by (simp add: relay_for_def)
  ultimately show ?thesis
    using assms(1) rest by (simp add: path_try_send_def Let_def split_beta)
qed

theorem replies_follow_the_relay_witness:
  "let s = assemble True (socket (V4 1) 5) (pool_spawn (from_seed plain_crypto (mk_arr [1])) [] None) None;
       x = \<lparr>in_source = NodeId (mk_arr [2]), in_datagram = [9], in_driver = 0\<rparr>
   in udp_out (fst (path_try_send plain_crypto 0 0 UdpSent (synthetic_addr plain_crypto (in_source x)) [1]
        (relay_inbound_step plain_crypto x s))) = []"
  using replies_follow_the_relay [of "[1]" "\<lparr>in_source = NodeId (mk_arr [2]), in_datagram = [9], in_driver = 0\<rparr>"
      "assemble True (socket (V4 1) 5) (pool_spawn (from_seed plain_crypto (mk_arr [1])) [] None) None"
      "spawn_driver 0 [] None" plain_crypto 0 0 UdpSent]
  by (simp add: MAX_DATAGRAM_def assemble_def pool_driver_def pool_spawn_def proven_direct_def)

text \<open>The host's own addresses: at most eight, no duplicates, the loopback address among them.\<close>

lemma set_offer: "set (offer v4 a out) \<subseteq> insert a (set out)" "set out \<subseteq> set (offer v4 a out)"
  by (auto simp: offer_def)

lemma distinct_offer: "distinct out \<Longrightarrow> distinct (offer v4 a out)"
  by (simp add: offer_def)

lemma local_addresses_bounds:
  "length (local_addresses v4 via ifs) \<le> 8 \<and> distinct (local_addresses v4 via ifs) \<and>
   (if v4 then V4 0x7F000001 else V6 1) \<in> set (local_addresses v4 via ifs)"
proof -
  let ?f = "\<lambda>a out. if is_loopback a \<or> is_unspecified a \<or> is_link_local a then out else offer v4 a out"
  let ?o = "case via of Some a \<Rightarrow> offer v4 a [] | None \<Rightarrow> []"
  let ?l = "if v4 then V4 0x7F000001 else V6 1"
  let ?t = "take 7 (fold ?f ifs ?o)"
  have "distinct ?o" by (simp add: distinct_offer split: option.splits)
  moreover have "distinct out \<Longrightarrow> distinct (fold ?f ifs out)" for out
    by (induction ifs arbitrary: out) (simp_all add: distinct_offer)
  ultimately have "distinct (fold ?f ifs ?o)" by blast
  then have d: "distinct ?t" by simp
  have "is_ipv4 ?l = v4" by (simp add: is_ipv4_def)
  then have o: "length (offer v4 ?l out) \<le> Suc (length out)" "?l \<in> set (offer v4 ?l out)" for out
    by (simp_all add: offer_def)
  have "MAX_LOCAL_CANDIDATES - 1 = 7" by (simp add: MAX_LOCAL_CANDIDATES_def)
  then have eq: "local_addresses v4 via ifs = offer v4 ?l ?t"
    by (simp only: local_addresses_def Let_def)
  have "length ?t \<le> 7" by simp
  then have "length (offer v4 ?l ?t) \<le> 8" using o(1) [of ?t] by linarith
  then show ?thesis unfolding eq using distinct_offer [OF d] o(2) by blast
qed

end
