(* ===== verification/Session.thy ===== *)
theory Session
  imports Path_Socket Streams
begin

text \<open>
  \<open>link-endpoint/src/session.rs\<close>: the control stream of a session and the state machine that reports
  its path. \<open>session_step\<close> is one pass of the loop of \<open>drive\<close>: the branch of the select that fired,
  then the body. It works on the session and on the path socket they share. The \<open>quinn\<close> connection is
  a parameter: its exported keying material and the reason it closed. A cause keeps the fixed part
  of its text.
\<close>

section \<open>The control stream\<close>

definition CONTROL_CANDIDATES :: u8 where "CONTROL_CANDIDATES = 0x01"
definition CONTROL_PUNCH_NOW :: u8 where "CONTROL_PUNCH_NOW = 0x02"
definition CONTROL_MAX_BYTES :: nat where "CONTROL_MAX_BYTES = 4096"

datatype control = Candidates "socket_addr list" | PunchNow | Unknown

datatype control_send = SendCandidates | SendPunchNow

definition punch_now_message :: bytes where
  "punch_now_message = [0, 0, 0, 1, CONTROL_PUNCH_NOW]"

definition candidate_bytes :: "socket_addr \<Rightarrow> bytes" where
  "candidate_bytes addr = to_be (to_ipv6 (ip addr)) @ to_be (port addr)"

definition candidates_message :: "socket_addr list \<Rightarrow> bytes" where
  "candidates_message cs =
     (let body = [CONTROL_CANDIDATES, word_of_nat (min (length cs) 255)] @
                 concat (map candidate_bytes (take 255 cs))
      in to_be (word_of_nat (length body) :: u32) @ body)"

text \<open>\<open>as_chunks::<18>\<close> and the loop over the chunks, which stops at the first that is no address.\<close>

fun candidate_chunks :: "bytes list \<Rightarrow> socket_addr list option" where
  "candidate_chunks [] = Some []"
| "candidate_chunks (c # cs) =
     (case as_udp \<lparr>hint_kind = HINT_UDP, hint_value = c\<rparr> of
        None \<Rightarrow> None
      | Some a \<Rightarrow> map_option (\<lambda>as. a # as) (candidate_chunks cs))"

definition parse_candidates :: "bytes \<Rightarrow> socket_addr list option" where
  "parse_candidates b =
     (case b of
        [] \<Rightarrow> None
      | n # rest \<Rightarrow>
          if length rest \<noteq> unat n * 18 then None else candidate_chunks (chunks 18 rest))"

definition parse_control :: "bytes \<Rightarrow> control option" where
  "parse_control b =
     (case b of
        [] \<Rightarrow> None
      | k # rest \<Rightarrow>
          if k = CONTROL_CANDIDATES then map_option Candidates (parse_candidates rest)
          else if k = CONTROL_PUNCH_NOW then Some PunchNow
          else Some Unknown)"

text \<open>The loop of \<open>control_acceptor\<close>: the messages it takes from the stream before it stops.\<close>

definition control_message :: "bytes \<Rightarrow> (control \<times> bytes) option" where
  "control_message recv =
     (case read_exact 4 recv of
        None \<Rightarrow> None
      | Some (header, recv) \<Rightarrow>
          let len = unat (from_be header :: u32)
          in if len = 0 \<or> len > CONTROL_MAX_BYTES then None
             else case read_exact len recv of
                    None \<Rightarrow> None
                  | Some (body, recv) \<Rightarrow> map_option (\<lambda>c. (c, recv)) (parse_control body))"

lemma control_message_shorter: "control_message recv = Some (c, rest) \<Longrightarrow> length rest < length recv"
  by (auto simp: control_message_def Let_def read_exact_def split: option.splits if_splits)

function control_acceptor :: "bytes \<Rightarrow> control list" where
  "control_acceptor recv =
     (case control_message recv of None \<Rightarrow> [] | Some (c, rest) \<Rightarrow> c # control_acceptor rest)"
  by auto

termination
  by (relation "measure length") (auto dest: control_message_shorter)

declare control_acceptor.simps [simp del]

section \<open>The session\<close>

definition PROBE_ROUND :: nat where "PROBE_ROUND = 5000"
definition PROBE_COOLDOWN :: nat where "PROBE_COOLDOWN = 30000"
definition REPROVE_INTERVAL :: nat where "REPROVE_INTERVAL = 5000"
definition HISTORY_CAP :: nat where "HISTORY_CAP = 256"
definition CONTROL_QUEUE :: nat where "CONTROL_QUEUE = 8"
definition REFLECTOR_GRACE :: nat where "REFLECTOR_GRACE = 300"

datatype asked = ProbeIdle | ProbeLocal | ProbePeer

text \<open>\<open>SessionInner\<close>, then the local variables of \<open>drive\<close>; \<open>running\<close> until \<open>drive\<close> returns.\<close>

record link_session =
  sess_peer :: node_id
  allow_direct :: bool
  report :: path_report
  history :: "path_report list"
  probe_now :: asked
  control_tx :: "control_send list"
  punch_requests :: u32
  probe_key_id :: "8 arr option"
  session_id :: nat
  conn_closed :: bool
  close_code :: "nat option"
  control_seen :: bool
  app_streams :: "nat list"
  running :: bool
  before_reconnect :: path_status
  reconnect_since :: "nat option"
  probe_round_ends :: "nat option"
  next_probe_attempt :: nat
  last_probe_sent :: nat
  announced :: bool
  round_cause :: string
  net_alive :: bool
  reannounce_at :: "nat option"
  followed :: nat
  relay_state :: relay_status

definition driver_status :: "nat \<Rightarrow> paths \<Rightarrow> relay_status" where
  "driver_status i s =
     (case pool_driver i (relay_pool s) of Some d \<Rightarrow> relay_status d | None \<Rightarrow> RelayFailed)"

definition relay_url_of :: "node_id \<Rightarrow> paths \<Rightarrow> string option" where
  "relay_url_of p s = (case driver_status (relay_for p s) s of Up u \<Rightarrow> Some u | _ \<Rightarrow> None)"

definition transition :: "nat \<Rightarrow> path_status \<Rightarrow> string \<Rightarrow> paths \<Rightarrow> link_session \<Rightarrow> link_session" where
  "transition ms st why s x =
     (let relay = relay_url_of (sess_peer x) s;
          dir = (if st = Direct then map_option proven_addr (proven_direct (sess_peer x) s) else None)
      in if status (report x) = st then x\<lparr>report := (report x)\<lparr>relay_url := relay, direct := dir\<rparr>\<rparr>
         else
           let r = \<lparr>status = st, relay_url = relay, direct = dir, since = ms, cause = why\<rparr>
           in x\<lparr>report := r,
                history := (if length (history x) < HISTORY_CAP then history x @ [r] else history x)\<rparr>)"

definition reprove_due :: "nat \<Rightarrow> nat" where
  "reprove_due ms = (if REPROVE_INTERVAL \<le> ms then ms - REPROVE_INTERVAL else ms)"

text \<open>\<open>Session::start\<close>; \<open>material\<close> is what the TLS exporter gave, the key and then the key id.\<close>

definition session_start ::
  "nat \<Rightarrow> node_id \<Rightarrow> bool \<Rightarrow> nat \<Rightarrow> (32 arr \<times> 8 arr) option \<Rightarrow> nat \<Rightarrow> paths \<Rightarrow> link_session \<times> paths" where
  "session_start ms p direct_ok probe_delay material slot s =
     (let initial = \<lparr>status = InRendezvous, relay_url = relay_url_of p s, direct = None, since = ms,
                     cause = ''connect''\<rparr>;
          s = (case material of Some (key, k) \<Rightarrow> register_probe_key p k key s | None \<Rightarrow> s);
          x = \<lparr>sess_peer = p, allow_direct = direct_ok, report = initial, history = [initial],
               probe_now = ProbeIdle, control_tx = [], punch_requests = 0,
               probe_key_id = map_option snd material, session_id = slot, conn_closed = False, close_code = None,
               control_seen = False, app_streams = [],
               running = True, before_reconnect = Relayed, reconnect_since = None,
               probe_round_ends = None, next_probe_attempt = ms + probe_delay,
               last_probe_sent = reprove_due ms, announced = False,
               round_cause = ''settle delay elapsed'', net_alive = True, reannounce_at = None,
               followed = relay_for p s, relay_state = driver_status (relay_for p s) s\<rparr>
      in (transition ms Relayed ''QUIC handshake over relay ok'' s x, s))"

definition queue_control :: "control_send \<Rightarrow> link_session \<Rightarrow> link_session" where
  "queue_control c x =
     (if length (control_tx x) < CONTROL_QUEUE then x\<lparr>control_tx := control_tx x @ [c]\<rparr> else x)"

definition request_direct :: "link_session \<Rightarrow> link_session" where
  "request_direct x = queue_control SendPunchNow (x\<lparr>probe_now := ProbeLocal\<rparr>)"

definition reannounce :: "link_session \<Rightarrow> link_session" where
  "reannounce x = request_direct (queue_control SendCandidates x)"

definition session_close :: "nat \<Rightarrow> link_session \<Rightarrow> link_session" where
  "session_close reason x =
     (if conn_closed x then x else x\<lparr>conn_closed := True, close_code := Some reason\<rparr>)"

definition STREAM_QUEUE :: nat where "STREAM_QUEUE = 16"

text \<open>\<open>accept_loop\<close> with an accepted stream, the first being the control stream; \<open>None\<close> while it waits for
  room in the queue of application streams.\<close>

definition on_accept_bi :: "nat \<Rightarrow> link_session \<Rightarrow> link_session option" where
  "on_accept_bi stream x =
     (if \<not> control_seen x then Some (x\<lparr>control_seen := True\<rparr>)
      else if length (app_streams x) < STREAM_QUEUE
      then Some (x\<lparr>app_streams := app_streams x @ [stream]\<rparr>) else None)"

definition accept_stream :: "link_session \<Rightarrow> link_session \<times> nat option" where
  "accept_stream x =
     (case app_streams x of [] \<Rightarrow> (x, None) | i # is \<Rightarrow> (x\<lparr>app_streams := is\<rparr>, Some i))"

text \<open>What \<open>control_initiator\<close> writes first, and for each request.\<close>

definition own_candidates :: "ip_addr list \<Rightarrow> paths \<Rightarrow> link_session \<Rightarrow> socket_addr list" where
  "own_candidates addrs s x = (if allow_direct x then local_candidates addrs s else [])"

definition control_write :: "ip_addr list \<Rightarrow> paths \<Rightarrow> link_session \<Rightarrow> link_session \<times> bytes option" where
  "control_write addrs s x =
     (case control_tx x of
        [] \<Rightarrow> (x, None)
      | c # cs \<Rightarrow>
          (x\<lparr>control_tx := cs\<rparr>,
           Some (case c of SendCandidates \<Rightarrow> candidates_message (own_candidates addrs s x)
                         | SendPunchNow \<Rightarrow> punch_now_message)))"

text \<open>What \<open>control_acceptor\<close> does with a message.\<close>

definition on_control :: "control \<Rightarrow> link_session \<times> paths \<Rightarrow> link_session \<times> paths" where
  "on_control c xs =
     (case c of
        Candidates cs \<Rightarrow> (fst xs, set_peer_candidates (sess_peer (fst xs)) cs (snd xs))
      | PunchNow \<Rightarrow>
          ((fst xs)\<lparr>punch_requests := punch_requests (fst xs) + 1, probe_now := ProbePeer\<rparr>, snd xs)
      | Unknown \<Rightarrow> xs)"

section \<open>The state machine\<close>

datatype close_reason = LocallyClosed | ApplicationClosed | TimedOut | OtherClose string

datatype drive_event =
    SlotTaken
  | ConnClosed close_reason
  | RelayEvent relay_status
  | RelayLagged
  | RelayGone
  | NetChanged "16 arr" udp_result
  | NetGone
  | Tick

definition forget_key :: "link_session \<Rightarrow> paths \<Rightarrow> paths" where
  "forget_key x s = (case probe_key_id x of Some k \<Rightarrow> unregister_probe_key k s | None \<Rightarrow> s)"

definition is_failed :: "path_status \<Rightarrow> bool" where
  "is_failed st = (case st of Failed _ \<Rightarrow> True | _ \<Rightarrow> False)"

text \<open>The two branches that end \<open>drive\<close>.\<close>

definition on_superseded :: "nat \<Rightarrow> link_session \<times> paths \<Rightarrow> link_session \<times> paths" where
  "on_superseded ms xs =
     (let x = fst xs; s = forget_key x (snd xs);
          x = transition ms (Failed FailSuperseded) ''superseded by a newer session from the same node'' s x
      in (x\<lparr>conn_closed := True, close_code := Some 2, running := False\<rparr>, s))"

definition on_closed :: "nat \<Rightarrow> close_reason \<Rightarrow> link_session \<times> paths \<Rightarrow> link_session \<times> paths" where
  "on_closed ms why xs =
     (let x = fst xs;
          s = end_session (sess_peer x) (session_id x) (forget_key x (snd xs));
          x = (if is_failed (status (report x)) then x
               else case why of
                      LocallyClosed \<Rightarrow> x
                    | ApplicationClosed \<Rightarrow> x
                    | TimedOut \<Rightarrow> transition ms (Failed FailTimeout) ''QUIC idle timeout'' s x
                    | OtherClose _ \<Rightarrow> transition ms (Failed FailRelay) ''connection ended'' s x)
      in (x\<lparr>conn_closed := True, running := False\<rparr>, s))"

text \<open>The match on the relay's state; \<open>False\<close> when the pass ends there.\<close>

definition relay_part :: "nat \<Rightarrow> paths \<Rightarrow> link_session \<Rightarrow> link_session \<times> bool" where
  "relay_part ms s x =
     (let st = status (report x)
      in case relay_state x of
           RelaySuperseded \<Rightarrow>
             ((transition ms (Failed FailSuperseded) ''relay node-ID slot taken by a newer process'' s x)
                \<lparr>running := False\<rparr>, False)
         | RelayFailed \<Rightarrow>
             ((transition ms (Failed FailRelay) ''no relay within 60 s'' s x)\<lparr>running := False\<rparr>, False)
         | RelayReconnecting \<Rightarrow>
             (if st \<noteq> Reconnecting
              then transition ms Reconnecting ''relay session lost'' s
                     (x\<lparr>before_reconnect := st, reconnect_since := Some ms\<rparr>)
              else x, False)
         | Connecting \<Rightarrow>
             (if st \<noteq> Reconnecting
              then transition ms Reconnecting ''relay session lost'' s
                     (x\<lparr>before_reconnect := st, reconnect_since := Some ms\<rparr>)
              else x, False)
         | Up _ \<Rightarrow>
             (if st = Reconnecting
              then (transition ms (before_reconnect x) ''new relay welcome'' s x)\<lparr>reconnect_since := None\<rparr>
              else x, True))"

definition fresh :: "nat \<Rightarrow> proven option \<Rightarrow> bool" where
  "fresh ms proof = (case proof of Some d \<Rightarrow> ms - proved_at d < DIRECT_FRESH | None \<Rightarrow> False)"

type_synonym probe_env = "socket_addr \<Rightarrow> 16 arr \<times> udp_result"

text \<open>The three branches of the final match.\<close>

definition when_relayed :: "crypto \<Rightarrow> nat \<Rightarrow> probe_env \<Rightarrow> link_session \<times> paths \<Rightarrow> link_session \<times> paths" where
  "when_relayed cr ms env xs =
     (let x = fst xs; s = snd xs; p = sess_peer x
      in if fresh ms (proven_direct p s) then (transition ms Direct ''signed pong proved'' s x, s)
         else if peer_candidates p s = [] then
           (if announced x then x
            else transition ms Relayed ''peer offered no candidates'' s (x\<lparr>announced := True\<rparr>), s)
         else if ms < next_probe_attempt x then (x, s)
         else
           ((transition ms Probing (''peer candidates, '' @ round_cause x) s x)
              \<lparr>round_cause := ''cooldown elapsed'', probe_round_ends := Some (ms + PROBE_ROUND),
               last_probe_sent := ms\<rparr>,
            fst (send_probes cr ms env p s)))"

definition when_probing :: "crypto \<Rightarrow> nat \<Rightarrow> probe_env \<Rightarrow> link_session \<times> paths \<Rightarrow> link_session \<times> paths" where
  "when_probing cr ms env xs =
     (let x = fst xs; s = snd xs; p = sess_peer x
      in if fresh ms (proven_direct p s)
         then ((transition ms Direct ''signed pong proved'' s x)\<lparr>probe_round_ends := None\<rparr>, s)
         else
           let (x, s) = (if ms - last_probe_sent x \<ge> 500
                         then (x\<lparr>last_probe_sent := ms\<rparr>, fst (send_probes cr ms env p s)) else (x, s))
           in if (case probe_round_ends x of Some e \<Rightarrow> ms \<ge> e | None \<Rightarrow> False)
              then (transition ms Relayed ''direct_failed: all probes timed out'' s
                      (x\<lparr>probe_round_ends := None, next_probe_attempt := ms + PROBE_COOLDOWN\<rparr>), s)
              else (x, s))"

definition when_direct :: "crypto \<Rightarrow> nat \<Rightarrow> probe_env \<Rightarrow> link_session \<times> paths \<Rightarrow> link_session \<times> paths" where
  "when_direct cr ms env xs =
     (let x = fst xs; s = snd xs; p = sess_peer x
      in if fresh ms (proven_direct p s) then
           (if ms - last_probe_sent x \<ge> REPROVE_INTERVAL
            then (x\<lparr>last_probe_sent := ms\<rparr>, fst (send_probes cr ms env p s)) else (x, s))
         else
           let s = drop_direct p (session_id x) s
           in (transition ms Relayed ''direct_lost: proof older than 15 s and re-probe failed'' s
                 (x\<lparr>next_probe_attempt := ms + PROBE_COOLDOWN\<rparr>), s))"

text \<open>A due re-announcement, and taking up a request for a probing round.\<close>

definition take_request :: "nat \<Rightarrow> link_session \<Rightarrow> link_session" where
  "take_request ms x =
     (let x = (if (case reannounce_at x of Some at \<Rightarrow> ms \<ge> at | None \<Rightarrow> False)
               then (queue_control SendPunchNow (queue_control SendCandidates (x\<lparr>reannounce_at := None\<rparr>)))
                      \<lparr>probe_now := ProbeLocal\<rparr>
               else x);
          who = probe_now x;
          x = x\<lparr>probe_now := ProbeIdle\<rparr>
      in if who \<noteq> ProbeIdle
         then x\<lparr>next_probe_attempt := ms,
                round_cause := (if who = ProbePeer then ''punch-now from peer'' else ''requested here''),
                last_probe_sent := reprove_due ms\<rparr>
         else x)"

definition direct_part :: "crypto \<Rightarrow> nat \<Rightarrow> probe_env \<Rightarrow> link_session \<times> paths \<Rightarrow> link_session \<times> paths" where
  "direct_part cr ms env xs =
     (let x = fst xs; s = snd xs
      in if \<not> allow_direct x then
           (if status (report x) = Relayed \<and> \<not> announced x
            then (transition ms Relayed ''owner declined direct paths'' s (x\<lparr>announced := True\<rparr>), s) else (x, s))
         else
           case status (report x) of
             Relayed \<Rightarrow> when_relayed cr ms env (take_request ms x, s)
           | Probing \<Rightarrow> when_probing cr ms env (take_request ms x, s)
           | Direct \<Rightarrow> when_direct cr ms env (take_request ms x, s)
           | _ \<Rightarrow> (take_request ms x, s))"

definition follow_driver :: "paths \<Rightarrow> link_session \<Rightarrow> link_session" where
  "follow_driver s x =
     (let i = relay_for (sess_peer x) s
      in if i \<noteq> followed x then x\<lparr>followed := i, relay_state := driver_status i s\<rparr> else x)"

definition drive_body :: "crypto \<Rightarrow> nat \<Rightarrow> probe_env \<Rightarrow> link_session \<times> paths \<Rightarrow> link_session \<times> paths" where
  "drive_body cr ms env xs =
     (let x = follow_driver (snd xs) (fst xs); s = snd xs
      in if is_failed (status (report x)) then (x\<lparr>running := False\<rparr>, s)
         else case relay_part ms s x of
                (x, False) \<Rightarrow> (x, s)
              | (x, True) \<Rightarrow> direct_part cr ms env (x, s))"

definition session_step ::
  "crypto \<Rightarrow> nat \<Rightarrow> probe_env \<Rightarrow> drive_event \<Rightarrow> link_session \<times> paths \<Rightarrow> link_session \<times> paths" where
  "session_step cr ms env ev xs =
     (if \<not> running (fst xs) then xs
      else case ev of
             SlotTaken \<Rightarrow> on_superseded ms xs
           | ConnClosed why \<Rightarrow> on_closed ms why xs
           | RelayEvent nxt \<Rightarrow> drive_body cr ms env ((fst xs)\<lparr>relay_state := nxt\<rparr>, snd xs)
           | RelayLagged \<Rightarrow>
               drive_body cr ms env
                 ((fst xs)\<lparr>relay_state := driver_status (followed (fst xs)) (snd xs)\<rparr>, snd xs)
           | RelayGone \<Rightarrow> drive_body cr ms env xs
           | NetChanged nonce r \<Rightarrow>
               drive_body cr ms env ((fst xs)\<lparr>reannounce_at := Some (ms + REFLECTOR_GRACE)\<rparr>,
                 requery_reflector nonce r (snd xs))
           | NetGone \<Rightarrow> drive_body cr ms env ((fst xs)\<lparr>net_alive := False\<rparr>, snd xs)
           | Tick \<Rightarrow> drive_body cr ms env xs)"

section \<open>Control messages\<close>

text \<open>An address as the wire carries it: v4 addresses in their v4-mapped form.\<close>

definition wire_form :: "socket_addr \<Rightarrow> socket_addr" where
  "wire_form a = socket (V6 (to_ipv6 (ip a))) (port a)"

lemma length_candidate_bytes [simp]: "length (candidate_bytes a) = 18"
  by (simp add: candidate_bytes_def)

lemma chunks_concat: "0 < n \<Longrightarrow> list_all (\<lambda>c. length c = n) cs \<Longrightarrow> chunks n (concat cs) = cs"
proof (induction cs)
  case Nil
  then show ?case by (cases n) simp_all
next
  case (Cons c cs)
  then obtain m b bs where "n = Suc m" "c = b # bs" by (cases n; cases c) auto
  then show ?case using Cons by simp
qed

lemma candidate_chunks_bytes: "candidate_chunks (map candidate_bytes cs) = Some (map wire_form cs)"
proof (induction cs)
  case (Cons a cs)
  have "as_udp \<lparr>hint_kind = HINT_UDP, hint_value = candidate_bytes a\<rparr> = Some (wire_form a)"
    using unmap_as_udp [of a] by (simp add: hint_udp_def candidate_bytes_def wire_form_def)
  then show ?case using Cons by simp
qed simp

lemma length_candidates: "length (concat (map candidate_bytes cs)) = 18 * length cs"
  by (induction cs) simp_all

lemma parse_candidates_bytes:
  assumes "length cs \<le> 255"
  shows "parse_candidates (word_of_nat (length cs) # concat (map candidate_bytes cs)) = Some (map wire_form cs)"
proof -
  have "unat (word_of_nat (length cs) :: u8) = length cs"
    using assms by (simp add: unat_of_nat)
  then show ?thesis
    by (simp add: parse_candidates_def length_candidates chunks_concat list_all_iff candidate_chunks_bytes)
qed

lemma control_message_write:
  assumes "0 < length body" "length body \<le> CONTROL_MAX_BYTES" "parse_control body = Some c"
  shows "control_message (to_be (word_of_nat (length body) :: u32) @ body @ rest) = Some (c, rest)"
proof -
  have "unat (word_of_nat (length body) :: u32) = length body"
    using assms(2) by (simp add: unat_of_nat CONTROL_MAX_BYTES_def)
  then show ?thesis
    using assms by (simp add: control_message_def read_exact_def)
qed

lemma candidates_message_read:
  assumes "length cs \<le> 227"
  shows "control_message (candidates_message cs @ rest) = Some (Candidates (map wire_form cs), rest)"
proof -
  let ?body = "[CONTROL_CANDIDATES, word_of_nat (length cs)] @ concat (map candidate_bytes cs)"
  have "parse_control ?body = Some (Candidates (map wire_form cs))"
    using assms by (simp add: parse_control_def parse_candidates_bytes)
  moreover have "0 < length ?body" "length ?body \<le> CONTROL_MAX_BYTES"
    using assms by (simp_all add: length_candidates CONTROL_MAX_BYTES_def)
  ultimately show ?thesis
    using control_message_write [of ?body _ rest] assms
    by (simp add: candidates_message_def Let_def)
qed

lemma punch_now_read: "control_message (punch_now_message @ rest) = Some (PunchNow, rest)"
proof -
  have "to_be (1 :: u32) = [0, 0, 0, 1]"
    using to_be_from_be_word(2) [of "[0, 0, 0, 1]"] by (simp add: from_be_def)
  then show ?thesis
    using control_message_write [of "[CONTROL_PUNCH_NOW]" PunchNow rest]
    by (simp add: punch_now_message_def parse_control_def CONTROL_MAX_BYTES_def CONTROL_PUNCH_NOW_def
        CONTROL_CANDIDATES_def)
qed

text \<open>A longer list, which \<open>candidates_message\<close> writes, is one the reader stops at for good.\<close>

lemma long_candidates_refused:
  assumes "227 < length cs" "length cs \<le> 255"
  shows "control_acceptor (candidates_message cs @ rest) = []"
proof -
  have "unat (word_of_nat (2 + 18 * length cs) :: u32) = 2 + 18 * length cs"
    using assms by (simp only: unat_of_nat) simp
  then have "control_message (candidates_message cs @ rest) = None"
    using assms
    by (simp add: control_message_def candidates_message_def Let_def read_exact_def length_candidates
        CONTROL_MAX_BYTES_def)
  then show ?thesis by (simp add: control_acceptor.simps)
qed

section \<open>Reachable sessions\<close>

text \<open>The edges of the state machine.\<close>

inductive path_edge :: "path_status \<Rightarrow> path_status \<Rightarrow> bool" where
  connected: "path_edge InRendezvous Relayed"
| probe: "path_edge Relayed Probing"
| proved: "st \<in> {Relayed, Probing} \<Longrightarrow> path_edge st Direct"
| fall_back: "st \<in> {Probing, Direct} \<Longrightarrow> path_edge st Relayed"
| relay_lost: "st \<in> {Relayed, Probing, Direct} \<Longrightarrow> path_edge st Reconnecting"
| relay_again: "st \<in> {Relayed, Probing, Direct} \<Longrightarrow> path_edge Reconnecting st"
| fail: "st \<in> {Relayed, Probing, Direct, Reconnecting} \<Longrightarrow> path_edge st (Failed r)"

code_pred path_edge .

inductive_simps path_edge_simps [simp]:
  "path_edge st Relayed" "path_edge st Probing" "path_edge st Direct" "path_edge st Reconnecting"
  "path_edge st (Failed r)"

inductive_cases path_edge_failed: "path_edge (Failed r) st"

text \<open>The states of one session: whatever the path socket, shared with everything else, looks like at each
  step.\<close>

inductive session_reach :: "crypto \<Rightarrow> link_session \<Rightarrow> bool" for cr where
  start: "session_reach cr (fst (session_start ms p ok delay material slot s))"
| drive: "session_reach cr x \<Longrightarrow> session_reach cr (fst (session_step cr ms env ev (x, s)))"
| hear_control: "session_reach cr x \<Longrightarrow> session_reach cr (fst (on_control c (x, s)))"
| send_control: "session_reach cr x \<Longrightarrow> session_reach cr (fst (control_write addrs s x))"
| direct_call: "session_reach cr x \<Longrightarrow> session_reach cr (request_direct x)"
| announce_call: "session_reach cr x \<Longrightarrow> session_reach cr (reannounce x)"
| close_call: "session_reach cr x \<Longrightarrow> session_reach cr (session_close reason x)"
| stream: "session_reach cr x \<Longrightarrow> on_accept_bi i x = Some y \<Longrightarrow> session_reach cr y"
| take_stream: "session_reach cr x \<Longrightarrow> session_reach cr (fst (accept_stream x))"

definition chain_ok :: "path_report list \<Rightarrow> path_report \<Rightarrow> bool" where
  "chain_ok h r \<longleftrightarrow>
     h \<noteq> [] \<and> status (hd h) = InRendezvous \<and> successively (\<lambda>a b. path_edge (status a) (status b)) h \<and>
     length h \<le> HISTORY_CAP \<and> (length h < HISTORY_CAP \<longrightarrow> status (last h) = status r)"

definition stage_ok :: "bool \<Rightarrow> bool \<Rightarrow> path_status \<Rightarrow> path_status \<Rightarrow> nat option \<Rightarrow> bool" where
  "stage_ok active ok st prev ends \<longleftrightarrow>
     (is_failed st \<or> st \<in> {Relayed, Probing, Direct, Reconnecting}) \<and> (is_failed st \<longrightarrow> \<not> active) \<and>
     prev \<in> {Relayed, Probing, Direct} \<and>
     (st = Probing \<or> st = Reconnecting \<and> prev = Probing \<longrightarrow> ends \<noteq> None) \<and>
     (\<not> ok \<longrightarrow> st \<notin> {Probing, Direct} \<and> (st = Reconnecting \<longrightarrow> prev = Relayed))"

definition session_ok :: "link_session \<Rightarrow> bool" where
  "session_ok x \<longleftrightarrow>
     chain_ok (history x) (report x) \<and>
     stage_ok (running x) (allow_direct x) (status (report x)) (before_reconnect x) (probe_round_ends x)"

lemma is_failed_simps [simp]:
  "is_failed (Failed r)" "\<not> is_failed Relayed" "\<not> is_failed Probing" "\<not> is_failed Direct"
  "\<not> is_failed Reconnecting" "\<not> is_failed InRendezvous" "\<not> is_failed Idle"
  by (simp_all add: is_failed_def)

lemma transition_simps [simp]:
  "status (report (transition ms st why s x)) = st"
  "sess_peer (transition ms st why s x) = sess_peer x"
  "running (transition ms st why s x) = running x"
  "allow_direct (transition ms st why s x) = allow_direct x"
  "before_reconnect (transition ms st why s x) = before_reconnect x"
  "probe_round_ends (transition ms st why s x) = probe_round_ends x"
  "session_id (transition ms st why s x) = session_id x"
  "relay_state (transition ms st why s x) = relay_state x"
  "probe_now (transition ms st why s x) = probe_now x"
  "control_tx (transition ms st why s x) = control_tx x"
  by (simp_all add: transition_def Let_def)

lemma chain_transition:
  assumes "chain_ok (history x) (report x)" "status (report x) = st \<or> path_edge (status (report x)) st"
  shows "chain_ok (history (transition ms st why s x)) (report (transition ms st why s x))"
  using assms by (auto simp: chain_ok_def transition_def Let_def successively_append_iff)

lemma session_ok_transition:
  assumes "chain_ok (history x) (report x)" "status (report x) = st \<or> path_edge (status (report x)) st"
    and "stage_ok (running x) (allow_direct x) st (before_reconnect x) (probe_round_ends x)"
  shows "session_ok (transition ms st why s x)"
  using assms chain_transition by (simp add: session_ok_def)

lemma session_ok_fields:
  assumes "session_ok x" "report y = report x" "history y = history x" "running y = running x"
    and "allow_direct y = allow_direct x" "before_reconnect y = before_reconnect x"
    and "probe_round_ends y = probe_round_ends x"
  shows "session_ok y"
  using assms by (simp add: session_ok_def)

lemma session_ok_stop: "session_ok x \<Longrightarrow> session_ok (x\<lparr>running := False\<rparr>)"
  by (simp add: session_ok_def stage_ok_def)

lemma queue_control_simps [simp]:
  "report (queue_control c x) = report x" "history (queue_control c x) = history x"
  "running (queue_control c x) = running x" "allow_direct (queue_control c x) = allow_direct x"
  "before_reconnect (queue_control c x) = before_reconnect x" "sess_peer (queue_control c x) = sess_peer x"
  "probe_round_ends (queue_control c x) = probe_round_ends x" "relay_state (queue_control c x) = relay_state x"
  "session_id (queue_control c x) = session_id x"
  by (simp_all add: queue_control_def)

lemma session_ok_relayed:
  assumes "session_ok x" "status (report x) = Relayed" "allow_direct x"
  shows "session_ok (fst (when_relayed cr ms env (x, s)))"
  using assms
  by (auto simp: when_relayed_def Let_def session_ok_def stage_ok_def intro!: chain_transition)

lemma session_ok_probing:
  assumes "session_ok x" "status (report x) = Probing" "allow_direct x"
  shows "session_ok (fst (when_probing cr ms env (x, s)))"
  using assms
  by (auto simp: when_probing_def Let_def session_ok_def stage_ok_def intro!: chain_transition)

lemma session_ok_direct:
  assumes "session_ok x" "status (report x) = Direct" "allow_direct x"
  shows "session_ok (fst (when_direct cr ms env (x, s)))"
  using assms
  by (auto simp: when_direct_def Let_def session_ok_def stage_ok_def intro!: chain_transition)

lemma take_request_simps [simp]:
  "report (take_request ms x) = report x" "history (take_request ms x) = history x"
  "running (take_request ms x) = running x" "allow_direct (take_request ms x) = allow_direct x"
  "before_reconnect (take_request ms x) = before_reconnect x" "sess_peer (take_request ms x) = sess_peer x"
  "probe_round_ends (take_request ms x) = probe_round_ends x" "session_id (take_request ms x) = session_id x"
  by (simp_all add: take_request_def Let_def)

lemma session_ok_direct_part:
  assumes "session_ok x"
  shows "session_ok (fst (direct_part cr ms env (x, s)))"
proof (cases "allow_direct x")
  case False
  then show ?thesis
    using assms
    by (auto simp: direct_part_def Let_def session_ok_def stage_ok_def intro!: chain_transition)
next
  case True
  have "session_ok (take_request ms x)"
    by (rule session_ok_fields [OF assms]) simp_all
  then show ?thesis
    using True session_ok_relayed session_ok_probing session_ok_direct
    by (simp add: direct_part_def Let_def split: path_status.split)
qed

lemma session_ok_fail:
  assumes "session_ok x" "\<not> is_failed (status (report x))"
  shows "session_ok ((transition ms (Failed r) why s x)\<lparr>running := False\<rparr>)"
proof -
  have "path_edge (status (report x)) (Failed r)"
    using assms by (auto simp: session_ok_def stage_ok_def)
  then show ?thesis
    using assms by (simp add: session_ok_def chain_transition) (simp add: stage_ok_def)
qed

lemma session_ok_lost:
  assumes "session_ok x" "\<not> is_failed (status (report x))" "status (report x) \<noteq> Reconnecting"
  shows "session_ok (transition ms Reconnecting why s
    (x\<lparr>before_reconnect := status (report x), reconnect_since := t\<rparr>))"
  by (rule session_ok_transition) (use assms in \<open>auto simp: session_ok_def stage_ok_def\<close>)

lemma session_ok_again:
  assumes "session_ok x" "status (report x) = Reconnecting"
  shows "session_ok ((transition ms (before_reconnect x) why s x)\<lparr>reconnect_since := None\<rparr>)"
proof -
  have "session_ok (transition ms (before_reconnect x) why s x)"
    by (rule session_ok_transition) (use assms in \<open>auto simp: session_ok_def stage_ok_def\<close>)
  then show ?thesis by (rule session_ok_fields) simp_all
qed

lemma session_ok_relay_part:
  assumes "session_ok x" "\<not> is_failed (status (report x))"
  shows "session_ok (fst (relay_part ms s x))"
  using assms session_ok_fail [OF assms] session_ok_lost [OF assms] session_ok_again [OF assms(1)]
  by (cases "relay_state x") (simp_all add: relay_part_def Let_def)

lemma session_ok_body:
  assumes "session_ok x"
  shows "session_ok (fst (drive_body cr ms env (x, s)))"
proof -
  let ?x = "follow_driver s x"
  have ok: "session_ok ?x"
    by (rule session_ok_fields [OF assms]) (simp_all add: follow_driver_def Let_def)
  show ?thesis
  proof (cases "is_failed (status (report ?x))")
    case True
    then show ?thesis using ok by (simp add: drive_body_def Let_def session_ok_stop)
  next
    case False
    then have "session_ok (fst (relay_part ms s ?x))" by (rule session_ok_relay_part [OF ok])
    then show ?thesis
      using False by (auto simp: drive_body_def Let_def session_ok_direct_part split: prod.splits bool.splits)
  qed
qed

lemma session_ok_end:
  assumes "session_ok x" "running x"
  shows "session_ok (fst (on_superseded ms (x, s)))" "session_ok (fst (on_closed ms why (x, s)))"
proof -
  have live: "\<not> is_failed (status (report x))"
    using assms by (auto simp: session_ok_def stage_ok_def)
  note fail = session_ok_fail [OF assms(1) live]
  have stop: "session_ok ((transition ms (Failed r) t s x)\<lparr>conn_closed := c, close_code := k, running := False\<rparr>)"
    "session_ok ((transition ms (Failed r) t s x)\<lparr>conn_closed := c, running := False\<rparr>)" for r t c k s
    by (rule session_ok_fields [OF fail]; simp)+
  have "session_ok (x\<lparr>conn_closed := True, running := False\<rparr>)"
    by (rule session_ok_fields [OF session_ok_stop [OF assms(1)]]) simp_all
  then show "session_ok (fst (on_closed ms why (x, s)))"
    using stop live by (cases why) (simp_all add: on_closed_def Let_def)
  show "session_ok (fst (on_superseded ms (x, s)))"
    using stop by (simp add: on_superseded_def Let_def)
qed

lemma session_ok_step:
  assumes "session_ok x"
  shows "session_ok (fst (session_step cr ms env ev (x, s)))"
proof (cases "running x")
  case False
  then show ?thesis using assms by (simp add: session_step_def)
next
  case True
  have "session_ok (x\<lparr>relay_state := r\<rparr>)" "session_ok (x\<lparr>reannounce_at := t\<rparr>)"
    "session_ok (x\<lparr>net_alive := b\<rparr>)" for r t b
    by (rule session_ok_fields [OF assms]; simp)+
  then show ?thesis
    using True assms session_ok_end [OF assms True] session_ok_body
    by (cases ev) (simp_all add: session_step_def)
qed

lemma session_reach_ok: "session_reach cr x \<Longrightarrow> session_ok x"
proof (induction rule: session_reach.induct)
  case (start ms p ok delay material slot s)
  show ?case
    unfolding session_start_def Let_def fst_conv
    by (rule session_ok_transition) (simp_all add: stage_ok_def chain_ok_def HISTORY_CAP_def path_edge.connected)
next
  case (drive x ms env ev s)
  then show ?case by (simp add: session_ok_step)
next
  case (stream x i y)
  then show ?case
    by (auto simp: on_accept_bi_def split: if_splits elim!: session_ok_fields)
qed (auto simp: on_control_def control_write_def request_direct_def reannounce_def session_close_def
    accept_stream_def split: control.splits list.splits elim!: session_ok_fields)

section \<open>Announcements\<close>



section \<open>The recorded history\<close>



section \<open>The report follows the socket\<close>

lemma send_ping_kept:
  "proven_direct q (fst (send_ping cr ms n r p a s)) = proven_direct q s"
  "by_synthetic (fst (send_ping cr ms n r p a s)) = by_synthetic s"
  by (auto simp: send_ping_def Let_def proven_direct_def is_relay_only_def set_peer_def udp_send_def
      peer_entry_def peer_default_def split: option.splits)

lemma ping_all_kept:
  "proven_direct q (fst (ping_all cr ms env p as s)) = proven_direct q s"
  "by_synthetic (fst (ping_all cr ms env p as s)) = by_synthetic s"
  by (induction as arbitrary: s) (simp_all add: split_beta Let_def send_ping_kept)

lemma set_peer_kept:
  "direct_proof e = direct_proof (peer_entry p s) \<Longrightarrow> proven_direct q (set_peer p e s) = proven_direct q s"
  "by_synthetic (set_peer p e s) = by_synthetic s"
  by (auto simp: proven_direct_def is_relay_only_def set_peer_def peer_entry_def peer_default_def
      split: option.splits)

lemma prune_learned_kept:
  "proven_direct q (prune_learned ms p s) = proven_direct q s"
  "by_synthetic (prune_learned ms p s) = by_synthetic s"
  by (auto simp: prune_learned_def set_peer_kept peer_entry_def split: option.splits)

lemma send_probes_kept [simp]:
  "proven_direct q (fst (send_probes cr ms env p s)) = proven_direct q s"
  "by_synthetic (fst (send_probes cr ms env p s)) = by_synthetic s"
  by (simp_all add: send_probes_def Let_def ping_all_kept prune_learned_kept set_peer_kept)

lemma drop_direct_kept [simp]:
  "by_synthetic (drop_direct p i s) = by_synthetic s" "udp (drop_direct p i s) = udp s"
  by (simp_all add: drop_direct_def take_direct_def set_peer_def Let_def split: option.splits)

lemma drop_direct_proof: "proven_direct p (drop_direct p i s) \<in> {None, proven_direct p s}"
  by (auto simp: drop_direct_def proven_direct_def is_relay_only_def take_direct_def set_peer_def Let_def
      split: option.splits)

lemma fresh_drop: "fresh ms (proven_direct p (drop_direct p i s)) \<Longrightarrow> fresh ms (proven_direct p s)"
  using drop_direct_proof [of p i s] by (auto simp: fresh_def)

lemma direct_part_follows:
  assumes "allow_direct x" "status (report x) \<in> {Relayed, Probing, Direct}"
    and "direct_part cr ms env (x, s) = (x', s')"
  shows "(status (report x') = Direct \<longleftrightarrow> fresh ms (proven_direct (sess_peer x) s')) \<and>
    by_synthetic s' = by_synthetic s"
  using assms fresh_drop [of ms "sess_peer x" "session_id x" s]
  by (auto simp: direct_part_def when_relayed_def when_probing_def when_direct_def Let_def split: if_splits)

lemma direct_send:
  assumes "by_synthetic s dest = Some p" "length c \<le> MAX_DATAGRAM"
  shows "udp_out (fst (path_try_send cr ms t UdpSent dest c s)) =
    (if fresh ms (proven_direct p s) then udp_out s @ [(proven_addr (the (proven_direct p s)), c)] else udp_out s)"
  using assms
  by (auto simp: path_try_send_def fresh_def Let_def split_beta udp_send_def proven_direct_def is_relay_only_def
      split: option.splits)

lemma relay_part_up:
  assumes "relay_state x = Up u"
  shows "snd (relay_part ms s x)" "sess_peer (fst (relay_part ms s x)) = sess_peer x"
    "allow_direct (fst (relay_part ms s x)) = allow_direct x"
    "probe_round_ends (fst (relay_part ms s x)) = probe_round_ends x"
    "status (report (fst (relay_part ms s x))) =
       (if status (report x) = Reconnecting then before_reconnect x else status (report x))"
  using assms by (simp_all add: relay_part_def)

lemma follow_driver_simps [simp]:
  "report (follow_driver s x) = report x" "sess_peer (follow_driver s x) = sess_peer x"
  "allow_direct (follow_driver s x) = allow_direct x" "before_reconnect (follow_driver s x) = before_reconnect x"
  "probe_round_ends (follow_driver s x) = probe_round_ends x" "history (follow_driver s x) = history x"
  "running (follow_driver s x) = running x"
  by (simp_all add: follow_driver_def Let_def)

lemma tick_up:
  assumes "session_reach cr x" "running x" "relay_state (follow_driver s x) = Up u"
  obtains y where "session_step cr ms env Tick (x, s) = direct_part cr ms env (y, s)"
    "status (report y) \<in> {Relayed, Probing, Direct}" "sess_peer y = sess_peer x"
    "allow_direct y = allow_direct x" "probe_round_ends y = probe_round_ends x"
    "status (report y) = (if status (report x) = Reconnecting then before_reconnect x else status (report x))"
proof -
  have ok: "session_ok (follow_driver s x)" and live: "\<not> is_failed (status (report x))"
    using session_reach_ok [OF assms(1)] assms(2) by (auto simp: session_ok_def stage_ok_def)
  have st: "(if status (report x) = Reconnecting then before_reconnect x else status (report x))
      \<in> {Relayed, Probing, Direct}"
    using ok live by (auto simp: session_ok_def stage_ok_def)
  show ?thesis
    by (rule that [of "fst (relay_part ms s (follow_driver s x))"])
      (use st live assms(2) relay_part_up [OF assms(3)] in
        \<open>auto simp: session_step_def drive_body_def Let_def split_beta split: if_splits\<close>)
qed

text \<open>C17: the report follows the socket. After a pass of the state machine of a session that allows direct
  paths and whose relay is up, the session reports \<open>Direct\<close> exactly when the path socket sends this
  peer's datagrams by UDP at that moment; otherwise they go to a relay.\<close>

theorem report_follows_socket:
  assumes "session_reach cr x" "running x" "allow_direct x" "relay_state (follow_driver s x) = Up u"
    and "session_step cr ms env Tick (x, s) = (x', s')"
    and "by_synthetic s dest = Some (sess_peer x)" "length c \<le> MAX_DATAGRAM"
  shows "udp_out (fst (path_try_send cr ms t UdpSent dest c s')) =
    (if status (report x') = Direct
     then udp_out s' @ [(proven_addr (the (proven_direct (sess_peer x) s')), c)] else udp_out s')"
proof -
  obtain y where y: "session_step cr ms env Tick (x, s) = direct_part cr ms env (y, s)"
      "status (report y) \<in> {Relayed, Probing, Direct}" "sess_peer y = sess_peer x" "allow_direct y"
    using tick_up [OF assms(1,2,4)] assms(3) by metis
  have "(status (report x') = Direct \<longleftrightarrow> fresh ms (proven_direct (sess_peer x) s')) \<and>
      by_synthetic s' = by_synthetic s"
    using direct_part_follows [of y cr ms env s x' s'] y assms(5) by simp
  then show ?thesis
    using direct_send [of s' dest "sess_peer x" c] assms(6,7) by simp
qed


text \<open>A path socket with the home relay up and one peer, with a candidate and, if \<open>pf\<close> says so, a proof.\<close>

definition up_paths :: "proven option \<Rightarrow> paths" where
  "up_paths pf =
     (let pl = pool_spawn (from_seed plain_crypto (mk_arr [1])) [] None
      in (assemble True (socket (V4 1) 5)
            (pl\<lparr>by_id := (\<lambda>i. map_option (\<lambda>d. d\<lparr>relay_status := Up ''r''\<rparr>) (by_id pl i))\<rparr>) None)
         \<lparr>path_peers := [NodeId (mk_arr [2]) \<mapsto>
            peer_default\<lparr>candidates := [socket (V4 9) 7], direct_proof := pf\<rparr>],
          by_synthetic := [socket (V4 8) 8 \<mapsto> NodeId (mk_arr [2])]\<rparr>)"

definition up_session :: "paths \<Rightarrow> link_session" where
  "up_session s = fst (session_start 0 (NodeId (mk_arr [2])) True 0 None 0 s)"

lemma up_paths_relay: "relay_for p (up_paths pf) = 0" "driver_status 0 (up_paths pf) = Up ''r''"
  by (auto simp: up_paths_def relay_for_def driver_status_def pool_driver_def pool_spawn_def assemble_def
      peer_default_def Let_def split: option.splits if_splits)

lemma up_session_simps:
  "session_reach plain_crypto (up_session s)" "running (up_session s)" "allow_direct (up_session s)"
  "status (report (up_session s)) = Relayed" "sess_peer (up_session s) = NodeId (mk_arr [2])"
  "relay_state (follow_driver (up_paths pf) (up_session (up_paths qf))) = Up ''r''"
  by (simp_all add: up_session_def session_reach.start)
    (simp_all add: session_start_def Let_def follow_driver_def up_paths_relay transition_def)

theorem report_follows_socket_witness:
  "let s = up_paths (Some \<lparr>proven_addr = socket (V4 9) 7, proved_at = 0\<rparr>);
       (x', s') = session_step plain_crypto 100 (\<lambda>_. (mk_arr [], UdpSent)) Tick (up_session s, s)
   in udp_out (fst (path_try_send plain_crypto 100 0 UdpSent (socket (V4 8) 8) [1] s')) =
     (if status (report x') = Direct
      then udp_out s' @ [(proven_addr (the (proven_direct (NodeId (mk_arr [2])) s')), [1])] else udp_out s')"
proof -
  let ?s = "up_paths (Some \<lparr>proven_addr = socket (V4 9) 7, proved_at = 0\<rparr>)"
  obtain x' s' where
    step: "session_step plain_crypto 100 (\<lambda>_. (mk_arr [], UdpSent)) Tick (up_session ?s, ?s) = (x', s')"
    by (rule prod.exhaust)
  have "by_synthetic ?s (socket (V4 8) 8) = Some (sess_peer (up_session ?s))"
    by (simp add: up_session_simps) (simp add: up_paths_def Let_def)
  then show ?thesis
    using report_follows_socket [OF up_session_simps(1,2,3,6) step, of "socket (V4 8) 8" "[1]" 0] step
    by (simp add: MAX_DATAGRAM_def up_session_simps)
qed


section \<open>Where the code and its documents differ\<close>

text \<open>A session that fails because its relay failed leaves its probe key and its slot behind: \<open>drive\<close> returns
  without forgetting them, and nothing else handles the end of the connection.\<close>

lemma relay_failure_keeps_key:
  assumes "running x" "\<not> is_failed (status (report x))" "relay_state (follow_driver s x) = RelayFailed"
  shows "snd (session_step cr ms env Tick (x, s)) = s \<and>
    session_step cr ms' env' (ConnClosed why) (session_step cr ms env Tick (x, s)) =
      session_step cr ms env Tick (x, s)"
  using assms by (simp add: session_step_def drive_body_def relay_part_def Let_def)

text \<open>While \<open>Direct\<close>, a proof from another address does not reach the report.\<close>

lemma direct_report_keeps_address:
  assumes "running x" "allow_direct x" "status (report x) = Direct" "relay_state (follow_driver s x) = Up u"
    and "fresh ms (proven_direct (sess_peer x) s)"
  shows "report (fst (session_step cr ms env Tick (x, s))) = report x"
  using assms
  by (simp add: session_step_def drive_body_def relay_part_def direct_part_def when_direct_def Let_def)

text \<open>A session whose owner declined direct paths reports \<open>Relayed\<close> while its datagrams go by UDP, once a probe
  of the peer made this side prove an address.\<close>

lemma declined_session_goes_direct:
  assumes "session_reach cr x" "\<not> allow_direct x" "by_synthetic s dest = Some (sess_peer x)"
    and "length c \<le> MAX_DATAGRAM" "fresh ms (proven_direct (sess_peer x) s)"
  shows "status (report x) \<noteq> Direct \<and>
    udp_out (fst (path_try_send cr ms t UdpSent dest c s)) =
      udp_out s @ [(proven_addr (the (proven_direct (sess_peer x) s)), c)]"
  using session_reach_ok [OF assms(1)] direct_send [OF assms(3,4)] assms(2,5)
  by (auto simp: session_ok_def stage_ok_def)

end
