(* ===== verification/Tls.thy ===== *)
theory Tls
  imports Node_Id
begin

text \<open>
  \<open>link-core/src/tls.rs\<close>: the identity rule of a handshake. What an endpoint presents is the SPKI of its
  node key; the verifiers compare it with the expected node and check the handshake signature. The
  \<open>rustls\<close> function that checks a TLS 1.3 signature under a raw key is a parameter, as is the order
  in which \<open>rustls\<close> calls a verifier: certificate, then signature, with the same bytes.
\<close>

section \<open>Verifiers\<close>

datatype tls_error = BadEncoding | ApplicationVerificationFailure | Tls12NotOffered | BadSignature

type_synonym raw_verify = "bytes \<Rightarrow> bytes \<Rightarrow> bytes \<Rightarrow> tls_error + unit"
  \<comment> \<open>message, SPKI, signature\<close>

definition check_pinned :: "node_id \<Rightarrow> bytes \<Rightarrow> tls_error + node_id" where
  "check_pinned expected presented =
     (case node_id_from_spki presented of
        None \<Rightarrow> Inl BadEncoding
      | Some n \<Rightarrow> if n \<noteq> expected then Inl ApplicationVerificationFailure else Inr n)"

definition check_ed25519_raw_key :: "bytes \<Rightarrow> tls_error + node_id" where
  "check_ed25519_raw_key presented =
     (case node_id_from_spki presented of None \<Rightarrow> Inl BadEncoding | Some n \<Rightarrow> Inr n)"

definition verify_signature :: "raw_verify \<Rightarrow> bytes \<Rightarrow> bytes \<Rightarrow> bytes \<Rightarrow> tls_error + unit" where
  "verify_signature rv message presented dss = rv message presented dss"

datatype verifier =
    PinnedServer node_id
  | PinnedClient node_id
  | ProvisionalClient
  | RefusingClient

definition pinned_server_cert :: "node_id \<Rightarrow> bytes \<Rightarrow> tls_error + unit" where
  "pinned_server_cert expected cert = map_sum id (\<lambda>_. ()) (check_pinned expected cert)"

definition pinned_client_cert :: "node_id \<Rightarrow> bytes \<Rightarrow> tls_error + unit" where
  "pinned_client_cert expected cert = map_sum id (\<lambda>_. ()) (check_pinned expected cert)"

definition provisional_client_cert :: "bytes \<Rightarrow> tls_error + unit" where
  "provisional_client_cert cert = map_sum id (\<lambda>_. ()) (check_ed25519_raw_key cert)"

definition refusing_client_cert :: "bytes \<Rightarrow> tls_error + unit" where
  "refusing_client_cert cert = Inl ApplicationVerificationFailure"

fun verify_cert :: "verifier \<Rightarrow> bytes \<Rightarrow> tls_error + unit" where
  "verify_cert (PinnedServer n) cert = pinned_server_cert n cert"
| "verify_cert (PinnedClient n) cert = pinned_client_cert n cert"
| "verify_cert ProvisionalClient cert = provisional_client_cert cert"
| "verify_cert RefusingClient cert = refusing_client_cert cert"

definition verify_tls12_signature :: "verifier \<Rightarrow> bytes \<Rightarrow> bytes \<Rightarrow> bytes \<Rightarrow> tls_error + unit" where
  "verify_tls12_signature v message cert dss = Inl Tls12NotOffered"

definition pinned_tls13 :: "raw_verify \<Rightarrow> node_id \<Rightarrow> bytes \<Rightarrow> bytes \<Rightarrow> bytes \<Rightarrow> tls_error + unit" where
  "pinned_tls13 rv expected message cert dss =
     (case check_pinned expected cert of Inl e \<Rightarrow> Inl e | Inr _ \<Rightarrow> verify_signature rv message cert dss)"

definition provisional_tls13 :: "raw_verify \<Rightarrow> bytes \<Rightarrow> bytes \<Rightarrow> bytes \<Rightarrow> tls_error + unit" where
  "provisional_tls13 rv message cert dss =
     (case check_ed25519_raw_key cert of Inl e \<Rightarrow> Inl e | Inr _ \<Rightarrow> verify_signature rv message cert dss)"

fun verify_tls13_signature :: "raw_verify \<Rightarrow> verifier \<Rightarrow> bytes \<Rightarrow> bytes \<Rightarrow> bytes \<Rightarrow> tls_error + unit" where
  "verify_tls13_signature rv (PinnedServer n) message cert dss = pinned_tls13 rv n message cert dss"
| "verify_tls13_signature rv (PinnedClient n) message cert dss = pinned_tls13 rv n message cert dss"
| "verify_tls13_signature rv ProvisionalClient message cert dss = provisional_tls13 rv message cert dss"
| "verify_tls13_signature rv RefusingClient message cert dss = Inl ApplicationVerificationFailure"

text \<open>\<open>client_auth_mandatory\<close>, and for a server its certificate: an empty list is refused.\<close>

definition handshake :: "raw_verify \<Rightarrow> verifier \<Rightarrow> bytes list \<Rightarrow> bytes \<Rightarrow> bytes \<Rightarrow> tls_error + bytes" where
  "handshake rv v chain message dss =
     (case chain of
        [] \<Rightarrow> Inl BadEncoding
      | cert # _ \<Rightarrow>
          (case verify_cert v cert of
             Inl e \<Rightarrow> Inl e
           | Inr _ \<Rightarrow>
               (case verify_tls13_signature rv v message cert dss of Inl e \<Rightarrow> Inl e | Inr _ \<Rightarrow> Inr cert)))"

text \<open>\<open>node_identity\<close>: the chain an endpoint presents and the key beside it.\<close>

definition node_identity :: "transport_key \<Rightarrow> bytes list \<times> 48 arr" where
  "node_identity key = ([bytes_of (spki_der (key_node_id key))], pkcs8_der key)"

text \<open>RFC 8446 and the \<open>rustls\<close> documentation: a handshake signature made with a node's key verifies under
  its raw public key.\<close>

definition raw_key_correct :: "crypto \<Rightarrow> raw_verify \<Rightarrow> bool" where
  "raw_key_correct cr rv \<longleftrightarrow>
     (\<forall>s m. rv m (bytes_of (spki_der (NodeId (ed_public cr s)))) (bytes_of (ed_sign cr s m)) = Inr ())"

definition plain_raw_verify :: raw_verify where
  "plain_raw_verify m spki sig =
     (if sig = bytes_of (ed_sign plain_crypto (mk_arr (drop 12 spki)) m) then Inr () else Inl BadSignature)"

lemma plain_raw_verify_correct: "raw_key_correct plain_crypto plain_raw_verify"
  by (simp add: raw_key_correct_def plain_raw_verify_def plain_crypto_def bytes_of_spki_der SPKI_ED25519_PREFIX_def)

section \<open>The contract of a verifier\<close>

text \<open>What every verifier promises: it accepts the SPKI of the nodes it trusts and no other bytes, and checks
  the signature under exactly that key.\<close>

locale identity_rule =
  fixes rv :: raw_verify
    and v :: verifier
    and trusts :: "node_id \<Rightarrow> bool"
  assumes cert_iff: "verify_cert v cert = Inr () \<longleftrightarrow> (\<exists>n. trusts n \<and> cert = bytes_of (spki_der n))"
    and signature_iff: "trusts n \<Longrightarrow>
      verify_tls13_signature rv v message (bytes_of (spki_der n)) dss = rv message (bytes_of (spki_der n)) dss"
begin

lemma accepts_iff:
  "handshake rv v chain message dss = Inr cert \<longleftrightarrow>
     (\<exists>n rest. trusts n \<and> chain = cert # rest \<and> cert = bytes_of (spki_der n) \<and> rv message cert dss = Inr ())"
proof (cases chain)
  case Nil
  then show ?thesis by (simp add: handshake_def)
next
  case (Cons c rest)
  show ?thesis
  proof (cases "\<exists>n. trusts n \<and> c = bytes_of (spki_der n)")
    case True
    then obtain n where n: "trusts n" "c = bytes_of (spki_der n)" by blast
    then have "verify_cert v c = Inr ()" using cert_iff by blast
    then have h: "handshake rv v chain message dss = (case rv message c dss of Inl e \<Rightarrow> Inl e | Inr _ \<Rightarrow> Inr c)"
      using Cons signature_iff [OF n(1), of message dss] unfolding n(2) by (simp add: handshake_def)
    have "(\<exists>m rest'. trusts m \<and> chain = cert # rest' \<and> cert = bytes_of (spki_der m) \<and> rv message cert dss = Inr ()) \<longleftrightarrow>
        cert = c \<and> rv message c dss = Inr ()"
      using Cons n by blast
    moreover have "handshake rv v chain message dss = Inr cert \<longleftrightarrow> cert = c \<and> rv message c dss = Inr ()"
      unfolding h by (cases "rv message c dss") auto
    ultimately show ?thesis by blast
  next
    case False
    then have "verify_cert v c \<noteq> Inr ()" using cert_iff by blast
    then have "handshake rv v chain message dss \<noteq> Inr cert"
      unfolding handshake_def Cons by (cases "verify_cert v c") simp_all
    then show ?thesis using Cons False by blast
  qed
qed

lemma accepted_node: "handshake rv v chain message dss = Inr cert \<Longrightarrow> \<exists>n. trusts n \<and> node_id_from_spki cert = Some n"
  by (auto simp: accepts_iff spki.dec_enc)

end

lemma check_pinned_Inr: "check_pinned expected cert = Inr n \<longleftrightarrow> n = expected \<and> cert = bytes_of (spki_der n)"
proof -
  have "check_pinned expected cert = Inr n \<longleftrightarrow> n = expected \<and> node_id_from_spki cert = Some n"
    by (auto simp: check_pinned_def split: option.splits)
  then show ?thesis by (simp add: spki.dec_iff)
qed

lemma check_raw_Inr: "check_ed25519_raw_key cert = Inr n \<longleftrightarrow> cert = bytes_of (spki_der n)"
proof -
  have "check_ed25519_raw_key cert = Inr n \<longleftrightarrow> node_id_from_spki cert = Some n"
    by (auto simp: check_ed25519_raw_key_def split: option.splits)
  then show ?thesis by (simp add: spki.dec_iff)
qed

lemma map_sum_Inr_unit: "map_sum id (\<lambda>_. ()) r = Inr () \<longleftrightarrow> (\<exists>a. r = Inr a)"
  by (cases r) auto

interpretation pinned_server: identity_rule rv "PinnedServer n" "\<lambda>m. m = n" for rv n
proof
  show "verify_cert (PinnedServer n) cert = Inr () \<longleftrightarrow> (\<exists>m. m = n \<and> cert = bytes_of (spki_der m))" for cert
    by (simp add: pinned_server_cert_def map_sum_Inr_unit check_pinned_Inr)
qed (simp add: pinned_tls13_def verify_signature_def check_pinned_def spki.dec_enc)

interpretation pinned_client: identity_rule rv "PinnedClient n" "\<lambda>m. m = n" for rv n
proof
  show "verify_cert (PinnedClient n) cert = Inr () \<longleftrightarrow> (\<exists>m. m = n \<and> cert = bytes_of (spki_der m))" for cert
    by (simp add: pinned_client_cert_def map_sum_Inr_unit check_pinned_Inr)
qed (simp add: pinned_tls13_def verify_signature_def check_pinned_def spki.dec_enc)

interpretation provisional: identity_rule rv ProvisionalClient "\<lambda>_. True" for rv
proof
  show "verify_cert ProvisionalClient cert = Inr () \<longleftrightarrow> (\<exists>m. True \<and> cert = bytes_of (spki_der m))" for cert
    by (simp add: provisional_client_cert_def map_sum_Inr_unit check_raw_Inr)
qed (simp add: provisional_tls13_def verify_signature_def check_ed25519_raw_key_def spki.dec_enc)

interpretation refusing: identity_rule rv RefusingClient "\<lambda>_. False" for rv
  by standard (simp_all add: refusing_client_cert_def)

text \<open>C4: a handshake proves the node. A pinned verifier accepts exactly when the peer's first entry is the SPKI
  of the expected node, byte for byte, and the handshake signature verifies under that key; the
  provisional one accepts any Ed25519 raw key with its signature, and the refusing one nothing. The
  identity an endpoint presents, with a signature by its key, is accepted wherever it is expected.\<close>

theorem handshake_proves_node:
  assumes "raw_key_correct cr rv"
  shows "(handshake rv (PinnedServer n) chain message dss = Inr cert \<longleftrightarrow>
      (\<exists>rest. chain = cert # rest) \<and> cert = bytes_of (spki_der n) \<and> rv message cert dss = Inr ()) \<and>
    (handshake rv (PinnedClient n) chain message dss = Inr cert \<longleftrightarrow>
      (\<exists>rest. chain = cert # rest) \<and> cert = bytes_of (spki_der n) \<and> rv message cert dss = Inr ()) \<and>
    (handshake rv ProvisionalClient chain message dss = Inr cert \<longleftrightarrow>
      (\<exists>rest. chain = cert # rest) \<and> (\<exists>m. cert = bytes_of (spki_der m)) \<and> rv message cert dss = Inr ()) \<and>
    handshake rv RefusingClient chain message dss \<noteq> Inr cert \<and>
    (\<forall>k\<in>{PinnedServer, PinnedClient}.
       handshake rv (k (key_node_id (from_seed cr s))) (fst (node_identity (from_seed cr s))) message
         (bytes_of (key_sign cr (from_seed cr s) message)) =
       Inr (bytes_of (spki_der (key_node_id (from_seed cr s)))))"
proof -
  let ?n = "key_node_id (from_seed cr s)"
  have "rv message (bytes_of (spki_der ?n)) (bytes_of (key_sign cr (from_seed cr s) message)) = Inr ()"
    using assms by (simp add: raw_key_correct_def from_seed_def key_sign_def)
  then have own: "\<forall>k\<in>{PinnedServer, PinnedClient}.
       handshake rv (k ?n) (fst (node_identity (from_seed cr s))) message
         (bytes_of (key_sign cr (from_seed cr s) message)) = Inr (bytes_of (spki_der ?n))"
    by (simp add: pinned_server.accepts_iff pinned_client.accepts_iff node_identity_def)
  have pinned:
    "handshake rv (PinnedServer n) chain message dss = Inr cert \<longleftrightarrow>
      (\<exists>rest. chain = cert # rest) \<and> cert = bytes_of (spki_der n) \<and> rv message cert dss = Inr ()"
    "handshake rv (PinnedClient n) chain message dss = Inr cert \<longleftrightarrow>
      (\<exists>rest. chain = cert # rest) \<and> cert = bytes_of (spki_der n) \<and> rv message cert dss = Inr ()"
    unfolding pinned_server.accepts_iff pinned_client.accepts_iff by blast+
  have other:
    "handshake rv ProvisionalClient chain message dss = Inr cert \<longleftrightarrow>
      (\<exists>rest. chain = cert # rest) \<and> (\<exists>m. cert = bytes_of (spki_der m)) \<and> rv message cert dss = Inr ()"
    "handshake rv RefusingClient chain message dss \<noteq> Inr cert"
    unfolding provisional.accepts_iff refusing.accepts_iff by blast+
  show ?thesis by (intro conjI pinned other own)
qed

theorem handshake_proves_node_witness:
  "handshake plain_raw_verify (PinnedServer (NodeId (mk_arr [5])))
     (fst (node_identity (from_seed plain_crypto (mk_arr [5])))) [1, 2]
     (bytes_of (key_sign plain_crypto (from_seed plain_crypto (mk_arr [5])) [1, 2])) =
   Inr (bytes_of (spki_der (NodeId (mk_arr [5]))))"
proof -
  have "key_node_id (from_seed plain_crypto (mk_arr [5])) = NodeId (mk_arr [5])"
    by (simp add: from_seed_def plain_crypto_def)
  then show ?thesis
    using handshake_proves_node [OF plain_raw_verify_correct, where s = "mk_arr [5]", THEN conjunct2,
        THEN conjunct2, THEN conjunct2, THEN conjunct2, of "[1, 2]"]
    by simp
qed

end
