(* ===== verification/Endpoint.thy ===== *)
theory Endpoint
  imports Session Tls
begin

text \<open>
  \<open>link-endpoint/src/endpoint.rs\<close>: opening an endpoint, its cards, dialling and accepting sessions, and the
  bounded first-contact (pairing) sessions. The path socket, and in its relay pool the tag book, are
  the state; \<open>quinn\<close> is a parameter: the outcome of a dial or of an inbound handshake is an argument,
  and so is what other tasks did to the path socket while an operation waited (\<open>meanwhile\<close>).
\<close>

section \<open>Configuration\<close>

definition MAX_PAIRING_LIFETIME :: nat where "MAX_PAIRING_LIFETIME = 600"
definition MAX_PAIRING_SESSION_LIFETIME :: nat where "MAX_PAIRING_SESSION_LIFETIME = 60000"

text \<open>The QUIC transport parameters, with times in milliseconds.\<close>

definition MAX_MTU :: nat where "MAX_MTU = 1350"
definition STREAM_RECEIVE_WINDOW :: nat where "STREAM_RECEIVE_WINDOW = 2 ^ 20"
definition CONNECTION_RECEIVE_WINDOW :: nat where "CONNECTION_RECEIVE_WINDOW = 4 * 2 ^ 20"

record quic_transport =
  initial_mtu :: nat
  min_mtu :: nat
  mtu_discovery :: bool
  max_bidi_streams :: nat
  max_uni_streams :: nat
  stream_window :: nat
  receive_window :: nat
  send_window :: nat
  keep_alive :: nat
  idle_timeout :: nat

definition transport_config_with :: "nat \<Rightarrow> nat \<Rightarrow> quic_transport" where
  "transport_config_with streams idle =
     \<lparr>initial_mtu = MAX_MTU, min_mtu = MAX_MTU, mtu_discovery = False, max_bidi_streams = streams,
      max_uni_streams = 0, stream_window = STREAM_RECEIVE_WINDOW, receive_window = CONNECTION_RECEIVE_WINDOW,
      send_window = CONNECTION_RECEIVE_WINDOW, keep_alive = 3000, idle_timeout = idle\<rparr>"

definition transport_config :: quic_transport where
  "transport_config = transport_config_with 16 30000"

definition pairing_transport_config :: quic_transport where
  "pairing_transport_config = transport_config_with 2 30000"

record endpoint_config =
  cfg_key :: transport_key
  serial_seed :: "u64 option"
  cfg_relays :: "relay_spec list"
  cfg_allow_direct :: bool
  cfg_bind :: socket_addr
  cfg_reflector :: "socket_addr option"
  net_poll :: nat
  probe_delay :: nat
  rendezvous_timeout :: nat
  cfg_rendezvous :: "(node_id \<times> rendezvous_peer) list option"
  cfg_paired_routes :: "(node_id \<times> 32 arr) list option"

definition endpoint_config_new :: "bool \<Rightarrow> transport_key \<Rightarrow> endpoint_config" where
  "endpoint_config_new browser key =
     \<lparr>cfg_key = key, serial_seed = None, cfg_relays = [], cfg_allow_direct = \<not> browser,
      cfg_bind = socket (V4 0) 0, cfg_reflector = None, net_poll = (if browser then 0 else 5000),
      probe_delay = 0, rendezvous_timeout = 30000, cfg_rendezvous = None, cfg_paired_routes = None\<rparr>"

record endpoint =
  ep_key :: transport_key
  ep_paths :: paths
  ep_config :: endpoint_config
  ep_serial :: u64
  ep_book_id :: nat

text \<open>The book, if the endpoint runs tag mode, is the one its relay pool shares.\<close>

definition ep_book :: "endpoint \<Rightarrow> tag_book option" where
  "ep_book ep = shared (relay_pool (ep_paths ep))"

definition set_book :: "tag_book \<Rightarrow> paths \<Rightarrow> paths" where
  "set_book b s = s\<lparr>relay_pool := (relay_pool s)\<lparr>shared := Some b\<rparr>\<rparr>"

text \<open>The loop over the relays: the first that a browser cannot use.\<close>

fun browser_relays :: "relay_spec list \<Rightarrow> string option" where
  "browser_relays [] = None"
| "browser_relays (r # rs) = (case browser_url r of Inl e \<Rightarrow> Some e | Inr _ \<Rightarrow> browser_relays rs)"

definition browser_config_check :: "endpoint_config \<Rightarrow> string + unit" where
  "browser_config_check c =
     (if cfg_allow_direct c then Inl ''a browser endpoint is relay-only; allow_direct must be false''
      else if cfg_reflector c \<noteq> None then Inl ''a browser endpoint is relay-only; it has no reflector''
      else case browser_relays (cfg_relays c) of Some e \<Rightarrow> Inl e | None \<Rightarrow> Inr ())"

text \<open>\<open>open\<close>; \<open>bound\<close> is the address the UDP socket got, or the error of binding it.\<close>

definition endpoint_open ::
  "bool \<Rightarrow> nat \<Rightarrow> u64 \<Rightarrow> string + socket_addr \<Rightarrow> 16 arr \<Rightarrow> udp_result \<Rightarrow> endpoint_config \<Rightarrow> string + endpoint" where
  "endpoint_open browser book_id wall_clock bound nonce r c =
     (if serial_seed c = Some (- 1) then Inl ''card serial seed is exhausted''
      else
        let b = (if cfg_rendezvous c \<noteq> None \<or> cfg_paired_routes c \<noteq> None
                 then Some (with_paired (case_option [] id (cfg_rendezvous c)) (case_option [] id (cfg_paired_routes c)))
                 else None);
            pl = pool_spawn (cfg_key c) (cfg_relays c) b;
            built = (if browser
                     then (case browser_config_check c of
                             Inl e \<Rightarrow> Inl e | Inr _ \<Rightarrow> Inr (assemble False (cfg_bind c) pl None))
                     else (case bound of
                             Inl e \<Rightarrow> Inl e | Inr addr \<Rightarrow> Inr (assemble True addr pl (cfg_reflector c))))
        in case built of
             Inl e \<Rightarrow> Inl e
           | Inr s \<Rightarrow>
               let s = (case cfg_reflector c of Some a \<Rightarrow> query_reflector nonce r a s | None \<Rightarrow> s)
               in Inr \<lparr>ep_key = cfg_key c, ep_paths = s, ep_config = c,
                       ep_serial = max (case_option 0 id (serial_seed c)) wall_clock, ep_book_id = book_id\<rparr>)"

section \<open>Cards\<close>

definition clamp_ttl :: "u64 \<Rightarrow> u64" where
  "clamp_ttl ttl = min (max ttl 1) MAX_LIFETIME_SECONDS"

definition card_hints :: "ip_addr list \<Rightarrow> hint list \<Rightarrow> endpoint \<Rightarrow> hint list" where
  "card_hints addrs more_hints ep =
     (let own = map (\<lambda>r. hint_relay (spec_url r)) (cfg_relays (ep_config ep)) @
                (if cfg_allow_direct (ep_config ep) then map hint_udp (local_candidates addrs (ep_paths ep)) else []);
          kept = take MAX_HINTS more_hints
      in take (MAX_HINTS - length kept) own @ kept)"

definition endpoint_card ::
  "crypto \<Rightarrow> u64 \<Rightarrow> ip_addr list \<Rightarrow> u64 \<Rightarrow> hint list \<Rightarrow> endpoint \<Rightarrow> card \<times> endpoint" where
  "endpoint_card cr t addrs ttl more_hints ep =
     (let ser = max (saturating_add (ep_serial ep) 1) t
      in (card_sign cr (ep_key ep) t (t + clamp_ttl ttl) ser (card_hints addrs more_hints ep),
          ep\<lparr>ep_serial := ser\<rparr>))"

section \<open>Dialling\<close>

datatype conn_error = ConnTimedOut | ConnTransport nat | ConnOther string

definition classify :: "conn_error \<Rightarrow> fail_reason" where
  "classify e =
     (case e of
        ConnTimedOut \<Rightarrow> FailTimeout
      | ConnTransport code \<Rightarrow> if 0x100 \<le> code \<and> code \<le> 0x1ff then FailIdentity else FailRelay
      | ConnOther _ \<Rightarrow> FailRelay)"

text \<open>A completed connection: the certificate list of the peer and the three exporter results.\<close>

record conn =
  peer_identity :: "bytes list"
  probe_material :: "(32 arr \<times> 8 arr) option"
  pairing_material :: "16 arr option"
  paired_material :: "32 arr option"

definition presented_node_id :: "conn \<Rightarrow> node_id option" where
  "presented_node_id c = (case peer_identity c of [] \<Rightarrow> None | spki # _ \<Rightarrow> node_id_from_spki spki)"

text \<open>What a dial meets: the wait for the relay, whether the TLS configuration is built and the dial
  starts, and the handshake under a given verifier.\<close>

record dial =
  waited :: "string option option"
  relay_after :: relay_status
  configured :: bool
  started :: bool
  handshaken :: "verifier \<Rightarrow> conn_error + conn"
  meanwhile :: "paths \<Rightarrow> paths"

definition rendezvous :: "relay_status \<Rightarrow> dial \<Rightarrow> fail_reason + string" where
  "rendezvous st d =
     (case st of
        Up u \<Rightarrow> Inr u
      | RelaySuperseded \<Rightarrow> Inl FailSuperseded
      | RelayFailed \<Rightarrow> Inl FailRelay
      | _ \<Rightarrow>
          (case waited d of
             None \<Rightarrow> Inl FailTimeout
           | Some (Some u) \<Rightarrow> Inr u
           | Some None \<Rightarrow> Inl (if relay_after d = RelaySuperseded then FailSuperseded else FailRelay)))"

type_synonym 'a dialled = "(fail_reason + 'a) \<times> endpoint"

definition with_paths :: "endpoint \<Rightarrow> paths \<Rightarrow> endpoint" where
  "with_paths ep s = ep\<lparr>ep_paths := s\<rparr>"

text \<open>From the rendezvous to the completed connection, for the slot \<open>i\<close> of \<open>p\<close>.\<close>

definition dial_peer :: "node_id \<Rightarrow> nat \<Rightarrow> nat \<Rightarrow> dial \<Rightarrow> paths \<Rightarrow> (fail_reason + conn) \<times> paths" where
  "dial_peer p i drv d s =
     (case rendezvous (driver_status drv s) d of
        Inl reason \<Rightarrow> (Inl reason, end_session p i (meanwhile d s))
      | Inr _ \<Rightarrow>
          let s = meanwhile d s
          in if \<not> configured d then (Inl FailIdentity, s)
             else if \<not> started d then (Inl FailRelay, end_session p i s)
             else case handshaken d (PinnedServer p) of
                    Inl e \<Rightarrow> (Inl (classify e), end_session p i s)
                  | Inr c \<Rightarrow> (Inr c, s))"

definition endpoint_connect :: "crypto \<Rightarrow> nat \<Rightarrow> card \<Rightarrow> dial \<Rightarrow> endpoint \<Rightarrow> link_session dialled" where
  "endpoint_connect cr ms cd d ep =
     (let p = card_node_id cd
      in if p = key_node_id (ep_key ep) then (Inl FailIdentity, ep)
         else if (case ep_book ep of Some b \<Rightarrow> \<not> book_contains p b | None \<Rightarrow> False) then (Inl FailRendezvous, ep)
         else
           let (s, i) = begin_session p (register_peer cr p (ep_paths ep));
               (s, drv) = set_peer_relays p (map spec_plain (relay_urls cd)) s
           in case dial_peer p i drv d s of
                (Inl reason, s) \<Rightarrow> (Inl reason, with_paths ep s)
              | (Inr c, s) \<Rightarrow>
                  let (x, s) = session_start ms p (cfg_allow_direct (ep_config ep)) (probe_delay (ep_config ep))
                                 (probe_material c) i s
                  in (Inr x, with_paths ep s))"

section \<open>First contact\<close>

datatype pairing_error = PairingLifetime | TagModeRequired | RouteExport

record registration =
  reg_route :: node_id
  reg_expires_at :: u64
  reg_book :: nat

text \<open>\<open>register_pairing_secret\<close>, with the lifetime in milliseconds; \<open>None\<close> asks for more route draws.\<close>

definition register_pairing_secret ::
  "node_id list \<Rightarrow> u64 \<Rightarrow> 16 arr \<Rightarrow> nat \<Rightarrow> endpoint \<Rightarrow> (pairing_error + registration \<times> endpoint) option" where
  "register_pairing_secret draws t secret lifetime ep =
     (if lifetime < 1000 \<or> lifetime > MAX_PAIRING_LIFETIME * 1000 then Some (Inl PairingLifetime)
      else case ep_book ep of
             None \<Rightarrow> Some (Inl TagModeRequired)
           | Some b \<Rightarrow>
               let expires = saturating_add t (word_of_nat (lifetime div 1000))
               in map_option (\<lambda>(route, b).
                    Inr (\<lparr>reg_route = route, reg_expires_at = expires, reg_book = ep_book_id ep\<rparr>,
                         with_paths ep (set_book b (ep_paths ep))))
                    (register_pairing draws secret expires b))"

text \<open>The end of a registration: its handle is dropped, or its lifetime has passed.\<close>

definition end_registration :: "registration \<Rightarrow> endpoint \<Rightarrow> endpoint" where
  "end_registration reg ep =
     (case ep_book ep of
        None \<Rightarrow> ep
      | Some b \<Rightarrow> with_paths ep (set_book (fst (remove_pairing (reg_route reg) b)) (ep_paths ep)))"

definition promote_pairing_route ::
  "u64 \<Rightarrow> u64 \<Rightarrow> node_id \<Rightarrow> conn \<Rightarrow> tag_book \<Rightarrow> tag_book \<times> (fail_reason + u64)" where
  "promote_pairing_route t gen route c b =
     (case pairing_material c of
        None \<Rightarrow> (b, Inl FailRelay)
      | Some secret \<Rightarrow>
          (case promote_pairing route secret gen t b of
             (b, False) \<Rightarrow> (b, Inl FailRendezvous)
           | (b, True) \<Rightarrow> (b, Inr gen)))"

record pairing_session =
  pairing_link :: link_session
  stream_used :: bool
  pairing_route_id :: node_id
  pairing_gen :: u64

definition take_application_stream :: "pairing_session \<Rightarrow> pairing_session \<times> bool" where
  "take_application_stream ps = (ps\<lparr>stream_used := True\<rparr>, \<not> stream_used ps)"

definition paired_route_secret :: "conn \<Rightarrow> pairing_error + 32 arr" where
  "paired_route_secret c = (case paired_material c of Some k \<Rightarrow> Inr k | None \<Rightarrow> Inl RouteExport)"

text \<open>The two tasks of \<open>PairingSession::new\<close>: the hard lifetime, and forgetting the live route.\<close>

definition pairing_lifetime_over :: "pairing_session \<Rightarrow> pairing_session" where
  "pairing_lifetime_over ps = ps\<lparr>pairing_link := session_close 3 (pairing_link ps)\<rparr>"

definition pairing_ended :: "pairing_session \<Rightarrow> endpoint \<Rightarrow> endpoint" where
  "pairing_ended ps ep =
     (case ep_book ep of
        None \<Rightarrow> ep
      | Some b \<Rightarrow>
          with_paths ep (set_book (fst (remove_live_pairing (pairing_route_id ps) (pairing_gen ps) b)) (ep_paths ep)))"

definition pairing_session_new :: "link_session \<Rightarrow> node_id \<Rightarrow> u64 \<Rightarrow> pairing_session" where
  "pairing_session_new x route gen =
     \<lparr>pairing_link = x, stream_used = False, pairing_route_id = route, pairing_gen = gen\<rparr>"

text \<open>Promote the route on the path socket's own book and start the relay-only session in slot \<open>i\<close>.\<close>

definition finish_pairing ::
  "nat \<Rightarrow> u64 \<Rightarrow> u64 \<Rightarrow> node_id \<Rightarrow> node_id \<Rightarrow> nat \<Rightarrow> conn \<Rightarrow> paths \<Rightarrow> (fail_reason + pairing_session) \<times> paths" where
  "finish_pairing ms t gen route p i c s =
     (case shared (relay_pool s) of
        None \<Rightarrow> (Inl FailRendezvous, end_session p i s)
      | Some b \<Rightarrow>
          (case promote_pairing_route t gen route c b of
             (b, Inl reason) \<Rightarrow> (Inl reason, end_session p i (set_book b s))
           | (b, Inr g) \<Rightarrow>
               let (x, s) = session_start ms p False 0 (probe_material c) i (set_book b s)
               in (Inr (pairing_session_new x route g), s)))"

definition connect_pairing ::
  "crypto \<Rightarrow> nat \<Rightarrow> u64 \<Rightarrow> u64 \<Rightarrow> card \<Rightarrow> registration \<Rightarrow> dial \<Rightarrow> endpoint \<Rightarrow> pairing_session dialled" where
  "connect_pairing cr ms t gen cd reg d ep =
     (let p = card_node_id cd; route = reg_route reg; own = key_node_id (ep_key ep)
      in if p = own then (Inl FailIdentity, ep)
         else case ep_book ep of
                None \<Rightarrow> (Inl FailRendezvous, ep)
              | Some b \<Rightarrow>
                  if reg_book reg \<noteq> ep_book_id ep then (Inl FailRendezvous, ep)
                  else
                    let (b, active) = is_active route (reg_expires_at reg) t b;
                        ep = with_paths ep (set_book b (ep_paths ep))
                    in if \<not> active \<or> route = own then (Inl FailRendezvous, ep)
                       else
                         let s = register_peer cr p (register_peer cr route (ep_paths ep));
                             (s, i) = begin_session p s;
                             (s, drv) = set_peer_relays route (map spec_plain (relay_urls cd)) s;
                             s = copy_relay_route route p s
                         in case dial_peer p i drv d s of
                              (Inl reason, s) \<Rightarrow> (Inl reason, with_paths ep s)
                            | (Inr c, s) \<Rightarrow>
                                let (r, s) = finish_pairing ms t gen route p i c s
                                in (r, with_paths ep s))"

section \<open>Accepting\<close>

text \<open>The verifier \<open>server_config\<close> chooses.\<close>

definition server_verifier :: "node_id option \<Rightarrow> verifier" where
  "server_verifier expected = (case expected of Some p \<Rightarrow> PinnedClient p | None \<Rightarrow> ProvisionalClient)"

record inbound =
  in_ms :: nat
  in_now :: u64
  in_gen :: u64
  in_remote :: socket_addr
  in_configured :: bool
  in_accepted :: bool
  in_handshaken :: "verifier \<Rightarrow> conn_error + conn"
  in_meanwhile :: "paths \<Rightarrow> paths"

datatype accepted = Again | Refused fail_reason | Pinned link_session | Pairing pairing_session

text \<open>The end of an iteration whose connection completed, for a pairing route and for an ordinary one.\<close>

definition accept_pairing :: "crypto \<Rightarrow> inbound \<Rightarrow> node_id \<Rightarrow> node_id \<Rightarrow> conn \<Rightarrow> endpoint \<Rightarrow> accepted \<times> endpoint" where
  "accept_pairing cr inc route presented c ep =
     (if presented = key_node_id (ep_key ep) then (Again, ep)
      else case ep_book ep of
             None \<Rightarrow> (Again, ep)
           | Some b \<Rightarrow>
               (case promote_pairing_route (in_now inc) (in_gen inc) route c b of
                  (b, Inl _) \<Rightarrow> (Again, with_paths ep (set_book b (ep_paths ep)))
                | (b, Inr g) \<Rightarrow>
                    let s = copy_relay_route route presented (register_peer cr presented (set_book b (ep_paths ep)));
                        (s, i) = begin_session presented s;
                        (x, s) = session_start (in_ms inc) presented False 0 (probe_material c) i s
                    in (Pairing (pairing_session_new x route g), with_paths ep s)))"

definition accept_ordinary :: "inbound \<Rightarrow> node_id \<Rightarrow> nat \<Rightarrow> node_id \<Rightarrow> conn \<Rightarrow> endpoint \<Rightarrow> accepted \<times> endpoint" where
  "accept_ordinary inc route i presented c ep =
     (if presented \<noteq> route then (Refused FailIdentity, with_paths ep (end_session route i (ep_paths ep)))
      else
        let (x, s) = session_start (in_ms inc) route (cfg_allow_direct (ep_config ep)) (probe_delay (ep_config ep))
                       (probe_material c) i (ep_paths ep)
        in (Pinned x, with_paths ep s))"

text \<open>Give the slot of an ordinary route back.\<close>

definition release_slot :: "node_id \<Rightarrow> nat option \<Rightarrow> endpoint \<Rightarrow> endpoint" where
  "release_slot route slot ep =
     (case slot of Some i \<Rightarrow> with_paths ep (end_session route i (ep_paths ep)) | None \<Rightarrow> ep)"

text \<open>One iteration of \<open>accept_any\<close>.\<close>

definition accept_one :: "crypto \<Rightarrow> inbound \<Rightarrow> endpoint \<Rightarrow> accepted \<times> endpoint" where
  "accept_one cr inc ep =
     (case by_synthetic (ep_paths ep) (in_remote inc) of
        None \<Rightarrow> (Again, ep)
      | Some route \<Rightarrow>
          let (s, pairs) = (case ep_book ep of
                              None \<Rightarrow> (ep_paths ep, False)
                            | Some b \<Rightarrow>
                                let (b, active) = pairing_active route (in_now inc) b
                                in (set_book b (ep_paths ep), active));
              (s, slot) = (if pairs then (s, None) else let (s, i) = begin_session route s in (s, Some i));
              ep = with_paths ep s
          in if \<not> in_configured inc then (Refused FailIdentity, ep)
             else
               let ep = with_paths ep (in_meanwhile inc (ep_paths ep))
               in if \<not> in_accepted inc then (Again, release_slot route slot ep)
                  else case in_handshaken inc (server_verifier (if pairs then None else Some route)) of
                         Inl _ \<Rightarrow> (Again, release_slot route slot ep)
                       | Inr c \<Rightarrow>
                           (case presented_node_id c of
                              None \<Rightarrow> (Again, release_slot route slot ep)
                            | Some presented \<Rightarrow>
                                (case slot of
                                   None \<Rightarrow> accept_pairing cr inc route presented c ep
                                 | Some i \<Rightarrow> accept_ordinary inc route i presented c ep)))"

text \<open>The loops, over the connections that arrive; \<open>quinn\<close> gives none once the endpoint is closed.\<close>

fun accept_any :: "crypto \<Rightarrow> inbound list \<Rightarrow> endpoint \<Rightarrow> accepted \<times> endpoint" where
  "accept_any cr [] ep = (Refused FailRelay, ep)"
| "accept_any cr (inc # incs) ep =
     (case accept_one cr inc ep of (Again, ep) \<Rightarrow> accept_any cr incs ep | r \<Rightarrow> r)"

fun endpoint_accept :: "crypto \<Rightarrow> inbound list \<Rightarrow> endpoint \<Rightarrow> link_session dialled" where
  "endpoint_accept cr [] ep = (Inl FailRelay, ep)"
| "endpoint_accept cr (inc # incs) ep =
     (case accept_one cr inc ep of
        (Again, ep) \<Rightarrow> endpoint_accept cr incs ep
      | (Pairing ps, ep) \<Rightarrow> endpoint_accept cr incs ep
      | (Refused reason, ep) \<Rightarrow> (Inl reason, ep)
      | (Pinned x, ep) \<Rightarrow> (Inr x, ep))"

definition endpoint_close :: "endpoint \<Rightarrow> endpoint" where
  "endpoint_close ep = with_paths ep ((ep_paths ep)\<lparr>relay_pool := pool_close (relay_pool (ep_paths ep))\<rparr>)"

section \<open>Packets fit the relay\<close>

lemma quic_packets_fit_relay_frames:
  assumes "1 \<le> length d" "length d \<le> initial_mtu (transport_config_with streams idle)"
  shows "frame_decode (frame_encode (Send n d)) = Some (Send n d)"
    and "frame_decode (frame_encode (SendTag t d)) = Some (SendTag t d)"
  using assms by (simp_all add: frame_decode_encode transport_config_with_def MAX_MTU_def MAX_DATAGRAM_def
      del: frame_encode.simps)

section \<open>Cards are fresh\<close>

lemma with_paths_simps [simp]:
  "ep_paths (with_paths ep s) = s" "ep_key (with_paths ep s) = ep_key ep"
  "ep_config (with_paths ep s) = ep_config ep" "ep_serial (with_paths ep s) = ep_serial ep"
  "ep_book_id (with_paths ep s) = ep_book_id ep"
  by (simp_all add: with_paths_def)

lemma clamp_ttl_bounds: "1 \<le> unat (clamp_ttl ttl)" "unat (clamp_ttl ttl) \<le> 604800"
  by (auto simp: clamp_ttl_def MAX_LIFETIME_SECONDS_def min_def max_def word_le_nat_alt)

lemma serial_increases: "a < - 1 \<Longrightarrow> a < max (saturating_add a 1) t"
proof -
  assume "a < - 1"
  then have "unat a + 1 < 2 ^ 64"
    by (simp add: word_less_nat_alt unsigned_minus_1_eq_mask mask_eq_exp_minus_1)
  then have "unat (saturating_add a 1) = unat a + 1"
    by (simp add: unat_saturating_add)
  then have "a < saturating_add a 1" by (simp add: word_less_nat_alt)
  then show ?thesis by (simp add: less_max_iff_disj)
qed

lemma card_hints_extra: "length xs \<le> MAX_HINTS \<Longrightarrow> \<exists>own. card_hints addrs xs ep = own @ xs"
  by (simp add: card_hints_def Let_def)

lemma length_card_hints: "length (card_hints addrs xs ep) \<le> MAX_HINTS"
  by (simp add: card_hints_def Let_def)

text \<open>C38: every card supersedes the one before. A card an endpoint makes verifies, for a peer that expects
  this node and has accepted every earlier card, provided the hints are well formed and fit; its serial
  becomes the endpoint's high-water mark; it has at most sixteen hints and the caller's extra ones are
  all among them.\<close>

theorem endpoint_card_verifies:
  assumes "ed25519_correct cr" "ep_key ep = from_seed cr sd" "ep_serial ep < - 1"
    and "unat t + 604800 < 2 ^ 64" "hints_wf cr (card_hints addrs xs ep)"
    and "62 + sum_list (map encoded_len (card_hints addrs xs ep)) + 64 \<le> 4096"
    and "endpoint_card cr t addrs ttl xs ep = (c, ep')"
  shows "card_verify cr (raw c)
      (after_serial (expecting (verify_context_new t) (key_node_id (ep_key ep))) (ep_serial ep)) = Inr c \<and>
    ep_serial ep' = serial c \<and> ep_serial ep < serial c \<and> length (hints c) \<le> 16 \<and>
    (length xs \<le> 16 \<longrightarrow> (\<exists>own. hints c = own @ xs))"
proof -
  let ?ser = "max (saturating_add (ep_serial ep) 1) t"
  have c: "c = card_sign cr (from_seed cr sd) t (t + clamp_ttl ttl) ?ser (card_hints addrs xs ep)"
    and ep': "ep_serial ep' = ?ser"
    using assms(2,7) by (auto simp: endpoint_card_def Let_def)
  have less: "ep_serial ep < ?ser" using assms(3) by (rule serial_increases)
  have e: "unat (t + clamp_ttl ttl) = unat t + unat (clamp_ttl ttl)"
    using assms(4) clamp_ttl_bounds(2) [of ttl] by (simp add: unat_add_lem [THEN iffD1])
  let ?ctx = "after_serial (expecting (verify_context_new t) (key_node_id (ep_key ep))) (ep_serial ep)"
  have "times_ok ?ctx t (t + clamp_ttl ttl)"
    using e clamp_ttl_bounds [of ttl]
    by (simp add: times_ok_def after_serial_def expecting_def verify_context_new_def word_less_nat_alt)
  then have "card_verify cr (raw c) ?ctx = Inr c"
    unfolding c using assms(1,2,5,6) less
    by (intro card_verify_complete card_ok_signed)
      (simp_all add: after_serial_def expecting_def verify_context_new_def)
  moreover have "serial c = ?ser" "hints c = card_hints addrs xs ep"
    by (simp_all add: c card_sign_def Let_def)
  ultimately show ?thesis
    using less ep' card_hints_extra [of xs addrs ep] length_card_hints [of addrs xs ep]
    by (simp add: MAX_HINTS_def)
qed

theorem endpoint_card_verifies_witness:
  "let key = from_seed plain_crypto (mk_arr [7]);
       ep = \<lparr>ep_key = key, ep_paths = assemble False (socket (V4 0) 0) (pool_spawn key [] None) None,
             ep_config = endpoint_config_new True key, ep_serial = 5, ep_book_id = 0\<rparr>;
       (c, ep') = endpoint_card plain_crypto 1000 [] 3600 [hint_relay ''wss://r''] ep
   in card_verify plain_crypto (raw c)
        (after_serial (expecting (verify_context_new 1000) (key_node_id key)) 5) = Inr c"
proof -
  let ?key = "from_seed plain_crypto (mk_arr [7])"
  let ?ep = "\<lparr>ep_key = ?key, ep_paths = assemble False (socket (V4 0) 0) (pool_spawn ?key [] None) None,
      ep_config = endpoint_config_new True ?key, ep_serial = 5, ep_book_id = 0\<rparr>"
  obtain c ep' where c: "endpoint_card plain_crypto 1000 [] 3600 [hint_relay ''wss://r''] ?ep = (c, ep')"
    by (rule prod.exhaust)
  have h: "card_hints [] [hint_relay ''wss://r''] ?ep = [hint_relay ''wss://r'']"
    by (simp add: card_hints_def endpoint_config_new_def MAX_HINTS_def)
  have "card_verify plain_crypto (raw c)
      (after_serial (expecting (verify_context_new 1000) (key_node_id ?key)) 5) = Inr c"
    using endpoint_card_verifies [OF plain_crypto_ed25519 _ _ _ _ _ c, of "mk_arr [7]"]
    unfolding h by (simp add: hints_wf_def hint_wf_def hint_error_def hint_relay_def hint_consts card_consts
        encoded_len_def as_bytes_def)
  then show ?thesis using c by simp
qed

section \<open>Sessions\<close>

lemma session_start_facts:
  assumes "session_start ms p ok delay material slot s = (x, s')"
  shows "sess_peer x = p" "allow_direct x = ok" "session_id x = slot" "status (report x) = Relayed"
    "session_reach cr x"
  using assms session_reach.start [of cr ms p ok delay material slot s]
  by (auto simp: session_start_def Let_def)

text \<open>What \<open>quinn\<close> promises of a completed connection: \<open>rustls\<close> accepted the peer's certificate list under
  the verifier it was given.\<close>

definition handshakes_verified :: "raw_verify \<Rightarrow> (verifier \<Rightarrow> conn_error + conn) \<Rightarrow> bool" where
  "handshakes_verified rv h \<longleftrightarrow>
     (\<forall>v c. h v = Inr c \<longrightarrow> (\<exists>m dss cert. handshake rv v (peer_identity c) m dss = Inr cert))"

text \<open>The peer signed a handshake with the key of \<open>p\<close>.\<close>

definition signed_by :: "raw_verify \<Rightarrow> node_id \<Rightarrow> bool" where
  "signed_by rv p \<longleftrightarrow> (\<exists>m dss. rv m (bytes_of (spki_der p)) dss = Inr ())"

lemma pinned_handshake_signed:
  assumes "handshakes_verified rv h" "h v = Inr c" "v \<in> {PinnedServer p, PinnedClient p}"
  shows "signed_by rv p"
proof -
  obtain m dss cert where "handshake rv v (peer_identity c) m dss = Inr cert"
    using assms(1,2) unfolding handshakes_verified_def by blast
  then have "cert = bytes_of (spki_der p) \<and> rv m cert dss = Inr ()"
    using assms(3) by (auto simp: pinned_server.accepts_iff pinned_client.accepts_iff)
  then show ?thesis unfolding signed_by_def by blast
qed

lemma provisional_handshake_signed:
  assumes "handshakes_verified rv h" "h ProvisionalClient = Inr c" "presented_node_id c = Some p"
  shows "signed_by rv p"
proof -
  obtain m dss cert where "handshake rv ProvisionalClient (peer_identity c) m dss = Inr cert"
    using assms(1,2) unfolding handshakes_verified_def by blast
  then obtain n rest where n: "peer_identity c = cert # rest" "cert = bytes_of (spki_der n)" "rv m cert dss = Inr ()"
    unfolding provisional.accepts_iff by blast
  have "n = p" using assms(3) n(1,2) by (simp add: presented_node_id_def spki.dec_enc)
  then show ?thesis using n(2,3) unfolding signed_by_def by blast
qed

subsection \<open>Dialling\<close>

lemma end_session_frees: "live_sessions (end_session p i s) p \<noteq> Some i"
  by (simp add: end_session_def)

lemma dial_peer_fails:
  assumes "dial_peer p i drv d s = (Inl reason, s')" "configured d"
  shows "live_sessions s' p \<noteq> Some i"
  using assms by (auto simp: dial_peer_def Let_def end_session_frees split: sum.splits if_splits)

lemma dial_peer_connects:
  assumes "dial_peer p i drv d s = (Inr c, s')" "handshakes_verified rv (handshaken d)"
  shows "signed_by rv p"
proof -
  have "handshaken d (PinnedServer p) = Inr c"
    using assms(1) by (auto simp: dial_peer_def Let_def split: sum.splits if_splits)
  then show ?thesis using pinned_handshake_signed [OF assms(2)] by blast
qed

lemma register_begin_session:
  "snd (begin_session p (register_peer cr q s)) = next_session s"
  using quiet_ops_view(1) [of cr q s] by (simp add: begin_session_simps)

text \<open>C6: dialling ends in a session with the right peer or in nothing. After a successful dial the session is
  with the node of the card, on the relay, in a slot taken for it, and that node signed the
  handshake. After any failure that comes after the TLS configuration was built, or before the slot
  was taken, the slot is free, whatever other tasks did in between.\<close>

theorem connect_session_or_nothing:
  assumes "sessions_ok (ep_paths ep)" "handshakes_verified rv (handshaken d)" "configured d"
    and "endpoint_connect cr ms cd d ep = (r, ep')"
  shows "case r of
      Inl reason \<Rightarrow> live_sessions (ep_paths ep') (card_node_id cd) \<noteq> Some (next_session (ep_paths ep))
    | Inr x \<Rightarrow> sess_peer x = card_node_id cd \<and> session_id x = next_session (ep_paths ep) \<and>
        status (report x) = Relayed \<and> session_reach cr x \<and> signed_by rv (card_node_id cd)"
proof -
  let ?p = "card_node_id cd" and ?i = "next_session (ep_paths ep)"
  have free: "live_sessions (ep_paths ep) ?p \<noteq> Some ?i"
    using assms(1) by (auto simp: sessions_ok_def)
  obtain s where s: "begin_session ?p (register_peer cr ?p (ep_paths ep)) = (s, ?i)"
    using register_begin_session [of ?p cr ?p "ep_paths ep"] by (metis prod.collapse)
  obtain s2 drv where s2: "set_peer_relays ?p (map spec_plain (relay_urls cd)) s = (s2, drv)"
    by (rule prod.exhaust)
  obtain q s3 where q: "dial_peer ?p ?i drv d s2 = (q, s3)" by (rule prod.exhaust)
  consider (early) "ep' = ep" "\<exists>e. r = Inl e"
    | (failed) e where "q = Inl e" "r = Inl e" "ep' = with_paths ep s3"
    | (opened) c x s4 where "q = Inr c" "r = Inr x"
        "session_start ms ?p (cfg_allow_direct (ep_config ep)) (probe_delay (ep_config ep)) (probe_material c) ?i s3 = (x, s4)"
    using assms(4) s s2 q
    by (auto simp: endpoint_connect_def Let_def split: if_splits sum.splits prod.splits)
  then show ?thesis
  proof cases
    case early
    then show ?thesis using free by auto
  next
    case failed
    then show ?thesis using dial_peer_fails [of ?p ?i drv d s2 e s3] q assms(3) by simp
  next
    case opened
    then show ?thesis
      using session_start_facts [OF opened(3)] dial_peer_connects [OF _ assms(2)] q by auto
  qed
qed

text \<open>A dial whose TLS configuration cannot be built keeps the slot it took.\<close>

lemma unconfigured_dial_keeps_slot:
  assumes "\<not> configured d" "rendezvous (driver_status drv s) d = Inr u" "meanwhile d = id" "live_sessions s p = Some i"
  shows "dial_peer p i drv d s = (Inl FailIdentity, s) \<and> live_sessions s p = Some i"
  using assms by (simp add: dial_peer_def)

text \<open>A connection whose peer presents the node made from seed 2 and signs with its key.\<close>

definition honest_conn :: conn where
  "honest_conn = \<lparr>peer_identity = fst (node_identity (from_seed plain_crypto (mk_arr [2]))),
     probe_material = None, pairing_material = Some (mk_arr [9]), paired_material = None\<rparr>"

definition honest_handshake :: "verifier \<Rightarrow> conn_error + conn" where
  "honest_handshake v =
     (if v \<in> {PinnedServer (NodeId (mk_arr [2])), PinnedClient (NodeId (mk_arr [2])), ProvisionalClient}
      then Inr honest_conn else Inl ConnTimedOut)"

lemma honest_handshake_verified: "handshakes_verified plain_raw_verify honest_handshake"
proof -
  let ?key = "from_seed plain_crypto (mk_arr [2])"
  have k: "key_node_id ?key = NodeId (mk_arr [2])" by (simp add: from_seed_def plain_crypto_def)
  have "plain_raw_verify [] (bytes_of (spki_der (key_node_id ?key))) (bytes_of (key_sign plain_crypto ?key [])) = Inr ()"
    using plain_raw_verify_correct by (simp add: raw_key_correct_def from_seed_def key_sign_def)
  then have "handshake plain_raw_verify v (peer_identity honest_conn) [] (bytes_of (key_sign plain_crypto ?key [])) =
      Inr (bytes_of (spki_der (NodeId (mk_arr [2]))))"
    if "v \<in> {PinnedServer (NodeId (mk_arr [2])), PinnedClient (NodeId (mk_arr [2])), ProvisionalClient}" for v
    using that k
    by (auto simp: pinned_server.accepts_iff pinned_client.accepts_iff provisional.accepts_iff honest_conn_def
        node_identity_def)
  then show ?thesis
    by (auto simp: handshakes_verified_def honest_handshake_def split: if_splits)
qed

definition up_endpoint :: endpoint where
  "up_endpoint =
     (let key = from_seed plain_crypto (mk_arr [1])
      in \<lparr>ep_key = key, ep_paths = up_paths None, ep_config = endpoint_config_new False key, ep_serial = 5,
          ep_book_id = 0\<rparr>)"

lemma up_endpoint_sessions: "sessions_ok (ep_paths up_endpoint)"
  by (simp add: up_endpoint_def up_paths_def assemble_def sessions_ok_def Let_def)

theorem connect_session_or_nothing_witness:
  "let cd = card_sign plain_crypto (from_seed plain_crypto (mk_arr [2])) 0 10 1 [];
       d = \<lparr>waited = None, relay_after = RelayFailed, configured = True, started = True,
            handshaken = honest_handshake, meanwhile = id\<rparr>
   in case fst (endpoint_connect plain_crypto 0 cd d up_endpoint) of
        Inl reason \<Rightarrow> live_sessions (ep_paths (snd (endpoint_connect plain_crypto 0 cd d up_endpoint)))
          (card_node_id cd) \<noteq> Some (next_session (ep_paths up_endpoint))
      | Inr x \<Rightarrow> sess_peer x = card_node_id cd \<and> session_id x = next_session (ep_paths up_endpoint) \<and>
          status (report x) = Relayed \<and> session_reach plain_crypto x \<and>
          signed_by plain_raw_verify (card_node_id cd)"
  unfolding Let_def
  by (rule connect_session_or_nothing [OF up_endpoint_sessions _ _ surjective_pairing [of "endpoint_connect _ _ _ _ _"]])
    (simp_all add: honest_handshake_verified)

subsection \<open>Accepting\<close>

lemma accept_ordinary_pinned:
  assumes "accept_ordinary inc route i presented c ep = (Pinned x, ep')"
  shows "presented = route \<and> sess_peer x = route \<and> status (report x) = Relayed \<and> session_reach cr x"
  using assms session_start_facts
  by (auto simp: accept_ordinary_def Let_def split: if_splits prod.splits)

lemma accept_pairing_pairs:
  assumes "accept_pairing cr inc route presented c ep = (Pairing ps, ep')"
  shows "presented \<noteq> key_node_id (ep_key ep) \<and> sess_peer (pairing_link ps) = presented \<and>
    \<not> allow_direct (pairing_link ps) \<and> \<not> stream_used ps \<and> session_reach cr (pairing_link ps)"
  using assms session_start_facts
  by (auto simp: accept_pairing_def pairing_session_new_def Let_def
      split: if_splits option.splits prod.splits sum.splits)

lemma accept_only:
  "accept_ordinary inc route i presented c ep \<noteq> (Pairing ps, ep')"
  "accept_pairing cr inc route presented c ep \<noteq> (Pinned x, ep')"
  by (auto simp: accept_ordinary_def accept_pairing_def Let_def split: if_splits option.splits prod.splits sum.splits)

text \<open>How an iteration that returns a session got it.\<close>

lemma accept_one_cases:
  assumes "accept_one cr inc ep = (r, ep')"
  obtains (no_session) "r = Again \<or> (\<exists>e. r = Refused e)"
  | (ordinary) route i c presented ep0 where
      "in_handshaken inc (PinnedClient route) = Inr c" "presented_node_id c = Some presented"
      "accept_ordinary inc route i presented c ep0 = (r, ep')" "ep_key ep0 = ep_key ep"
  | (pairing) route c presented ep0 where
      "in_handshaken inc ProvisionalClient = Inr c" "presented_node_id c = Some presented"
      "accept_pairing cr inc route presented c ep0 = (r, ep')" "ep_key ep0 = ep_key ep"
  using assms
  by (auto simp: accept_one_def Let_def server_verifier_def
      split: option.splits prod.splits sum.splits if_splits)

lemma accept_one_key: "ep_key (snd (accept_one cr inc ep)) = ep_key ep"
  by (auto simp: accept_one_def accept_ordinary_def accept_pairing_def release_slot_def Let_def
      split: option.splits prod.splits sum.splits)

text \<open>What an accepted session is worth.\<close>

definition accepted_ok :: "crypto \<Rightarrow> raw_verify \<Rightarrow> node_id \<Rightarrow> accepted \<Rightarrow> bool" where
  "accepted_ok cr rv own r =
     (case r of
        Pinned x \<Rightarrow> signed_by rv (sess_peer x) \<and> status (report x) = Relayed \<and> session_reach cr x
      | Pairing ps \<Rightarrow> signed_by rv (sess_peer (pairing_link ps)) \<and> sess_peer (pairing_link ps) \<noteq> own \<and>
          \<not> allow_direct (pairing_link ps) \<and> \<not> stream_used ps \<and> session_reach cr (pairing_link ps)
      | _ \<Rightarrow> True)"

lemma accept_one_ok:
  assumes "handshakes_verified rv (in_handshaken inc)" "accept_one cr inc ep = (r, ep')"
  shows "accepted_ok cr rv (key_node_id (ep_key ep)) r"
  using assms(2)
proof (cases rule: accept_one_cases)
  case no_session
  then show ?thesis by (auto simp: accepted_ok_def)
next
  case (ordinary route i c presented ep0)
  have "signed_by rv route" using pinned_handshake_signed [OF assms(1) ordinary(1)] by blast
  then show ?thesis
    using accept_ordinary_pinned [of inc route i presented c ep0 _ ep' cr] accept_only(1) ordinary(3)
    by (auto simp: accepted_ok_def split: accepted.split)
next
  case (pairing route c presented ep0)
  have "signed_by rv presented" by (rule provisional_handshake_signed [OF assms(1) pairing(1,2)])
  then show ?thesis
    using accept_pairing_pairs [of cr inc route presented c ep0 _ ep'] accept_only(2) pairing(3,4)
    by (auto simp: accepted_ok_def split: accepted.split)
qed

text \<open>C5: an accepted session is with a peer that signed for it. Whatever connections arrive, a session
  \<open>accept_any\<close> returns as ordinary is with a node whose key signed its handshake; one it returns as
  pairing likewise, is not with this node itself, may not go direct and has its one application stream
  unused. \<open>accept\<close> returns only the ordinary kind.\<close>

theorem accepted_peers_signed:
  assumes "\<forall>inc\<in>set incs. handshakes_verified rv (in_handshaken inc)"
  shows "accepted_ok cr rv (key_node_id (ep_key ep)) (fst (accept_any cr incs ep)) \<and>
    (case fst (endpoint_accept cr incs ep) of
       Inr x \<Rightarrow> signed_by rv (sess_peer x) \<and> status (report x) = Relayed \<and> session_reach cr x
     | Inl _ \<Rightarrow> True)"
  using assms
proof (induction incs arbitrary: ep)
  case Nil
  then show ?case by (simp add: accepted_ok_def)
next
  case (Cons inc incs)
  obtain r ep' where r: "accept_one cr inc ep = (r, ep')" by (rule prod.exhaust)
  have ok: "accepted_ok cr rv (key_node_id (ep_key ep)) r"
    by (rule accept_one_ok [OF _ r]) (use Cons.prems in simp)
  have "ep_key ep' = ep_key ep" using accept_one_key [of cr inc ep] r by simp
  then show ?case
    using Cons.IH [of ep'] Cons.prems r ok by (cases r) (auto simp: accepted_ok_def)
qed

theorem accepted_peers_signed_witness:
  "let inc = \<lparr>in_ms = 0, in_now = 0, in_gen = 0, in_remote = socket (V4 8) 8, in_configured = True,
              in_accepted = True, in_handshaken = honest_handshake, in_meanwhile = id\<rparr>
   in accepted_ok plain_crypto plain_raw_verify (key_node_id (ep_key up_endpoint))
        (fst (accept_any plain_crypto [inc] up_endpoint)) \<and>
      (\<exists>x. fst (accept_any plain_crypto [inc] up_endpoint) = Pinned x)"
proof -
  let ?inc = "\<lparr>in_ms = 0, in_now = 0, in_gen = 0, in_remote = socket (V4 8) 8, in_configured = True,
      in_accepted = True, in_handshaken = honest_handshake, in_meanwhile = id\<rparr>"
  have "accepted_ok plain_crypto plain_raw_verify (key_node_id (ep_key up_endpoint))
      (fst (accept_any plain_crypto [?inc] up_endpoint))"
    using accepted_peers_signed [of "[?inc]" plain_raw_verify plain_crypto up_endpoint]
    by (simp add: honest_handshake_verified)
  moreover have "by_synthetic (ep_paths up_endpoint) (socket (V4 8) 8) = Some (NodeId (mk_arr [2]))"
      "ep_book up_endpoint = None"
    by (simp_all add: up_endpoint_def up_paths_def ep_book_def pool_spawn_def assemble_def Let_def)
  moreover have "presented_node_id honest_conn = Some (NodeId (mk_arr [2]))"
    by (simp add: presented_node_id_def honest_conn_def node_identity_def from_seed_def plain_crypto_def spki.dec_enc)
  ultimately show ?thesis
    by (simp add: accept_one_def accept_ordinary_def server_verifier_def honest_handshake_def Let_def split_beta)
qed

end
