(* ===== verification/Blossom.thy ===== *)
theory Blossom
  imports Wire Path_Status Streams
begin

text \<open>
  \<open>link-blossom\<close>: the FSLB request and response formats (\<open>wire.rs\<close>), the serving side
  (\<open>server.rs\<close>, \<open>source.rs\<close>) and the fetching side (\<open>client.rs\<close>). Request and response
  header are instances of the interface \<open>prefix_codec\<close>. The error enumeration and the parsed
  URL are the types of \<open>shelter_kit\<close> and \<open>url\<close> the code names; an error keeps the fixed part of its
  message.
\<close>

section \<open>Wire format\<close>

definition REQUEST_MAGIC :: bytes where "REQUEST_MAGIC = as_bytes ''FSLB''"
definition PROTOCOL_VERSION :: u8 where "PROTOCOL_VERSION = 0x01"
definition REQUEST_LEN :: nat where "REQUEST_LEN = 37"
definition MAX_CONTENT_TYPE :: nat where "MAX_CONTENT_TYPE = 255"
definition STATUS_OK :: u8 where "STATUS_OK = 0x00"
definition STATUS_NOT_FOUND :: u8 where "STATUS_NOT_FOUND = 0x01"
definition STATUS_ERROR :: u8 where "STATUS_ERROR = 0x02"
definition STATUS_UNSUPPORTED_VERSION :: u8 where "STATUS_UNSUPPORTED_VERSION = 0x03"
definition CHUNK :: nat where "CHUNK = 64 * 1024"

lemmas fslb_consts = REQUEST_MAGIC_def PROTOCOL_VERSION_def REQUEST_LEN_def MAX_CONTENT_TYPE_def
  STATUS_OK_def STATUS_NOT_FOUND_def STATUS_ERROR_def STATUS_UNSUPPORTED_VERSION_def

datatype wire_error =
    Short nat nat \<comment> \<open>needed, had\<close>
  | BadMagic
  | BadVersion u8
  | BadStatus u8
  | ContentTypeTooLong u16
  | BadContentType

record request = req_sha256 :: "32 arr"

definition request_new :: "32 arr \<Rightarrow> request" where
  "request_new d = \<lparr>req_sha256 = d\<rparr>"

definition request_encode :: "request \<Rightarrow> 37 arr" where
  "request_encode self = mk_arr (REQUEST_MAGIC @ [PROTOCOL_VERSION] @ bytes_of (req_sha256 self))"

definition request_decode :: "bytes \<Rightarrow> wire_error + request" where
  "request_decode b =
     (if length b < REQUEST_LEN then Inl (Short REQUEST_LEN (length b))
      else if take 4 b \<noteq> REQUEST_MAGIC then Inl BadMagic
      else if b ! 4 \<noteq> PROTOCOL_VERSION then Inl (BadVersion (b ! 4))
      else Inr \<lparr>req_sha256 = mk_arr (slice b 5 REQUEST_LEN)\<rparr>)"

datatype response_header =
    Ok u64 "string option" \<comment> \<open>size, content type\<close>
  | NotFound
  | Error
  | UnsupportedVersion

fun response_encode :: "response_header \<Rightarrow> bytes" where
  "response_encode (Ok sz content_type) =
     (let content_type = as_bytes (case content_type of
            Some text \<Rightarrow> if length text \<le> MAX_CONTENT_TYPE then text else ''''
          | None \<Rightarrow> '''')
      in [STATUS_OK] @ to_be sz @ to_be (word_of_nat (length content_type) :: u16) @ content_type)"
| "response_encode NotFound = [STATUS_NOT_FOUND]"
| "response_encode Error = [STATUS_ERROR]"
| "response_encode UnsupportedVersion = [STATUS_UNSUPPORTED_VERSION]"

definition decode_ok :: "bytes \<Rightarrow> wire_error + response_header \<times> nat" where
  "decode_ok b =
     (let fixed = 1 + 8 + 2
      in if length b < fixed then Inl (Short fixed (length b))
         else
           let size = from_be (slice b 1 9);
               content_len = (from_be [b ! 9, b ! 10] :: u16)
           in if unat content_len > MAX_CONTENT_TYPE then Inl (ContentTypeTooLong content_len)
              else
                let stop = fixed + unat content_len
                in if length b < stop then Inl (Short stop (length b))
                   else if content_len = 0 then Inr (Ok size None, stop)
                   else case from_utf8 (slice b fixed stop) of
                          None \<Rightarrow> Inl BadContentType
                        | Some text \<Rightarrow> Inr (Ok size (Some text), stop))"

definition response_decode :: "bytes \<Rightarrow> wire_error + response_header \<times> nat" where
  "response_decode b =
     (case b of
        [] \<Rightarrow> Inl (Short 1 0)
      | st # _ \<Rightarrow>
          if st = STATUS_OK then decode_ok b
          else if st = STATUS_NOT_FOUND then Inr (NotFound, 1)
          else if st = STATUS_ERROR then Inr (Error, 1)
          else if st = STATUS_UNSUPPORTED_VERSION then Inr (UnsupportedVersion, 1)
          else Inl (BadStatus st))"

text \<open>A header within the format: a content type, when there is one, is text of 1 to 255 bytes.\<close>

fun header_ok :: "response_header \<Rightarrow> bool" where
  "header_ok (Ok _ (Some text)) \<longleftrightarrow> is_str text \<and> text \<noteq> '''' \<and> length text \<le> MAX_CONTENT_TYPE"
| "header_ok _ \<longleftrightarrow> True"

section \<open>The serving side\<close>

record blob_bytes =
  blob_size :: u64
  blob_type :: "string option"
  blob_body :: "(string + bytes) list" \<comment> \<open>the stream's items, an \<open>io::Error\<close> as its text\<close>

text \<open>The inner loop over \<open>chunk.chunks(CHUNK)\<close> and the outer loop over the body's items.\<close>

fun send_parts :: "u64 \<Rightarrow> bytes list \<Rightarrow> nat \<Rightarrow> send_stream \<Rightarrow> (string + nat) \<times> send_stream" where
  "send_parts sz [] sent s = (Inr sent, s)"
| "send_parts sz (part # parts) sent s =
     (let sent = sent + length part
      in if sent > unat sz then (Inl ''blob source produced more than the declared bytes'', s)
         else case write_all part s of
                (Inl e, s) \<Rightarrow> (Inl e, s)
              | (Inr _, s) \<Rightarrow> send_parts sz parts sent s)"

fun send_body :: "u64 \<Rightarrow> (string + bytes) list \<Rightarrow> nat \<Rightarrow> send_stream \<Rightarrow> (string + nat) \<times> send_stream" where
  "send_body sz [] sent s = (Inr sent, s)"
| "send_body sz (Inl e # _) sent s = (Inl e, s)"
| "send_body sz (Inr chunk # body) sent s =
     (case send_parts sz (chunks CHUNK chunk) sent s of
        (Inl e, s) \<Rightarrow> (Inl e, s)
      | (Inr sent, s) \<Rightarrow> send_body sz body sent s)"

definition send_blob :: "blob_bytes \<Rightarrow> send_stream \<Rightarrow> (string + unit) \<times> send_stream" where
  "send_blob blob s =
     (let size = blob_size blob
      in case write_all (response_encode (Ok size (blob_type blob))) s of
           (Inl e, s) \<Rightarrow> (Inl e, s)
         | (Inr _, s) \<Rightarrow>
             (case send_body size (blob_body blob) 0 s of
                (Inl e, s) \<Rightarrow> (Inl e, s)
              | (Inr sent, s) \<Rightarrow>
                  if sent \<noteq> unat size then (Inl ''blob source produced fewer bytes than declared'', s)
                  else (Inr (), finish s)))"

text \<open>\<open>serve_stream\<close>; the store is the argument \<open>source\<close>.\<close>

definition write_status :: "response_header \<Rightarrow> send_stream \<Rightarrow> (string + unit) \<times> send_stream" where
  "write_status header s =
     (case write_all (response_encode header) s of
        (Inl e, s) \<Rightarrow> (Inl e, s)
      | (Inr _, s) \<Rightarrow> (Inr (), finish s))"

definition serve_stream ::
  "hex_lib \<Rightarrow> (string \<Rightarrow> blob_bytes option) \<Rightarrow> bytes \<Rightarrow> bytes \<Rightarrow> send_stream \<Rightarrow>
   (string + unit) \<times> send_stream" where
  "serve_stream hx source preread recv s =
     (if length preread > REQUEST_LEN then (Inl ''preread longer than the fixed request'', s)
      else case read_exact (REQUEST_LEN - length preread) recv of
             None \<Rightarrow> (Inl ''stream finished early'', s)
           | Some (tail, _) \<Rightarrow>
               (case request_decode (preread @ tail) of
                  Inl (BadVersion _) \<Rightarrow> write_status UnsupportedVersion s
                | Inl _ \<Rightarrow> (Inl ''bad request'', s)
                | Inr request \<Rightarrow>
                    (case source (hex_encode hx (bytes_of (req_sha256 request))) of
                       Some blob \<Rightarrow> send_blob blob s
                     | None \<Rightarrow> write_status NotFound s)))"

text \<open>The accept loop of \<open>serve\<close> over the results of \<open>endpoint.accept()\<close>: the sessions it serves
  and the reason it stopped, if it did.\<close>

fun serve :: "(fail_reason + 's) list \<Rightarrow> 's list \<times> fail_reason option" where
  "serve [] = ([], None)"
| "serve (Inr session # rest) = (let (ss, stop) = serve rest in (session # ss, stop))"
| "serve (Inl reason # rest) = (if reason = FailIdentity then serve rest else ([], Some reason))"

text \<open>\<open>MapBlobSource\<close>: the body is split off the front, \<open>CHUNK\<close> bytes at a time.\<close>

type_synonym map_blobs = "string \<rightharpoonup> string option \<times> bytes"

function source_pieces :: "bytes \<Rightarrow> (string + bytes) list" where
  "source_pieces remaining =
     (if remaining = [] then []
      else let k = min (length remaining) CHUNK
           in Inr (take k remaining) # source_pieces (drop k remaining))"
  by auto

termination
  by (relation "measure length") (simp_all add: CHUNK_def)

declare source_pieces.simps [simp del]

definition blobs_insert :: "string \<Rightarrow> string option \<Rightarrow> bytes \<Rightarrow> map_blobs \<Rightarrow> map_blobs" where
  "blobs_insert d content_type data m = m(d \<mapsto> (content_type, data))"

definition blobs_get :: "map_blobs \<Rightarrow> string \<Rightarrow> blob_bytes option" where
  "blobs_get m d =
     map_option (\<lambda>(content_type, data).
       \<lparr>blob_size = word_of_nat (length data), blob_type = content_type,
        blob_body = source_pieces data\<rparr>) (m d)"

section \<open>The fetching side\<close>

text \<open>\<open>MapCardResolver\<close>.\<close>

type_synonym map_cards = "node_id \<rightharpoonup> card"

definition cards_insert :: "card \<Rightarrow> map_cards \<Rightarrow> map_cards" where
  "cards_insert c m = m(card_node_id c \<mapsto> c)"

definition cards_resolve :: "map_cards \<Rightarrow> node_id \<Rightarrow> card option" where
  "cards_resolve m n = m n"

datatype fetch_error = UnsupportedSource | Unreachable string | UnusableStatus nat | StreamError string

datatype fetch_path = FetchDirect | FetchRelayed

text \<open>A parsed URL: its scheme, host and path, as the \<open>url\<close> crate returns them.\<close>

record url =
  url_scheme :: string
  url_host :: "string option"
  url_path :: string

definition parse_fsl_source :: "hex_lib \<Rightarrow> url \<Rightarrow> fetch_error + node_id \<times> 32 arr" where
  "parse_fsl_source hx source =
     (if url_scheme source \<noteq> ''fsl'' then Inl UnsupportedSource
      else case url_host source of
             None \<Rightarrow> Inl (Unreachable ''fsl source carries no node id'')
           | Some host \<Rightarrow>
               (case from_base32 host of
                  None \<Rightarrow> Inl (Unreachable ''fsl source node id is not valid base32'')
                | Some node \<Rightarrow>
                    let first = takeWhile (\<lambda>c. c \<noteq> CHR ''/'') (dropWhile (\<lambda>c. c = CHR ''/'') (url_path source));
                        hex_digest = takeWhile (\<lambda>c. c \<noteq> CHR ''.'') first
                    in if length hex_digest \<noteq> 64 \<or> \<not> list_all lower_hex hex_digest
                       then Inl (Unreachable ''fsl source sha256 is not 64 hex characters'')
                       else case hex_decode hx hex_digest of
                              None \<Rightarrow> Inl (Unreachable ''fsl source sha256 is not hex'')
                            | Some digest \<Rightarrow>
                                (case to_arr digest of
                                   None \<Rightarrow> Inl (Unreachable ''fsl source sha256 is not 32 bytes'')
                                 | Some d \<Rightarrow> Inr (node, d))))"

definition decoded_header :: "bytes \<Rightarrow> bytes \<Rightarrow> fetch_error + response_header \<times> bytes" where
  "decoded_header header recv =
     (case response_decode header of
        Inl _ \<Rightarrow> Inl (Unreachable ''bad link response header'')
      | Inr (h, _) \<Rightarrow> Inr (h, recv))"

definition read_response :: "bytes \<Rightarrow> fetch_error + response_header \<times> bytes" where
  "read_response recv =
     (case read_exact 1 recv of
        None \<Rightarrow> Inl (Unreachable ''no link response header'')
      | Some (st, recv) \<Rightarrow>
          if st ! 0 \<noteq> STATUS_OK then decoded_header st recv
          else
            (case read_exact 10 recv of
               None \<Rightarrow> Inl (Unreachable ''truncated link response header'')
             | Some (fixed, recv) \<Rightarrow>
                 let content_len = unat (from_be [fixed ! 8, fixed ! 9] :: u16)
                 in if content_len > MAX_CONTENT_TYPE
                    then Inl (Unreachable ''content-type length exceeds 255'')
                    else
                      (case (if content_len > 0 then read_exact content_len recv else Some ([], recv)) of
                         None \<Rightarrow> Inl (Unreachable ''truncated content-type'')
                       | Some (content_type, recv) \<Rightarrow>
                           decoded_header (st @ fixed @ content_type) recv)))"

text \<open>
  A session as the fetcher uses it: the errors its stream operations may give, what the peer
  sends back on a stream for what was written to it, the status of its path, and an identity to
  follow \<open>close\<close> by.
\<close>

record link_session =
  session_key :: nat
  open_error :: "string option"
  write_error :: "string option"
  peer_answer :: "bytes \<Rightarrow> bytes"
  path_status :: path_status

definition open_blob_stream ::
  "link_session \<Rightarrow> 32 arr \<Rightarrow> fetch_error + bytes \<times> u64 \<times> string option" where
  "open_blob_stream session d =
     (case open_error session of
        Some _ \<Rightarrow> Inl (Unreachable ''link open_stream failed'')
      | None \<Rightarrow>
          (case write_error session of
             Some _ \<Rightarrow> Inl (Unreachable ''link request write failed'')
           | None \<Rightarrow>
               (case read_response (peer_answer session (bytes_of (request_encode (request_new d)))) of
                  Inl e \<Rightarrow> Inl e
                | Inr (Ok sz content_type, recv) \<Rightarrow> Inr (recv, sz, content_type)
                | Inr (NotFound, _) \<Rightarrow> Inl (UnusableStatus 404)
                | Inr (Error, _) \<Rightarrow> Inl (UnusableStatus 500)
                | Inr (UnsupportedVersion, _) \<Rightarrow> Inl (UnusableStatus 505))))"

datatype body_session = Owned "nat option" | Shared nat

text \<open>\<open>BodySession::finish\<close>; the closed sessions are collected in a list.\<close>

fun body_finish :: "body_session \<Rightarrow> nat list \<Rightarrow> body_session \<times> nat list" where
  "body_finish (Owned (Some k)) closes = (Owned None, closes @ [k])"
| "body_finish (Owned None) closes = (Owned None, closes)"
| "body_finish (Shared k) closes = (Shared k, closes)"

record body_state =
  body_recv :: bytes
  body_holds :: body_session
  remaining :: u64
  errored :: bool
  closes :: "nat list"

definition link_body :: "bytes \<Rightarrow> body_session \<Rightarrow> u64 \<Rightarrow> body_state" where
  "link_body recv session sz =
     \<lparr>body_recv = recv, body_holds = session, remaining = sz, errored = False, closes = []\<rparr>"

text \<open>The closure of \<open>unfold\<close>: the next item of the body, or \<open>None\<close> at its end.\<close>

definition body_done :: "body_state \<Rightarrow> body_state" where
  "body_done s =
     (let (h, cs) = body_finish (body_holds s) (closes s) in s\<lparr>body_holds := h, closes := cs\<rparr>)"

definition body_next :: "body_state \<Rightarrow> (fetch_error + bytes) option \<times> body_state" where
  "body_next s =
     (if errored s then (None, s)
      else if remaining s = 0 then (None, body_done s)
      else
        let want = min (remaining s) (word_of_nat CHUNK)
        in case read_exact (unat want) (body_recv s) of
             Some (buffer, recv) \<Rightarrow>
               (Some (Inr buffer), s\<lparr>body_recv := recv, remaining := remaining s - want\<rparr>)
           | None \<Rightarrow>
               (Some (Inl (StreamError ''link body read failed'')), body_done (s\<lparr>errored := True\<rparr>)))"

text \<open>The body read to its end.\<close>

lemma word_min_CHUNK: "unat (min r (word_of_nat CHUNK :: u64)) = min (unat r) CHUNK"
  by (simp add: min_def word_le_nat_alt CHUNK_def)

lemma unat_minus_min: "unat (r - min r k) = unat r - unat (min r (k :: u64))"
  by (rule unat_sub) simp

lemma CHUNK_pos [simp]: "0 < CHUNK"
  by (simp add: CHUNK_def)

lemma remaining_decreases:
  assumes "r \<noteq> 0"
  shows "unat (r - min r (word_of_nat CHUNK :: u64)) < unat r"
proof -
  have "0 < unat r" using assms by (simp add: unat_gt_0)
  then show ?thesis by (simp add: unat_minus_min word_min_CHUNK)
qed

lemma body_done_simps [simp]:
  "body_recv (body_done s) = body_recv s" "remaining (body_done s) = remaining s"
  "errored (body_done s) = errored s"
  by (simp_all add: body_done_def split_beta)

function body_items :: "body_state \<Rightarrow> (fetch_error + bytes) list \<times> body_state" where
  "body_items s =
     (case body_next s of
        (None, s) \<Rightarrow> ([], s)
      | (Some item, s) \<Rightarrow> (let (items, s) = body_items s in (item # items, s)))"
  by auto

termination
proof (relation "measure (\<lambda>s. if errored s then 0 else Suc (unat (remaining s)))", goal_cases)
  case (2 s r s' item)
  then show ?case
    by (auto simp: body_next_def Let_def remaining_decreases split: if_splits option.splits)
qed simp

declare body_items.simps [simp del]

record fetched_blob =
  fetched_path :: fetch_path
  fetched_size :: u64
  fetched_type :: "string option"
  fetched_body :: body_state

definition fetch_path_of :: "path_status \<Rightarrow> fetch_path" where
  "fetch_path_of st = (case st of Direct \<Rightarrow> FetchDirect | _ \<Rightarrow> FetchRelayed)"

definition fetch_blob_over ::
  "link_session \<Rightarrow> 32 arr \<Rightarrow> u64 option \<Rightarrow> fetch_error + fetched_blob" where
  "fetch_blob_over session d expected_size =
     (case open_blob_stream session d of
        Inl e \<Rightarrow> Inl e
      | Inr (recv, sz, content_type) \<Rightarrow>
          if (case expected_size of Some expected \<Rightarrow> expected \<noteq> sz | None \<Rightarrow> False)
          then Inl (Unreachable ''peer declared another size than expected'')
          else Inr \<lparr>fetched_path = fetch_path_of (path_status session), fetched_size = sz,
                    fetched_type = content_type,
                    fetched_body = link_body recv (Shared (session_key session)) sz\<rparr>)"

text \<open>\<open>fetch_over_link\<close>; the resolver and \<open>Endpoint::connect\<close> are arguments.\<close>

definition fetch_over_link ::
  "hex_lib \<Rightarrow> (node_id \<Rightarrow> card option) \<Rightarrow> (card \<Rightarrow> fail_reason + link_session) \<Rightarrow> url \<Rightarrow>
   fetch_error + fetched_blob" where
  "fetch_over_link hx resolver connect source =
     (case parse_fsl_source hx source of
        Inl e \<Rightarrow> Inl e
      | Inr (node, d) \<Rightarrow>
          (case resolver node of
             None \<Rightarrow> Inl (Unreachable ''no card known for node'')
           | Some c \<Rightarrow>
               (case connect c of
                  Inl _ \<Rightarrow> Inl (Unreachable ''link connect failed'')
                | Inr session \<Rightarrow>
                    (case open_blob_stream session d of
                       Inl e \<Rightarrow> Inl e
                     | Inr (recv, sz, content_type) \<Rightarrow>
                         Inr \<lparr>fetched_path = fetch_path_of (path_status session), fetched_size = sz,
                              fetched_type = content_type,
                              fetched_body = link_body recv (Owned (Some (session_key session))) sz\<rparr>))))"

section \<open>The formats read from the front of a stream\<close>

lemma length_REQUEST_MAGIC [simp]: "length REQUEST_MAGIC = 4"
  by (simp add: REQUEST_MAGIC_def)

lemma bytes_of_request_encode:
  "bytes_of (request_encode r) = REQUEST_MAGIC @ PROTOCOL_VERSION # bytes_of (req_sha256 r)"
  by (simp add: request_encode_def)

lemma request_layout:
  assumes "37 \<le> length b" "take 4 b = REQUEST_MAGIC" "b ! 4 = PROTOCOL_VERSION"
  shows "take 37 b = REQUEST_MAGIC @ PROTOCOL_VERSION # slice b 5 37"
proof -
  have "take 37 b = slice b 0 4 @ slice b 4 5 @ slice b 5 37"
    by (simp add: take_slice slice_split)
  moreover have "slice b 4 5 = [b ! 4]" using assms(1) by (simp add: slice_nth)
  ultimately show ?thesis using assms by (simp flip: take_slice)
qed

lemma request_decode_iff:
  "request_decode b = Inr r \<longleftrightarrow> 37 \<le> length b \<and> take 37 b = bytes_of (request_encode r)"
proof
  assume d: "request_decode b = Inr r"
  then have "take 37 b = REQUEST_MAGIC @ PROTOCOL_VERSION # slice b 5 37"
    by (intro request_layout) (auto simp: request_decode_def REQUEST_LEN_def split: if_splits)
  moreover have "37 \<le> length b" "r = \<lparr>req_sha256 = mk_arr (slice b 5 37)\<rparr>"
    using d by (auto simp: request_decode_def REQUEST_LEN_def split: if_splits)
  ultimately show "37 \<le> length b \<and> take 37 b = bytes_of (request_encode r)"
    by (simp add: bytes_of_request_encode)
next
  assume a: "37 \<le> length b \<and> take 37 b = bytes_of (request_encode r)"
  then obtain rest where b: "b = bytes_of (request_encode r) @ rest" by (metis append_take_drop_id)
  then show "request_decode b = Inr r"
    by (cases r) (simp add: request_decode_def REQUEST_LEN_def bytes_of_request_encode nth_append)
qed

lemma u16_bytes: "[to_be (w :: u16) ! 0, to_be w ! 1] = to_be w"
  using to_be_u16_pair [of w] by auto

lemma decode_ok_layout:
  "decode_ok (STATUS_OK # to_be sz @ to_be w @ body) =
     (if unat w > MAX_CONTENT_TYPE then Inl (ContentTypeTooLong w)
      else if length body < unat w then Inl (Short (11 + unat w) (11 + length body))
      else if w = 0 then Inr (Ok sz None, 11)
      else case from_utf8 (take (unat w) body) of
             None \<Rightarrow> Inl BadContentType
           | Some text \<Rightarrow> Inr (Ok sz (Some text), 11 + unat w))"
proof -
  let ?b = "STATUS_OK # to_be sz @ to_be w @ body"
  have "[?b ! 9, ?b ! 10] = to_be w"
    using u16_bytes [of w] by (simp add: nth_append)
  then have w: "(from_be [?b ! 9, ?b ! 10] :: u16) = w" by simp
  have sl: "slice ?b 1 9 = to_be sz" by (simp add: slice_def)
  have body: "slice ?b 11 (11 + unat w) = take (unat w) body" by (simp add: slice_def)
  have n: "1 + 8 + 2 = (11 :: nat)" and len: "length ?b = 11 + length body" by simp_all
  show ?thesis
    unfolding decode_ok_def Let_def n w sl body len be_word_round_trip by (cases "w = 0") simp_all
qed

lemma ok_header_layout:
  assumes "11 \<le> length b" "hd b = STATUS_OK"
  obtains sz w body where "b = STATUS_OK # to_be (sz :: u64) @ to_be (w :: u16) @ body"
proof -
  obtain c where b: "b = STATUS_OK # c" using assms by (cases b) auto
  then have "10 \<le> length c" using assms by simp
  then have "c = to_be (from_be (take 8 c) :: u64) @ to_be (from_be (take 2 (drop 8 c)) :: u16) @ drop 10 c"
    using append_take_drop_id [of 2 "drop 8 c"] by simp
  then show thesis using that b by metis
qed

lemma unat_of_length: "n \<le> 255 \<Longrightarrow> unat (word_of_nat n :: u16) = n"
  by (simp add: unat_of_nat)

lemma response_decode_encode:
  assumes "header_ok h"
  shows "response_decode (response_encode h @ rest) = Inr (h, length (response_encode h))"
proof (cases h)
  case (Ok sz ct)
  show ?thesis
  proof (cases ct)
    case None
    have "decode_ok (STATUS_OK # to_be sz @ to_be (0 :: u16) @ rest) = Inr (Ok sz None, 11)"
      by (simp add: decode_ok_layout)
    then show ?thesis by (simp add: Ok None response_decode_def as_bytes_def)
  next
    case (Some media)
    then have t: "is_str media" "media \<noteq> ''''" "length media \<le> 255"
      using assms Ok by (auto simp: MAX_CONTENT_TYPE_def)
    let ?w = "word_of_nat (length media) :: u16"
    have w: "unat ?w = length media" "?w \<noteq> 0"
      using t unat_of_length [of "length media"] by auto
    have "decode_ok (STATUS_OK # to_be sz @ to_be ?w @ as_bytes media @ rest) =
        Inr (Ok sz (Some media), 11 + length media)"
      using t w by (simp add: decode_ok_layout MAX_CONTENT_TYPE_def)
    then show ?thesis using t by (simp add: Ok Some response_decode_def MAX_CONTENT_TYPE_def)
  qed
qed (simp_all add: response_decode_def fslb_consts)

lemma decode_ok_prefix:
  assumes "decode_ok b = Inr (h, n)" "hd b = STATUS_OK"
  shows "header_ok h \<and> n \<le> length b \<and> response_encode h = take n b"
proof -
  have "11 \<le> length b" using assms(1) by (auto simp: decode_ok_def split: if_splits)
  then obtain sz w body where b: "b = STATUS_OK # to_be (sz :: u64) @ to_be (w :: u16) @ body"
    using ok_header_layout assms(2) by metis
  then have w: "unat w \<le> 255" "unat w \<le> length body"
    using assms(1) by (auto simp: decode_ok_layout MAX_CONTENT_TYPE_def split: if_splits)
  show ?thesis
  proof (cases "w = 0")
    case True
    then show ?thesis using assms(1) w by (auto simp: b decode_ok_layout as_bytes_def)
  next
    case False
    then have "0 < unat w" by (simp add: unat_gt_0)
    then obtain media where t: "h = Ok sz (Some media)" "n = 11 + unat w" "is_str media"
        "take (unat w) body = as_bytes media"
      using assms(1) w False
      by (auto simp: b decode_ok_layout from_utf8_eq_Some MAX_CONTENT_TYPE_def split: if_splits option.splits)
    then have len: "length media = unat w" using w by (metis length_as_bytes length_take min.absorb2)
    then have "response_encode h = STATUS_OK # to_be sz @ to_be w @ take (unat w) body"
      using t w by (simp add: MAX_CONTENT_TYPE_def)
    moreover have "take n b = STATUS_OK # to_be sz @ to_be w @ take (unat w) body"
      by (simp add: b t(2) take_Cons')
    ultimately show ?thesis using t w len \<open>0 < unat w\<close> by (auto simp: b MAX_CONTENT_TYPE_def)
  qed
qed

lemma response_decode_prefix:
  assumes "response_decode b = Inr (h, n)"
  shows "header_ok h \<and> n \<le> length b \<and> response_encode h = take n b"
proof (cases b)
  case Nil
  then show ?thesis using assms by (simp add: response_decode_def)
next
  case (Cons st c)
  then show ?thesis
    using assms decode_ok_prefix [of b h n]
    by (auto simp: response_decode_def split: if_splits)
qed

interpretation fslb_request: prefix_codec "\<lambda>r. bytes_of (request_encode r)"
  "\<lambda>b. map_option (\<lambda>r. (r, REQUEST_LEN)) (result_ok (request_decode b))" "\<lambda>_. True"
  by unfold_locales (auto simp: request_decode_iff REQUEST_LEN_def)

interpretation fslb_header: prefix_codec response_encode "\<lambda>b. result_ok (response_decode b)" header_ok
  by unfold_locales (simp_all add: response_decode_encode response_decode_prefix)

text \<open>C32: what an FSLB reader takes from the front of a stream is exactly what the writer put there.
  \<open>ResponseHeader::decode\<close> returns a header and a length exactly when the header is within the format
  and the buffer starts with its encoding, of that length; \<open>Request::decode\<close> likewise, for the fixed
  37 bytes.\<close>

theorem fslb_formats_exact:
  "(response_decode b = Inr (h, n) \<longleftrightarrow>
      header_ok h \<and> n = length (response_encode h) \<and> (\<exists>rest. b = response_encode h @ rest)) \<and>
   (request_decode b = Inr r \<longleftrightarrow> (\<exists>rest. b = bytes_of (request_encode r) @ rest))"
proof (intro conjI)
  show "response_decode b = Inr (h, n) \<longleftrightarrow>
      header_ok h \<and> n = length (response_encode h) \<and> (\<exists>rest. b = response_encode h @ rest)"
    using fslb_header.dec_prefix [of b h n] fslb_header.dec_used [of b h n]
      fslb_header.dec_enc_append [of h]
    by (auto intro: exI [of _ "drop n b"])
  show "request_decode b = Inr r \<longleftrightarrow> (\<exists>rest. b = bytes_of (request_encode r) @ rest)"
    using fslb_request.dec_prefix [of b r REQUEST_LEN] fslb_request.dec_enc_append [of r]
    by (auto intro: exI [of _ "drop REQUEST_LEN b"])
qed

section \<open>One parser for both readers\<close>

lemma read_response_ok_layout:
  fixes sz :: u64 and w :: u16
  shows "read_response (STATUS_OK # to_be sz @ to_be w @ body) = Inr (h, rest) \<longleftrightarrow>
     (\<exists>n. decode_ok (STATUS_OK # to_be sz @ to_be w @ body) = Inr (h, n) \<and>
       rest = drop n (STATUS_OK # to_be sz @ to_be w @ body))"
proof -
  let ?b = "STATUS_OK # to_be sz @ to_be w @ body" and ?f = "to_be sz @ to_be w"
  have first: "read_exact 1 ?b = Some ([STATUS_OK], ?f @ body)"
    and next10: "read_exact 10 (?f @ body) = Some (?f, body)"
    by (simp_all add: read_exact_eq_Some)
  have "[?f ! 8, ?f ! 9] = to_be w" using u16_bytes [of w] by (simp add: nth_append)
  then have len: "(from_be [?f ! 8, ?f ! 9] :: u16) = w" by simp
  have read: "(if 0 < unat w then read_exact (unat w) body else Some ([], body)) =
      (if length body < unat w then None else Some (take (unat w) body, drop (unat w) body))"
    by (simp add: read_exact_def)
  have dec: "response_decode (STATUS_OK # c) = decode_ok (STATUS_OK # c)" for c
    by (simp add: response_decode_def)
  have whole: "decode_ok (STATUS_OK # to_be sz @ to_be w @ take (unat w) body) = decode_ok ?b"
    if "\<not> MAX_CONTENT_TYPE < unat w" "\<not> length body < unat w"
    using that by (simp add: decode_ok_layout)
  have used: "drop n ?b = drop (unat w) body"
    if "decode_ok ?b = Inr (h, n)" "\<not> length body < unat w" for n
    using that by (auto simp: decode_ok_layout drop_Cons' split: if_splits option.splits)
  show ?thesis
  proof (cases "MAX_CONTENT_TYPE < unat w \<or> length body < unat w")
    case True
    then show ?thesis
      unfolding read_response_def first option.case prod.case next10 Let_def len read
      by (auto simp: decode_ok_layout)
  next
    case False
    then show ?thesis
      unfolding read_response_def first option.case prod.case next10 Let_def len read
      using whole used by (auto simp: decoded_header_def dec split: sum.splits)
  qed
qed

lemma read_response_decode:
  "read_response recv = Inr (h, rest) \<longleftrightarrow>
     (\<exists>n. response_decode recv = Inr (h, n) \<and> rest = drop n recv)"
proof (cases recv)
  case Nil
  then show ?thesis by (simp add: read_response_def response_decode_def read_exact_def)
next
  case (Cons st c)
  have one: "read_exact (Suc 0) (st # c) = Some ([st], c)" by (simp add: read_exact_def)
  consider "st \<noteq> STATUS_OK" | "st = STATUS_OK" "length c < 10" | "st = STATUS_OK" "10 \<le> length c"
    by linarith
  then show ?thesis
  proof cases
    case 1
    then show ?thesis
      by (auto simp: Cons read_response_def one decoded_header_def response_decode_def
          split: if_splits)
  next
    case 2
    then show ?thesis
      by (simp add: Cons read_response_def one read_exact_def response_decode_def
          decode_ok_def)
  next
    case 3
    then obtain sz w body where b: "recv = STATUS_OK # to_be (sz :: u64) @ to_be (w :: u16) @ body"
      using ok_header_layout [of recv] Cons by auto
    show ?thesis unfolding b read_response_ok_layout by (simp add: response_decode_def)
  qed
qed

text \<open>The fetcher's incremental header reader is the codec: it returns a header exactly when
  \<open>ResponseHeader::decode\<close> does on the whole stream, and leaves the stream at the first body byte.\<close>

theorem read_response_is_decode:
  "read_response recv = Inr (h, rest) \<longleftrightarrow>
     (\<exists>n. response_decode recv = Inr (h, n) \<and> rest = drop n recv)"
  by (rule read_response_decode)

section \<open>The body\<close>

lemma closes_body_done:
  "closes (body_done s) = (case body_holds s of Owned (Some k) \<Rightarrow> closes s @ [k] | _ \<Rightarrow> closes s)"
  by (auto simp: body_done_def split: body_session.splits option.splits)

lemma closes_body_done_upd [simp]:
  "closes (body_done (s\<lparr>body_recv := r, remaining := m\<rparr>)) = closes (body_done s)"
  by (simp add: body_done_def split_beta)

lemma body_next_more:
  assumes "\<not> errored s" "remaining s \<noteq> 0"
    and w: "w = min (unat (remaining s)) CHUNK" "w \<le> length (body_recv s)"
  shows "body_next s = (Some (Inr (take w (body_recv s))),
    s\<lparr>body_recv := drop w (body_recv s), remaining := remaining s - min (remaining s) (word_of_nat CHUNK)\<rparr>)"
  using assms by (simp add: body_next_def Let_def word_min_CHUNK read_exact_def not_less min_le_iff_disj)

lemma unat_remaining_next:
  "unat (remaining s - min (remaining s) (word_of_nat CHUNK)) =
   unat (remaining s) - min (unat (remaining s)) CHUNK"
  by (simp add: unat_minus_min word_min_CHUNK)

lemma body_items_next:
  "body_next s = (Some item, s') \<Longrightarrow>
   body_items s = (item # fst (body_items s'), snd (body_items s'))"
  by (subst body_items.simps) (simp add: split_beta)

lemma chunks_min:
  assumes "0 < n" "n \<le> length r"
  shows "chunks CHUNK (take n r) =
    take (min n CHUNK) r # chunks CHUNK (take (n - min n CHUNK) (drop (min n CHUNK) r))"
proof -
  have "take n r \<noteq> []" using assms by (cases r) auto
  then have "chunks CHUNK (take n r) = take CHUNK (take n r) # chunks CHUNK (drop CHUNK (take n r))"
    by (simp add: chunks_step)
  then show ?thesis by (auto simp: min_def drop_take)
qed

lemma body_items_complete:
  assumes "\<not> errored s" "unat (remaining s) \<le> length (body_recv s)"
  shows "fst (body_items s) = map Inr (chunks CHUNK (take (unat (remaining s)) (body_recv s))) \<and>
    closes (snd (body_items s)) = closes (body_done s)"
  using assms
proof (induction "unat (remaining s)" arbitrary: s rule: less_induct)
  case less
  show ?case
  proof (cases "remaining s = 0")
    case True
    then show ?thesis using less.prems
      by (subst (1 2) body_items.simps) (simp add: body_next_def)
  next
    case False
    let ?n = "unat (remaining s)" and ?w = "min (unat (remaining s)) CHUNK"
    let ?s = "s\<lparr>body_recv := drop ?w (body_recv s),
      remaining := remaining s - min (remaining s) (word_of_nat CHUNK)\<rparr>"
    have n: "0 < ?n" using False by (simp add: unat_gt_0)
    have next': "body_next s = (Some (Inr (take ?w (body_recv s))), ?s)"
      by (rule body_next_more) (use False less.prems in auto)
    have "unat (remaining ?s) < ?n" "\<not> errored ?s" "unat (remaining ?s) \<le> length (body_recv ?s)"
      using n less.prems by (auto simp: unat_remaining_next)
    from less.hyps [OF this] show ?thesis
      using less.prems n
      by (simp add: body_items_next [OF next'] chunks_min unat_remaining_next)
  qed
qed

lemma body_items_end: "body_next s = (None, s') \<Longrightarrow> body_items s = ([], s')"
  by (subst body_items.simps) simp

lemma chunks_block:
  assumes "CHUNK \<le> length r"
  shows "chunks CHUNK (take (CHUNK * (length r div CHUNK)) r) =
    take CHUNK r # chunks CHUNK (take (CHUNK * (length (drop CHUNK r) div CHUNK)) (drop CHUNK r))"
proof -
  have d: "length r div CHUNK = Suc (length (drop CHUNK r) div CHUNK)"
    using assms by (simp add: le_div_geq)
  let ?t = "take (CHUNK * (length r div CHUNK)) r"
  have "?t \<noteq> []" using assms d by (cases r) auto
  then have "chunks CHUNK ?t = take CHUNK ?t # chunks CHUNK (drop CHUNK ?t)"
    by (simp add: chunks_step)
  moreover have "take CHUNK ?t = take CHUNK r" by (simp add: d min_def)
  moreover have "drop CHUNK ?t = take (CHUNK * (length (drop CHUNK r) div CHUNK)) (drop CHUNK r)"
    unfolding d by (simp add: drop_take)
  ultimately show ?thesis by simp
qed

lemma body_items_short:
  assumes "\<not> errored s" "length (body_recv s) < unat (remaining s)"
  shows "fst (body_items s) =
      map Inr (chunks CHUNK (take (CHUNK * (length (body_recv s) div CHUNK)) (body_recv s))) @
      [Inl (StreamError ''link body read failed'')] \<and>
    closes (snd (body_items s)) = closes (body_done s)"
  using assms
proof (induction "unat (remaining s)" arbitrary: s rule: less_induct)
  case less
  let ?r = "body_recv s" and ?n = "unat (remaining s)"
  have nz: "remaining s \<noteq> 0" using less.prems by (cases "remaining s = 0") auto
  show ?case
  proof (cases "CHUNK \<le> length ?r")
    case False
    then have "body_next s = (Some (Inl (StreamError ''link body read failed'')), body_done (s\<lparr>errored := True\<rparr>))"
      using less.prems nz by (simp add: body_next_def Let_def word_min_CHUNK read_exact_def)
    moreover have "body_items (body_done (s\<lparr>errored := True\<rparr>)) = ([], body_done (s\<lparr>errored := True\<rparr>))"
      by (rule body_items_end) (simp add: body_next_def)
    ultimately show ?thesis
      using False by (simp add: body_items_next body_done_def split_beta)
  next
    case True
    let ?s = "s\<lparr>body_recv := drop CHUNK ?r,
      remaining := remaining s - min (remaining s) (word_of_nat CHUNK)\<rparr>"
    have w: "min ?n CHUNK = CHUNK" using True less.prems by simp
    then have next': "body_next s = (Some (Inr (take CHUNK ?r)), ?s)"
      using body_next_more [of s CHUNK] less.prems nz True by simp
    have "unat (remaining ?s) < ?n" "\<not> errored ?s" "length (body_recv ?s) < unat (remaining ?s)"
      using less.prems True unat_remaining_next [of s] CHUNK_pos unfolding w by simp_all
    from less.hyps [OF this] show ?thesis
      by (simp add: body_items_next [OF next'] chunks_block [OF True])
  qed
qed

text \<open>C25: a fetched body ends. Read to its end it is exactly the declared number of bytes, in pieces of
  at most \<open>CHUNK\<close>, or, when the stream is shorter than declared, its whole pieces and then one
  error, never a silent short body; and the session is closed once if the fetcher dialled it and
  never if it is the caller's.\<close>

theorem body_is_exact_or_error:
  "fst (body_items (link_body recv h sz)) =
     (if unat sz \<le> length recv then map Inr (chunks CHUNK (take (unat sz) recv))
      else map Inr (chunks CHUNK (take (CHUNK * (length recv div CHUNK)) recv)) @
           [Inl (StreamError ''link body read failed'')]) \<and>
   closes (snd (body_items (link_body recv h sz))) =
     (case h of Owned (Some k) \<Rightarrow> [k] | _ \<Rightarrow> [])"
proof -
  have "closes (body_done (link_body recv h sz)) = (case h of Owned (Some k) \<Rightarrow> [k] | _ \<Rightarrow> [])"
    by (simp add: closes_body_done link_body_def split: body_session.splits option.splits)
  then show ?thesis
    using body_items_complete [of "link_body recv h sz"] body_items_short [of "link_body recv h sz"]
    by (simp add: link_body_def)
qed

section \<open>Serving\<close>

lemma send_parts_Ok:
  "send_parts sz parts sent s = (Inr n, s') \<Longrightarrow>
   n = sent + length (concat parts) \<and> written s' = written s @ concat parts \<and>
   finished s' = finished s \<and> (sent \<le> unat sz \<longrightarrow> n \<le> unat sz)"
  by (induction sz parts sent s rule: send_parts.induct)
    (auto simp: Let_def dest!: write_all_Ok split: if_splits prod.splits sum.splits)

lemma send_body_Ok:
  "send_body sz body sent s = (Inr n, s') \<Longrightarrow>
   (\<exists>cs. body = map Inr cs \<and> n = sent + length (concat cs) \<and> written s' = written s @ concat cs \<and>
     finished s' = finished s)"
proof (induction sz body sent s rule: send_body.induct)
  case (3 sz chunk body sent s)
  obtain m s1 where p: "send_parts sz (chunks CHUNK chunk) sent s = (Inr m, s1)"
    using 3(2) by (auto split: prod.splits sum.splits)
  then have "send_body sz body m s1 = (Inr n, s')" using 3(2) by simp
  then obtain cs where cs: "body = map Inr cs" "n = m + length (concat cs)"
      "written s' = written s1 @ concat cs" "finished s' = finished s1"
    using 3(1) [OF p [symmetric] refl] by blast
  show ?case
    using cs send_parts_Ok [OF p] by (intro exI [of _ "chunk # cs"]) (simp add: concat_chunks)
qed auto

lemma send_parts_finished: "finished (snd (send_parts sz parts sent s)) = finished s"
  by (induction sz parts sent s rule: send_parts.induct)
    (auto simp: Let_def split: prod.splits sum.splits,
     (metis snd_conv write_all_finished)+)

lemma send_body_finished: "finished (snd (send_body sz body sent s)) = finished s"
proof (induction sz body sent s rule: send_body.induct)
  case (3 sz chunk body sent s)
  then show ?case
    using send_parts_finished [of sz "chunks CHUNK chunk" sent s]
    by (auto split: prod.splits sum.splits)
qed auto

lemma write_status_finished:
  "write_status h s = (res, s') \<Longrightarrow> \<not> finished s \<Longrightarrow> finished s' \<Longrightarrow>
   res = Inr () \<and> written s' = written s @ response_encode h"
  by (auto simp: write_status_def dest!: write_all_Ok split: prod.splits sum.splits)
    (metis snd_conv write_all_finished)+

lemma send_blob_finished:
  assumes "send_blob blob s = (res, s')" "\<not> finished s" "finished s'"
  shows "res = Inr () \<and> (\<exists>cs. blob_body blob = map Inr cs \<and>
    length (concat cs) = unat (blob_size blob) \<and>
    written s' = written s @ response_encode (Ok (blob_size blob) (blob_type blob)) @ concat cs)"
proof -
  obtain r1 s1 where w: "write_all (response_encode (Ok (blob_size blob) (blob_type blob))) s = (r1, s1)"
    by fastforce
  then have f1: "\<not> finished s1" using assms(2) write_all_finished by (metis snd_conv)
  then obtain u where r1: "r1 = Inr u" using assms w by (cases r1) (auto simp: send_blob_def Let_def)
  obtain r2 s2 where b: "send_body (blob_size blob) (blob_body blob) 0 s1 = (r2, s2)" by fastforce
  then have f2: "\<not> finished s2" using f1 send_body_finished by (metis snd_conv)
  then obtain n where r2: "r2 = Inr n"
    using assms w r1 b by (cases r2) (auto simp: send_blob_def Let_def)
  then have "n = unat (blob_size blob)" "res = Inr ()" "s' = finish s2"
    using assms w r1 b f2 by (auto simp: send_blob_def Let_def split: if_splits)
  then show ?thesis
    using send_body_Ok b r2 write_all_Ok w r1 by (fastforce simp del: response_encode.simps)
qed



section \<open>Fetching over a session\<close>

lemma parse_fsl_source_iff:
  assumes "hex_correct hx"
  shows "parse_fsl_source hx u = Inr (n, d) \<longleftrightarrow>
    url_scheme u = ''fsl'' \<and> url_host u = Some (to_base32 n) \<and>
    takeWhile (\<lambda>c. c \<noteq> CHR ''.'') (takeWhile (\<lambda>c. c \<noteq> CHR ''/'')
      (dropWhile (\<lambda>c. c = CHR ''/'') (url_path u))) = hex_encode hx (bytes_of d)"
    (is "_ \<longleftrightarrow> _ \<and> _ \<and> ?hex = _")
proof -
  have enc: "length (hex_encode hx b) = 2 * length b" "list_all lower_hex (hex_encode hx b)"
      "hex_decode hx (hex_encode hx b) = Some b" for b
    using assms by (simp_all add: hex_correct_def)
  have dec: "hex_encode hx b = ?hex"
    if "hex_decode hx ?hex = Some b" "length ?hex = 64" "list_all lower_hex ?hex" for b
    using assms that by (fastforce simp: hex_correct_def)
  have node: "from_base32 host = Some n \<longleftrightarrow> host = to_base32 n" for host
    using base32.dec_iff by auto
  show ?thesis
  proof
    assume p: "parse_fsl_source hx u = Inr (n, d)"
    then obtain host where h: "url_scheme u = ''fsl''" "url_host u = Some host"
        "from_base32 host = Some n"
      by (auto simp: parse_fsl_source_def Let_def split: if_splits option.splits)
    with p have "length ?hex = 64" "list_all lower_hex ?hex" "hex_decode hx ?hex = Some (bytes_of d)"
      by (auto simp: parse_fsl_source_def Let_def simp del: to_arr_eq_None split: if_splits option.splits)
    with h dec show "url_scheme u = ''fsl'' \<and> url_host u = Some (to_base32 n) \<and>
        ?hex = hex_encode hx (bytes_of d)"
      by (simp add: node)
  next
    assume "url_scheme u = ''fsl'' \<and> url_host u = Some (to_base32 n) \<and>
        ?hex = hex_encode hx (bytes_of d)"
    then show "parse_fsl_source hx u = Inr (n, d)"
      using enc node [THEN iffD2, OF refl] by (simp add: parse_fsl_source_def)
  qed
qed

lemma send_parts_total:
  "room s = None \<Longrightarrow> sent + length (concat parts) \<le> unat sz \<Longrightarrow>
   send_parts sz parts sent s =
     (Inr (sent + length (concat parts)), s\<lparr>written := written s @ concat parts\<rparr>)"
  by (induction sz parts sent s rule: send_parts.induct) (simp_all add: write_all_sound)

lemma send_body_total:
  "room s = None \<Longrightarrow> sent + length (concat cs) \<le> unat sz \<Longrightarrow>
   send_body sz (map Inr cs) sent s =
     (Inr (sent + length (concat cs)), s\<lparr>written := written s @ concat cs\<rparr>)"
proof (induction cs arbitrary: sent s)
  case Nil
  then show ?case by simp
next
  case (Cons c cs)
  have "send_parts sz (chunks CHUNK c) sent s =
      (Inr (sent + length c), s\<lparr>written := written s @ c\<rparr>)"
    using Cons.prems send_parts_total [of s sent "chunks CHUNK c" sz] by (simp add: concat_chunks)
  then show ?case using Cons by (simp add: add.assoc)
qed

lemma serve_stream_holds:
  assumes "source (hex_encode hx (bytes_of d)) = Some blob" "blob_body blob = map Inr cs"
    and "length (concat cs) = unat (blob_size blob)"
  shows "written (snd (serve_stream hx source [] (bytes_of (request_encode (request_new d))) (send_new None))) =
    response_encode (Ok (blob_size blob) (blob_type blob)) @ concat cs"
proof -
  have "request_decode (bytes_of (request_encode (request_new d))) = Inr (request_new d)"
    by (simp add: request_decode_iff)
  then have "serve_stream hx source [] (bytes_of (request_encode (request_new d))) (send_new None) =
      send_blob blob (send_new None)"
    using assms(1) by (simp add: serve_stream_def read_exact_def REQUEST_LEN_def request_new_def)
  then show ?thesis
    using assms by (simp add: send_blob_def Let_def write_all_def send_new_def send_body_total
        del: response_encode.simps)
qed

lemma open_blob_stream_holds:
  assumes "open_error session = None" "write_error session = None"
    and "peer_answer session (bytes_of (request_encode (request_new d))) =
      response_encode (Ok sz media) @ data" "header_ok (Ok sz media)"
  shows "open_blob_stream session d = Inr (data, sz, media)"
proof -
  let ?h = "response_encode (Ok sz media)"
  have "response_decode (?h @ data) = Inr (Ok sz media, length ?h)"
    using fslb_header.dec_enc_append [OF assms(4)] by simp
  then have "read_response (?h @ data) = Inr (Ok sz media, data)"
    unfolding read_response_decode by (simp del: response_encode.simps)
  then show ?thesis using assms by (simp add: open_blob_stream_def del: response_encode.simps)
qed

lemma lower_hex_not_separator: "lower_hex c \<Longrightarrow> c \<noteq> CHR ''/'' \<and> c \<noteq> CHR ''.''"
  by (auto simp: lower_hex_def HEX_DIGITS_def)

lemma bytes_of_nonempty [simp]: "bytes_of (a :: ('n::len) arr) \<noteq> []"
  by (metis length_bytes_of len_gt_0 list.size(3) less_irrefl)

lemma fsl_path_digest:
  assumes "hex_correct hx" "ext = '''' \<or> hd ext = CHR ''.''" "b \<noteq> []"
  shows "takeWhile (\<lambda>c. c \<noteq> CHR ''.'') (takeWhile (\<lambda>c. c \<noteq> CHR ''/'')
      (dropWhile (\<lambda>c. c = CHR ''/'') (hex_encode hx b @ ext))) = hex_encode hx b"
proof -
  let ?h = "hex_encode hx b"
  have "list_all lower_hex ?h" using assms(1) by (simp add: hex_correct_def)
  then have all: "\<forall>c\<in>set ?h. c \<noteq> CHR ''/'' \<and> c \<noteq> CHR ''.''"
    using lower_hex_not_separator by (auto simp: list_all_iff)
  have "length ?h = 2 * length b" using assms(1) by (simp add: hex_correct_def)
  then have "?h \<noteq> []" using assms(3) by auto
  then have "dropWhile (\<lambda>c. c = CHR ''/'') (?h @ ext) = ?h @ ext"
    using all by (cases ?h) auto
  moreover have "takeWhile (\<lambda>c. c \<noteq> CHR ''/'') (?h @ ext) = ?h @ takeWhile (\<lambda>c. c \<noteq> CHR ''/'') ext"
    using all by (simp add: takeWhile_append2)
  moreover have "takeWhile (\<lambda>c. c \<noteq> CHR ''.'') (takeWhile (\<lambda>c. c \<noteq> CHR ''/'') ext) = []"
    using assms(2) by (cases ext) auto
  ultimately show ?thesis
    using all by (simp add: takeWhile_append2)
qed

text \<open>An \<open>fsl\<close> source has one spelling of its node and digest. \<open>parse_fsl_source\<close> accepts exactly the
  \<open>fsl\<close> URLs whose host is the canonical text of the node and whose first path segment, up to its
  extension, is the lower-case hex of the digest.\<close>

theorem fsl_source_canonical:
  assumes "hex_correct hx"
  shows "parse_fsl_source hx u = Inr (n, d) \<longleftrightarrow>
    url_scheme u = ''fsl'' \<and> url_host u = Some (to_base32 n) \<and>
    takeWhile (\<lambda>c. c \<noteq> CHR ''.'') (takeWhile (\<lambda>c. c \<noteq> CHR ''/'')
      (dropWhile (\<lambda>c. c = CHR ''/'') (url_path u))) = hex_encode hx (bytes_of d)"
  by (rule parse_fsl_source_iff [OF assms])

theorem fsl_source_canonical_witness:
  "parse_fsl_source plain_hex
     \<lparr>url_scheme = ''fsl'', url_host = Some (to_base32 (NodeId (mk_arr [5]))),
      url_path = ''/'' @ hex_encode plain_hex (bytes_of (mk_arr [7] :: 32 arr)) @ ''.png''\<rparr> =
   Inr (NodeId (mk_arr [5]), mk_arr [7])"
  by (subst fsl_source_canonical [OF plain_hex_correct])
    (simp add: fsl_path_digest [OF plain_hex_correct])

text \<open>C23: a blob held is a blob fetched. A fetcher that resolves the node of an \<open>fsl\<close> URL, connects and
  asks a peer that serves from \<open>source\<close> gets the size, the media type and, read to the end, exactly
  the bytes of the store's pieces, whatever sizes those pieces had; the dialled session is closed.\<close>

theorem fetch_delivers_blob:
  assumes "hex_correct hx" "resolver n = Some c" "connect c = Inr session"
    and "open_error session = None" "write_error session = None"
    and "peer_answer session = (\<lambda>req. written (snd (serve_stream hx source [] req (send_new None))))"
    and "source (hex_encode hx (bytes_of d)) = Some blob" "blob_body blob = map Inr cs"
    and "length (concat cs) = unat (blob_size blob)"
    and "header_ok (Ok (blob_size blob) (blob_type blob))"
    and "parse_fsl_source hx u = Inr (n, d)"
  shows "\<exists>f. fetch_over_link hx resolver connect u = Inr f \<and>
    fetched_size f = blob_size blob \<and> fetched_type f = blob_type blob \<and>
    fst (body_items (fetched_body f)) = map Inr (chunks CHUNK (concat cs)) \<and>
    closes (snd (body_items (fetched_body f))) = [session_key session]"
proof -
  have "open_blob_stream session d = Inr (concat cs, blob_size blob, blob_type blob)"
    by (rule open_blob_stream_holds) (use assms serve_stream_holds in auto)
  moreover have "fst (body_items (link_body (concat cs) h (blob_size blob))) =
      map Inr (chunks CHUNK (concat cs)) \<and>
    closes (snd (body_items (link_body (concat cs) h (blob_size blob)))) =
      closes (body_done (link_body (concat cs) h (blob_size blob)))" for h
    using body_items_complete [of "link_body (concat cs) h (blob_size blob)"] assms(9)
    by (simp add: link_body_def)
  ultimately show ?thesis
    using assms by (auto simp: fetch_over_link_def closes_body_done) (simp add: link_body_def)
qed

theorem fetch_delivers_blob_witness:
  "\<exists>f. fetch_over_link plain_hex
      (cards_resolve (cards_insert
         \<lparr>card_node_id = NodeId (mk_arr [5]), issued_at = 0, expires_at = 9, serial = 1, hints = [], raw = []\<rparr>
         Map.empty))
      (\<lambda>_. Inr \<lparr>session_key = 4, open_error = None, write_error = None,
         peer_answer = (\<lambda>req. written (snd (serve_stream plain_hex
           (blobs_get (blobs_insert (hex_encode plain_hex (bytes_of (mk_arr [7] :: 32 arr)))
              (Some ''text/plain'') [1, 2, 3] Map.empty)) [] req (send_new None)))),
         path_status = Relayed\<rparr>)
      \<lparr>url_scheme = ''fsl'', url_host = Some (to_base32 (NodeId (mk_arr [5]))),
       url_path = ''/'' @ hex_encode plain_hex (bytes_of (mk_arr [7] :: 32 arr)) @ ''.txt''\<rparr> = Inr f \<and>
    fetched_size f = 3 \<and> fetched_type f = Some ''text/plain'' \<and>
    fst (body_items (fetched_body f)) = [Inr [1, 2, 3]] \<and>
    closes (snd (body_items (fetched_body f))) = [4]" (is "\<exists>f. fetch_over_link _ ?res ?con ?u = _ \<and> _")
proof -
  let ?blobs = "blobs_insert (hex_encode plain_hex (bytes_of (mk_arr [7] :: 32 arr)))
    (Some ''text/plain'') [1, 2, 3] Map.empty"
  have pieces: "source_pieces [1, 2, 3] = [Inr [1, 2, 3]]"
    by (simp add: source_pieces.simps CHUNK_def)
  have u: "parse_fsl_source plain_hex ?u = Inr (NodeId (mk_arr [5]), mk_arr [7])"
    by (subst parse_fsl_source_iff [OF plain_hex_correct])
      (simp add: fsl_path_digest [OF plain_hex_correct])
  have one: "chunks CHUNK [1, 2, 3 :: u8] = [[1, 2, 3]]"
    by (simp add: chunks_step CHUNK_def)
  have media: "is_str ''text/plain''"
    unfolding is_str_def by (rule utf8_valid_ascii) (simp add: as_bytes_def byte_of_char_def of_char_def)
  have card: "?res (NodeId (mk_arr [5])) = Some \<lparr>card_node_id = NodeId (mk_arr [5]), issued_at = 0,
      expires_at = 9, serial = 1, hints = [], raw = []\<rparr>" (is "_ = Some ?c")
    by (simp add: cards_resolve_def cards_insert_def)
  have blob: "blobs_get ?blobs (hex_encode plain_hex (bytes_of (mk_arr [7] :: 32 arr))) =
      Some \<lparr>blob_size = 3, blob_type = Some ''text/plain'', blob_body = map Inr [[1, 2, 3]]\<rparr>"
    by (simp add: blobs_get_def blobs_insert_def pieces)
  let ?s = "\<lparr>session_key = 4, open_error = None, write_error = None,
      peer_answer = (\<lambda>req. written (snd (serve_stream plain_hex (blobs_get ?blobs) [] req (send_new None)))),
      path_status = Relayed\<rparr>"
  have "\<exists>f. fetch_over_link plain_hex ?res ?con ?u = Inr f \<and> fetched_size f = 3 \<and>
      fetched_type f = Some ''text/plain'' \<and>
      fst (body_items (fetched_body f)) = map Inr (chunks CHUNK (concat [[1, 2, 3]])) \<and>
      closes (snd (body_items (fetched_body f))) = [session_key ?s]"
    using fetch_delivers_blob [of plain_hex ?res "NodeId (mk_arr [5])" ?c ?con ?s "blobs_get ?blobs"
        "mk_arr [7]" "\<lparr>blob_size = 3, blob_type = Some ''text/plain'', blob_body = map Inr [[1, 2, 3]]\<rparr>"
        "[[1, 2, 3]]" ?u, OF plain_hex_correct card refl _ _ _ blob _ _ _ u] media
    by (simp add: MAX_CONTENT_TYPE_def)
  then show ?thesis by (simp add: one)
qed

end
