(* ===== verification/Virtual_Socket.thy ===== *)
theory Virtual_Socket
  imports Blossom
begin

text \<open>
  \<open>link-websocket/src/lib.rs\<close>: a text WebSocket over an application stream of a session. The virtual URL
  names the peer and is checked before a stream is opened; the driver of the socket is a machine
  over its events. What the WebSocket library yields and whether its writes succeed are arguments;
  \<open>wire\<close> keeps the frames handed to it and \<open>delivered\<close> what the application has taken.
\<close>

section \<open>The virtual URL\<close>

definition MAX_TEXT_BYTES :: nat where "MAX_TEXT_BYTES = 1048576"
definition OUTBOUND_QUEUE :: nat where "OUTBOUND_QUEUE = 64"
definition INBOUND_QUEUE :: nat where "INBOUND_QUEUE = 64"

datatype socket_error =
    Scheme
  | Authority
  | Path
  | Host
  | PeerMismatch
  | TextTooLarge
  | QueueFull
  | SocketClosed
  | StreamFailed string
  | Upgrade string

record virtual_url = url +
  url_username :: string
  url_password :: "string option"
  url_port :: "u16 option"
  url_query :: "string option"
  url_fragment :: "string option"

definition validate_virtual_url :: "virtual_url \<Rightarrow> node_id \<Rightarrow> socket_error + unit" where
  "validate_virtual_url u peer =
     (if url_scheme u \<noteq> ''ws'' then Inl Scheme
      else if url_username u \<noteq> [] \<or> url_password u \<noteq> None \<or> url_port u \<noteq> None \<or> url_query u \<noteq> None \<or>
              url_fragment u \<noteq> None then Inl Authority
      else if url_path u \<notin> {''/events'', ''/drops''} then Inl Path
      else case url_host u of
             None \<Rightarrow> Inl Host
           | Some host \<Rightarrow>
               (case from_base32 host of
                  None \<Rightarrow> Inl Host
                | Some node \<Rightarrow> if node \<noteq> peer then Inl PeerMismatch else Inr ()))"

text \<open>A peer has two virtual URLs, up to the scheme's fixed parts.\<close>

lemma virtual_url_canonical:
  "validate_virtual_url u peer = Inr () \<longleftrightarrow>
     url_scheme u = ''ws'' \<and> url_username u = [] \<and> url_password u = None \<and> url_port u = None \<and>
     url_query u = None \<and> url_fragment u = None \<and> url_path u \<in> {''/events'', ''/drops''} \<and>
     url_host u = Some (to_base32 peer)"
proof (cases "url_host u")
  case None
  then show ?thesis by (simp add: validate_virtual_url_def)
next
  case (Some h)
  have "(case from_base32 h of None \<Rightarrow> Inl Host | Some node \<Rightarrow> if node \<noteq> peer then Inl PeerMismatch else Inr ()) =
      Inr () \<longleftrightarrow> from_base32 h = Some peer"
    by (simp split: option.split)
  moreover have "from_base32 h = Some peer \<longleftrightarrow> h = to_base32 peer"
    using base32.dec_iff [of h peer] by simp
  ultimately show ?thesis
    using Some unfolding validate_virtual_url_def option.case(2) by (simp del: not_None_eq) blast
qed

section \<open>The socket\<close>

datatype incoming_message = IncomingText string | IncomingClosed string

datatype command = SendText string | SendClose

datatype ws_frame = FrameText string | FramePong bytes | FrameClose

record virtual_socket =
  commands :: "command list"
  overflow :: bool
  incoming :: "incoming_message list"
  delivered :: "incoming_message list"
  wire :: "ws_frame list"
  socket_open :: bool

definition socket_new :: virtual_socket where
  "socket_new = \<lparr>commands = [], overflow = False, incoming = [], delivered = [], wire = [], socket_open = True\<rparr>"

text \<open>\<open>open\<close>: the session's peer, the opened stream and the upgrade are given.\<close>

definition open_socket ::
  "node_id \<Rightarrow> virtual_url \<Rightarrow> (string + unit) \<Rightarrow> (string + unit) \<Rightarrow> socket_error + virtual_socket" where
  "open_socket peer u stream upgrade =
     (case validate_virtual_url u peer of
        Inl e \<Rightarrow> Inl e
      | Inr _ \<Rightarrow>
          (case stream of
             Inl e \<Rightarrow> Inl (StreamFailed e)
           | Inr _ \<Rightarrow>
               (case upgrade of Inl e \<Rightarrow> Inl (Upgrade e) | Inr _ \<Rightarrow> Inr socket_new)))"

definition try_command :: "command \<Rightarrow> virtual_socket \<Rightarrow> virtual_socket \<times> (socket_error + unit)" where
  "try_command c s =
     (if \<not> socket_open s then (s, Inl SocketClosed)
      else if length (commands s) \<ge> OUTBOUND_QUEUE then (s\<lparr>overflow := True\<rparr>, Inl QueueFull)
      else (s\<lparr>commands := commands s @ [c]\<rparr>, Inr ()))"

definition send_text :: "string \<Rightarrow> virtual_socket \<Rightarrow> virtual_socket \<times> (socket_error + unit)" where
  "send_text t s =
     (if length (as_bytes t) > MAX_TEXT_BYTES then (s, Inl TextTooLarge) else try_command (SendText t) s)"

definition socket_close :: "virtual_socket \<Rightarrow> virtual_socket \<times> (socket_error + unit)" where
  "socket_close s = try_command SendClose s"

text \<open>The application takes a message.\<close>

definition receive :: "virtual_socket \<Rightarrow> virtual_socket" where
  "receive s =
     (case incoming s of [] \<Rightarrow> s | m # ms \<Rightarrow> s\<lparr>incoming := ms, delivered := delivered s @ [m]\<rparr>)"

section \<open>The driver\<close>

definition close_once :: "virtual_socket \<Rightarrow> virtual_socket" where
  "close_once s = s\<lparr>wire := wire s @ [FrameClose]\<rparr>"

text \<open>\<open>terminal\<close> and the return that follows every call of it. It waits for room, so nothing is lost.\<close>

definition terminal :: "string \<Rightarrow> virtual_socket \<Rightarrow> virtual_socket" where
  "terminal reason s = s\<lparr>incoming := incoming s @ [IncomingClosed reason], socket_open := False, commands := []\<rparr>"

definition on_overflow :: "virtual_socket \<Rightarrow> virtual_socket" where
  "on_overflow s = (if overflow s then terminal ''outbound queue overflow'' (close_once s) else s)"

definition on_handle_dropped :: "virtual_socket \<Rightarrow> virtual_socket" where
  "on_handle_dropped s = terminal ''closed locally'' (close_once s)"

definition on_command :: "bool \<Rightarrow> virtual_socket \<Rightarrow> virtual_socket" where
  "on_command write_ok s =
     (case commands s of
        [] \<Rightarrow> s
      | SendText t # cs \<Rightarrow>
          (if write_ok then s\<lparr>commands := cs, wire := wire s @ [FrameText t]\<rparr>
           else terminal ''write failed'' s)
      | SendClose # _ \<Rightarrow> terminal ''closed locally'' (close_once s))"

datatype ws_event = WsText string | WsPinged bytes | WsPonged | WsClosed | WsBinaryOrFrame | WsFailed | WsEnded

definition on_ws :: "bool \<Rightarrow> ws_event \<Rightarrow> virtual_socket \<Rightarrow> virtual_socket" where
  "on_ws write_ok m s =
     (case m of
        WsText t \<Rightarrow>
          (if length (as_bytes t) > MAX_TEXT_BYTES then terminal ''text frame exceeds limit'' (close_once s)
           else if length (incoming s) \<ge> INBOUND_QUEUE then terminal ''inbound queue overflow'' (close_once s)
           else s\<lparr>incoming := incoming s @ [IncomingText t]\<rparr>)
      | WsPinged p \<Rightarrow>
          (if write_ok then s\<lparr>wire := wire s @ [FramePong p]\<rparr> else terminal ''pong failed'' s)
      | WsPonged \<Rightarrow> s
      | WsClosed \<Rightarrow> terminal ''closed by peer'' (close_once s)
      | WsBinaryOrFrame \<Rightarrow> terminal ''binary frames are not supported'' (close_once s)
      | WsFailed \<Rightarrow> terminal ''WebSocket protocol error'' s
      | WsEnded \<Rightarrow> terminal ''connection ended'' s)"

datatype socket_event =
    CallSend string
  | CallClose
  | Receive
  | DriveOverflow
  | DriveDropped
  | DriveCommand bool
  | DriveMessage bool ws_event

text \<open>The branches of \<open>drive\<close> run while it has not returned.\<close>

fun socket_step :: "socket_event \<Rightarrow> virtual_socket \<Rightarrow> virtual_socket" where
  "socket_step (CallSend t) s = fst (send_text t s)"
| "socket_step CallClose s = fst (socket_close s)"
| "socket_step Receive s = receive s"
| "socket_step DriveOverflow s = (if socket_open s then on_overflow s else s)"
| "socket_step DriveDropped s = (if socket_open s then on_handle_dropped s else s)"
| "socket_step (DriveCommand ok) s = (if socket_open s then on_command ok s else s)"
| "socket_step (DriveMessage ok m) s = (if socket_open s then on_ws ok m s else s)"

definition socket_run :: "socket_event list \<Rightarrow> virtual_socket" where
  "socket_run es = fold socket_step es socket_new"

section \<open>One terminal message\<close>

text \<open>Everything the application has taken or will take.\<close>

abbreviation told :: "virtual_socket \<Rightarrow> incoming_message list" where
  "told s \<equiv> delivered s @ incoming s"

definition is_text :: "incoming_message \<Rightarrow> bool" where
  "is_text m = (case m of IncomingText t \<Rightarrow> length (as_bytes t) \<le> MAX_TEXT_BYTES | IncomingClosed _ \<Rightarrow> False)"

definition told_ok :: "bool \<Rightarrow> incoming_message list \<Rightarrow> bool" where
  "told_ok alive ms \<longleftrightarrow>
     (if alive then list_all is_text ms
      else \<exists>ts r. ms = ts @ [IncomingClosed r] \<and> list_all is_text ts)"

definition close_last :: "bool \<Rightarrow> ws_frame list \<Rightarrow> bool" where
  "close_last alive fs \<longleftrightarrow> FrameClose \<notin> set (if alive then fs else butlast fs)"

definition command_ok :: "command \<Rightarrow> bool" where
  "command_ok c = (case c of SendText t \<Rightarrow> length (as_bytes t) \<le> MAX_TEXT_BYTES | SendClose \<Rightarrow> True)"

definition socket_ok :: "virtual_socket \<Rightarrow> bool" where
  "socket_ok s \<longleftrightarrow>
     told_ok (socket_open s) (told s) \<and> close_last (socket_open s) (wire s) \<and>
     length (commands s) \<le> OUTBOUND_QUEUE \<and> list_all command_ok (commands s) \<and>
     length (incoming s) \<le> INBOUND_QUEUE + (if socket_open s then 0 else 1)"

lemma told_ok_end: "told_ok True ms \<Longrightarrow> told_ok False (ms @ [IncomingClosed r])"
  by (simp add: told_ok_def)

lemma told_ok_text: "told_ok True ms \<Longrightarrow> is_text m \<Longrightarrow> told_ok True (ms @ [m])"
  by (simp add: told_ok_def)

lemma close_last_more [simp]:
  "close_last True (fs @ [f]) \<longleftrightarrow> close_last True fs \<and> f \<noteq> FrameClose"
  "close_last False (fs @ [f]) \<longleftrightarrow> close_last True fs"
  by (auto simp: close_last_def)

lemma close_last_end: "close_last True fs \<Longrightarrow> close_last False fs"
  by (auto simp: close_last_def dest: in_set_butlastD)

lemma socket_ok_terminal:
  assumes "socket_ok s" "socket_open s"
  shows "socket_ok (terminal r s)" "socket_ok (terminal r (close_once s))"
  using assms told_ok_end [of "told s" r]
  by (simp_all add: socket_ok_def terminal_def close_once_def close_last_end)

lemma socket_ok_command:
  assumes "socket_ok s" "command_ok c"
  shows "socket_ok (fst (try_command c s))"
  using assms by (cases "socket_open s") (simp_all add: socket_ok_def try_command_def)

lemma socket_ok_receive: "socket_ok s \<Longrightarrow> socket_ok (receive s)"
  by (cases "incoming s") (simp_all add: socket_ok_def receive_def split: if_splits)

lemma socket_ok_on_command:
  assumes "socket_ok s" "socket_open s"
  shows "socket_ok (on_command b s)"
proof (cases "commands s")
  case Nil
  then show ?thesis using assms by (simp add: on_command_def)
next
  case (Cons c cs)
  then show ?thesis
    using assms socket_ok_terminal [OF assms]
    by (cases c) (simp_all add: on_command_def, simp add: socket_ok_def)
qed

lemma socket_ok_on_ws:
  assumes "socket_ok s" "socket_open s"
  shows "socket_ok (on_ws b m s)"
  using assms socket_ok_terminal [OF assms] told_ok_text [of "told s"]
  by (cases m) (simp_all add: on_ws_def socket_ok_def is_text_def)

lemma socket_ok_calls:
  assumes "socket_ok s"
  shows "socket_ok (fst (send_text t s))" "socket_ok (fst (socket_close s))"
  using assms socket_ok_command [OF assms]
  by (simp_all add: send_text_def socket_close_def command_ok_def)

lemma socket_ok_step:
  assumes "socket_ok s"
  shows "socket_ok (socket_step e s)"
proof (cases "socket_open s")
  case True
  note parts = socket_ok_terminal [OF assms True] socket_ok_on_command [OF assms True]
    socket_ok_on_ws [OF assms True] socket_ok_calls [OF assms] socket_ok_receive [OF assms]
  show ?thesis
    by (cases e) (simp_all add: parts assms on_overflow_def on_handle_dropped_def)
next
  case False
  then show ?thesis
    by (cases e) (simp_all add: assms socket_ok_calls socket_ok_receive)
qed

interpretation virtual: machine socket_step socket_ok
  by standard (rule socket_ok_step)

text \<open>C40: a virtual socket tells its application once that it ended. After any events what the application
  was or will be told is bounded text messages while the socket is open, and bounded texts and then
  one closing message, with its reason, once it is not; a close frame, if written, is the last frame
  written. Both queues are bounded.\<close>

theorem one_terminal_message:
  "(if socket_open (socket_run es) then list_all is_text (told (socket_run es))
    else \<exists>ms r. told (socket_run es) = ms @ [IncomingClosed r] \<and> list_all is_text ms) \<and>
   FrameClose \<notin> set (butlast (wire (socket_run es))) \<and>
   length (commands (socket_run es)) \<le> 64 \<and> length (incoming (socket_run es)) \<le> 65"
proof -
  have ok: "socket_ok (socket_run es)"
    unfolding socket_run_def
    by (rule virtual.run_inv) (simp add: socket_ok_def socket_new_def told_ok_def close_last_def)
  then have "FrameClose \<notin> set (butlast (wire (socket_run es)))"
    by (auto simp: socket_ok_def close_last_def dest: in_set_butlastD split: if_splits)
  moreover have "length (commands (socket_run es)) \<le> 64" "length (incoming (socket_run es)) \<le> 65"
    using ok by (simp_all add: socket_ok_def OUTBOUND_QUEUE_def INBOUND_QUEUE_def split: if_splits)
  ultimately show ?thesis
    using ok unfolding socket_ok_def told_ok_def by blast
qed

end
