(* ===== verification/Engine_Http.thy ===== *)
theory Engine_Http
  imports Endpoint Virtual_Socket
begin

text \<open>
  \<open>link-engine/src/lib.rs\<close> up to the engine itself and \<open>blob_http.rs\<close>: the persisted routes, the enrolment
  frame, the allowlist of requests an application may send over a paired route, and what a response
  must be. \<open>hyper\<close>'s view of a response is a record: the status, the headers (lower-case name, raw value
  and its text, if it is visible ASCII) and the frames of the body.
\<close>

section \<open>Errors and limits\<close>

datatype engine_error = EConfig string | ERoute string | ETransport string | ESocket string | EStopped

definition PAIRING_CLOCK_SKEW :: nat where "PAIRING_CLOCK_SKEW = 60"
definition ROUTE_MAGIC :: bytes where "ROUTE_MAGIC = as_bytes ''EVR1''"
definition ROUTE_PREFIX_BYTES :: nat where "ROUTE_PREFIX_BYTES = 6"
definition MAX_ROUTE_FRAME_BYTES :: nat where "MAX_ROUTE_FRAME_BYTES = ROUTE_PREFIX_BYTES + MAX_CARD_BYTES"
definition MAX_HTTP_PATH_BYTES :: nat where "MAX_HTTP_PATH_BYTES = 2048"
definition MAX_HTTP_AUTHORIZATION_BYTES :: nat where "MAX_HTTP_AUTHORIZATION_BYTES = 48 * 1024"
definition MAX_HTTP_BODY_BYTES :: nat where "MAX_HTTP_BODY_BYTES = 256 * 1024"
definition MAX_VMLS_JSON_BYTES :: nat where "MAX_VMLS_JSON_BYTES = 128 * 1024"
definition MAX_VMLS_ENVELOPE_BYTES :: nat where "MAX_VMLS_ENVELOPE_BYTES = 44 + 1048576"
definition MAX_VMLS_FETCH_RESPONSE_BYTES :: nat where "MAX_VMLS_FETCH_RESPONSE_BYTES = 2 * 1024 * 1024"
definition MAX_WITNESS_REQUEST_BYTES :: nat where "MAX_WITNESS_REQUEST_BYTES = 256"
definition WITNESS_RECEIPT_BYTES :: nat where "WITNESS_RECEIPT_BYTES = 170"
definition MAX_DISCARDED_REFUSAL_BYTES :: nat where "MAX_DISCARDED_REFUSAL_BYTES = 1024"
definition MAX_BLOB_BYTES :: nat where "MAX_BLOB_BYTES = 64 * 1024 * 1024"
definition LEGACY_ENCRYPTED_MEDIA_TYPE :: string where
  "LEGACY_ENCRYPTED_MEDIA_TYPE = ''application/vnd.forgesworn.encrypted''"

section \<open>Routes\<close>

record route =
  route_id :: string
  route_card_bytes :: bytes
  route_secret :: bytes
  route_serial :: u64
  card_verified_at :: u64

definition secret :: "bytes \<Rightarrow> engine_error + 32 arr" where
  "secret b = (case to_arr b of Some k \<Rightarrow> Inr k | None \<Rightarrow> Inl (ERoute ''paired route secret must be 32 bytes''))"

definition pairing_secret :: "bytes \<Rightarrow> engine_error + 16 arr" where
  "pairing_secret b = (case to_arr b of Some k \<Rightarrow> Inr k | None \<Rightarrow> Inl (ERoute ''pairing secret must be 16 bytes''))"

text \<open>In seconds.\<close>

definition pairing_lifetime :: "u64 \<Rightarrow> u64 \<Rightarrow> engine_error + nat" where
  "pairing_lifetime expires t =
     (if expires \<le> t then Inl (ERoute ''pairing bundle is expired'')
      else if unat (expires - t) > MAX_PAIRING_LIFETIME + PAIRING_CLOCK_SKEW
      then Inl (ERoute ''pairing bundle lifetime is too long'')
      else Inr (min (unat (expires - t)) MAX_PAIRING_LIFETIME))"

definition node_from_card_bytes :: "bytes \<Rightarrow> engine_error + node_id" where
  "node_from_card_bytes b =
     (case (if length b < 37 then None else from_slice (take 32 (drop 5 b))) of
        Some n \<Rightarrow> Inr n
      | None \<Rightarrow> Inl (ERoute ''card has no node id''))"

text \<open>The message of a card error is not modelled, only which rule failed.\<close>

definition verify_route :: "crypto \<Rightarrow> route \<Rightarrow> engine_error + node_id \<times> card" where
  "verify_route cr r =
     (if route_id r = [] then Inl (ERoute ''route id must not be empty'')
      else case node_from_card_bytes (route_card_bytes r) of
             Inl e \<Rightarrow> Inl e
           | Inr n \<Rightarrow>
               if route_serial r = 0 then Inl (ERoute ''card serial must be positive'')
               else case card_verify cr (route_card_bytes r)
                      (after_serial (expecting (verify_context_new (card_verified_at r)) n) (route_serial r - 1)) of
                      Inl e \<Rightarrow> Inl (ERoute ''card'')
                    | Inr c \<Rightarrow>
                        if serial c \<noteq> route_serial r then Inl (ERoute ''card serial does not match retained serial'')
                        else Inr (n, c))"

definition route_frame :: "bytes \<Rightarrow> bytes" where
  "route_frame cd = ROUTE_MAGIC @ to_be (word_of_nat (length cd) :: u16) @ cd"

definition route_card :: "bytes \<Rightarrow> engine_error + bytes" where
  "route_card frame =
     (if length frame < ROUTE_PREFIX_BYTES \<or> take 4 frame \<noteq> ROUTE_MAGIC
      then Inl (ERoute ''server returned a malformed route frame'')
      else
        let len = unat (from_be [frame ! 4, frame ! 5] :: u16)
        in if len > MAX_CARD_BYTES \<or> length frame \<noteq> ROUTE_PREFIX_BYTES + len
           then Inl (ERoute ''server returned a malformed route frame'')
           else Inr (drop ROUTE_PREFIX_BYTES frame))"

section \<open>Responses as they arrive\<close>

datatype body_frame = Data bytes | Trailers

record http_response =
  http_status :: nat
  http_headers :: "(string \<times> bytes \<times> string option) list"
  http_body :: "(string + body_frame) list"

text \<open>The loop of \<open>collect_bounded\<close>, after \<open>got\<close>.\<close>

fun collect_from :: "bytes \<Rightarrow> nat \<Rightarrow> (string + body_frame) list \<Rightarrow> engine_error + bytes" where
  "collect_from got limit [] = Inr got"
| "collect_from got limit (Inl e # fs) = Inl (ETransport e)"
| "collect_from got limit (Inr Trailers # fs) = collect_from got limit fs"
| "collect_from got limit (Inr (Data d) # fs) =
     (if length got + length d > limit then Inl (ERoute ''server response is too large'')
      else collect_from (got @ d) limit fs)"

definition collect_bounded :: "(string + body_frame) list \<Rightarrow> nat \<Rightarrow> engine_error + bytes" where
  "collect_bounded body limit = collect_from [] limit body"

section \<open>The allowlist\<close>

datatype request_body = Json | Octets | Empty

datatype blob_response = Upload | Download "32 arr" | Delete

datatype response_body = RJson | RJsonOrEmptyRefusal | RWitnessReceipt | RBlob blob_response

record http_route =
  body_kind :: request_body
  max_body_bytes :: nat
  nostr_authorization :: bool
  response_kind :: response_body
  max_response_bytes :: nat

definition is_file :: "http_route \<Rightarrow> bool" where
  "is_file r = (case response_kind r of RBlob _ \<Rightarrow> True | _ \<Rightarrow> False)"

definition CADENCE_ROUTE :: http_route where
  "CADENCE_ROUTE =
     \<lparr>body_kind = Json, max_body_bytes = MAX_HTTP_BODY_BYTES, nostr_authorization = True,
      response_kind = RJson, max_response_bytes = MAX_HTTP_BODY_BYTES\<rparr>"

definition vmls_route :: "request_body \<Rightarrow> nat \<Rightarrow> http_route" where
  "vmls_route b n =
     \<lparr>body_kind = b,
      max_body_bytes = (case b of Json \<Rightarrow> MAX_VMLS_JSON_BYTES | Octets \<Rightarrow> MAX_VMLS_ENVELOPE_BYTES | Empty \<Rightarrow> 0),
      nostr_authorization = True, response_kind = RJsonOrEmptyRefusal, max_response_bytes = n\<rparr>"

definition WITNESS_ROUTE :: http_route where
  "WITNESS_ROUTE =
     \<lparr>body_kind = Octets, max_body_bytes = MAX_WITNESS_REQUEST_BYTES, nostr_authorization = False,
      response_kind = RWitnessReceipt, max_response_bytes = WITNESS_RECEIPT_BYTES\<rparr>"

definition lower_hex_32 :: "string \<Rightarrow> bool" where
  "lower_hex_32 v \<longleftrightarrow> length v = 64 \<and> list_all lower_hex v"

definition canonical_u32 :: "string \<Rightarrow> bool" where
  "canonical_u32 v \<longleftrightarrow>
     v \<noteq> [] \<and> (length v = 1 \<or> hd v \<noteq> CHR ''0'') \<and> list_all is_ascii_digit v \<and> number_value 10 v < 2 ^ 32"

datatype http_method = GET | POST | PUT | DELETE

definition blob_route :: "hex_lib \<Rightarrow> http_method \<Rightarrow> string \<Rightarrow> http_route option" where
  "blob_route hx m p =
     (if m = PUT \<and> p = ''/upload'' then
        Some \<lparr>body_kind = Octets, max_body_bytes = MAX_BLOB_BYTES, nostr_authorization = True,
              response_kind = RBlob Upload, max_response_bytes = MAX_HTTP_BODY_BYTES\<rparr>
      else case strip_prefix ''/'' p of
             None \<Rightarrow> None
           | Some hash \<Rightarrow>
               if \<not> lower_hex_32 hash then None
               else case Option.bind (hex_decode hx hash) to_arr of
                      None \<Rightarrow> None
                    | Some digest \<Rightarrow>
                        (case m of
                           GET \<Rightarrow>
                             Some \<lparr>body_kind = Empty, max_body_bytes = 0, nostr_authorization = False,
                                   response_kind = RBlob (Download digest), max_response_bytes = MAX_BLOB_BYTES\<rparr>
                         | DELETE \<Rightarrow>
                             Some \<lparr>body_kind = Empty, max_body_bytes = 0, nostr_authorization = True,
                                   response_kind = RBlob Delete, max_response_bytes = MAX_HTTP_BODY_BYTES\<rparr>
                         | _ \<Rightarrow> None))"

definition vmls_segments :: "http_method \<Rightarrow> string list \<Rightarrow> http_route option" where
  "vmls_segments m segs =
     (case (m, segs) of
        (PUT, [a, x, b]) \<Rightarrow>
          if a = ''mailboxes'' \<and> b = ''records'' \<and> lower_hex_32 x
          then Some (vmls_route Octets MAX_HTTP_BODY_BYTES)
          else if a = ''slots'' \<and> lower_hex_32 x \<and> canonical_u32 b
          then Some (vmls_route Octets MAX_HTTP_BODY_BYTES) else None
      | (POST, [a]) \<Rightarrow>
          if a = ''fetch'' then Some (vmls_route Json MAX_VMLS_FETCH_RESPONSE_BYTES)
          else if a = ''ack'' then Some (vmls_route Json MAX_HTTP_BODY_BYTES) else None
      | (PUT, [a, x]) \<Rightarrow>
          if a = ''packages'' \<and> lower_hex_32 x then Some (vmls_route Json MAX_HTTP_BODY_BYTES) else None
      | (DELETE, [a, x]) \<Rightarrow>
          if a = ''packages'' \<and> lower_hex_32 x then Some (vmls_route Empty MAX_HTTP_BODY_BYTES) else None
      | (POST, [a, x, n, b]) \<Rightarrow>
          if a = ''slots'' \<and> b = ''status'' \<and> lower_hex_32 x \<and> canonical_u32 n
          then Some (vmls_route Json MAX_VMLS_FETCH_RESPONSE_BYTES) else None
      | (GET, [a]) \<Rightarrow>
          if a = ''capabilities'' then Some (vmls_route Empty MAX_HTTP_BODY_BYTES) else None
      | _ \<Rightarrow> None)"

definition allowlisted :: "hex_lib \<Rightarrow> http_method \<Rightarrow> string \<Rightarrow> http_route option" where
  "allowlisted hx m p =
     (case blob_route hx m p of
        Some r \<Rightarrow> Some r
      | None \<Rightarrow>
          if strip_prefix ''/cadence/v1/'' p \<noteq> None then (if m = POST \<or> m = PUT then Some CADENCE_ROUTE else None)
          else if p = ''/vmls-witness/v1/read'' \<or> p = ''/vmls-witness/v1/advance''
          then (if m = POST then Some WITNESS_ROUTE else None)
          else case strip_prefix ''/vmls/v1/'' p of
                 None \<Rightarrow> None
               | Some rest \<Rightarrow> vmls_segments m (split_on CHR ''/'' rest))"

section \<open>Requests\<close>

record json_request =
  req_route_id :: string
  req_method :: string
  req_path :: string
  req_authorization :: string
  req_body :: bytes

definition method_of :: "string \<Rightarrow> http_method option" where
  "method_of m =
     (if m = ''GET'' then Some GET else if m = ''POST'' then Some POST
      else if m = ''PUT'' then Some PUT else if m = ''DELETE'' then Some DELETE else None)"

definition path_canonical :: "string \<Rightarrow> bool" where
  "path_canonical p \<longleftrightarrow>
     p \<noteq> [] \<and> length p \<le> MAX_HTTP_PATH_BYTES \<and> CHR ''?'' \<notin> set p \<and> CHR ''#'' \<notin> set p \<and> list_all is_ascii_graphic p"

definition is_base64 :: "char \<Rightarrow> bool" where
  "is_base64 c \<longleftrightarrow>
     is_ascii_digit c \<or> is_ascii_lowercase c \<or> (65 \<le> ascii c \<and> ascii c \<le> 90) \<or> c \<in> {CHR ''+'', CHR ''/'', CHR ''=''}"

definition authorization_error :: "http_route \<Rightarrow> string \<Rightarrow> string option" where
  "authorization_error r auth =
     (if nostr_authorization r then
        let encoded = (case strip_prefix ''Nostr '' auth of Some e \<Rightarrow> e | None \<Rightarrow> [])
        in if length auth > MAX_HTTP_AUTHORIZATION_BYTES \<or> encoded = [] \<or> \<not> list_all is_base64 encoded
           then Some ''authorization is not one bounded Nostr value'' else None
      else if auth \<noteq> [] then Some ''this route carries no authorization'' else None)"

definition validate_http_request_length ::
  "hex_lib \<Rightarrow> json_request \<Rightarrow> nat \<Rightarrow> engine_error + http_method \<times> http_route" where
  "validate_http_request_length hx q n =
     (case method_of (req_method q) of
        None \<Rightarrow> Inl (ERoute ''request method must be GET, POST, PUT or DELETE'')
      | Some m \<Rightarrow>
          if \<not> path_canonical (req_path q) then Inl (ERoute ''request path is not canonical'')
          else case allowlisted hx m (req_path q) of
                 None \<Rightarrow> Inl (ERoute ''request method and path are not allowlisted'')
               | Some r \<Rightarrow>
                   (case authorization_error r (req_authorization q) of
                      Some e \<Rightarrow> Inl (ERoute e)
                    | None \<Rightarrow>
                        if n > max_body_bytes r then Inl (ERoute ''request body is too large'')
                        else if response_kind r = RBlob Upload \<and> n = 0 then Inl (ERoute ''file upload body is empty'')
                        else Inr (m, r)))"

definition validate_http_request :: "hex_lib \<Rightarrow> json_request \<Rightarrow> engine_error + http_method \<times> http_route" where
  "validate_http_request hx q = validate_http_request_length hx q (length (req_body q))"

record outgoing =
  out_method :: http_method
  out_uri :: string
  out_headers :: "(string \<times> string) list"
  out_body :: bytes

text \<open>\<open>valid\<close> tells whether \<open>hyper\<close> accepts the URI and the header values.\<close>

definition outgoing_http_request ::
  "crypto \<Rightarrow> hex_lib \<Rightarrow> bool \<Rightarrow> json_request \<Rightarrow> http_method \<Rightarrow> http_route \<Rightarrow> node_id \<Rightarrow> engine_error + outgoing" where
  "outgoing_http_request cr hx valid q m r n =
     (let content = (case body_kind r of
                       Json \<Rightarrow> [(''content-type'', ''application/json'')]
                     | Octets \<Rightarrow>
                         (if response_kind r = RBlob Upload
                          then [(''x-sha-256'', hex_encode hx (bytes_of (sha256 cr (req_body q)))),
                                (''content-length'', number_text 10 (int (length (req_body q))))] else []) @
                         [(''content-type'', ''application/octet-stream'')]
                     | Empty \<Rightarrow> []);
          auth = (if nostr_authorization r then [(''authorization'', req_authorization q)] else [])
      in if valid
         then Inr \<lparr>out_method = m, out_uri = req_path q,
                   out_headers = [(''host'', to_base32 n)] @ content @ auth @ [(''connection'', ''close'')],
                   out_body = req_body q\<rparr>
         else Inl (ERoute ''invalid request''))"

section \<open>Responses\<close>

definition get_all :: "string \<Rightarrow> http_response \<Rightarrow> (bytes \<times> string option) list" where
  "get_all name resp = map snd (filter (\<lambda>h. fst h = name) (http_headers resp))"

definition is_success :: "nat \<Rightarrow> bool" where "is_success s \<longleftrightarrow> 200 \<le> s \<and> s < 300"
definition is_redirection :: "nat \<Rightarrow> bool" where "is_redirection s \<longleftrightarrow> 300 \<le> s \<and> s < 400"

definition is_witness_refusal :: "http_route \<Rightarrow> http_response \<Rightarrow> bool" where
  "is_witness_refusal r resp \<longleftrightarrow>
     response_kind r = RWitnessReceipt \<and> http_status resp = 403 \<and>
     (case get_all ''vmls-witness'' resp of [(v, _)] \<Rightarrow> v = as_bytes ''refused'' | _ \<Rightarrow> False)"

text \<open>\<open>str::trim\<close>, on the characters of one byte.\<close>

definition is_space :: "char \<Rightarrow> bool" where
  "is_space c \<longleftrightarrow> ascii c = 32 \<or> (9 \<le> ascii c \<and> ascii c \<le> 13)"

definition trim :: "string \<Rightarrow> string" where
  "trim s = rev (dropWhile is_space (rev (dropWhile is_space s)))"

definition media_type :: "string \<Rightarrow> string" where
  "media_type v = to_ascii_lowercase (trim (takeWhile (\<lambda>c. c \<noteq> CHR '';'') v))"

definition one_header :: "string \<Rightarrow> http_response \<Rightarrow> engine_error + string option" where
  "one_header name resp =
     (case get_all name resp of
        [] \<Rightarrow> Inr None
      | [(_, Some t)] \<Rightarrow> Inr (Some t)
      | [(_, None)] \<Rightarrow> Inl (ERoute ''file response header is not text'')
      | _ \<Rightarrow> Inl (ERoute ''file response header is ambiguous''))"

text \<open>The declared length of a download.\<close>

definition exact_length :: "http_response \<Rightarrow> engine_error + nat" where
  "exact_length resp =
     (case one_header ''content-length'' resp of
        Inl e \<Rightarrow> Inl e
      | Inr None \<Rightarrow> Inl (ERoute ''file response has no length'')
      | Inr (Some t) \<Rightarrow>
          if t = [] \<or> \<not> list_all is_ascii_digit t \<or> number_value 10 t \<ge> 2 ^ 64
          then Inl (ERoute ''file response length is invalid'')
          else if number_text 10 (number_value 10 t) \<noteq> t then Inl (ERoute ''file response length is not canonical'')
          else if number_value 10 t > int MAX_BLOB_BYTES then Inl (ERoute ''file response is too large'')
          else Inr (nat (number_value 10 t)))"

definition decode_download :: "crypto \<Rightarrow> http_response \<Rightarrow> string \<Rightarrow> 32 arr \<Rightarrow> engine_error + nat \<times> bytes" where
  "decode_download cr resp media digest =
     (if media \<noteq> LEGACY_ENCRYPTED_MEDIA_TYPE \<and> media \<noteq> ''application/octet-stream''
      then Inl (ERoute ''file response is not encrypted or opaque bytes'')
      else if get_all ''transfer-encoding'' resp \<noteq> [] then Inl (ERoute ''file response must use an exact length'')
      else case exact_length resp of
             Inl e \<Rightarrow> Inl e
           | Inr len \<Rightarrow>
               (case collect_bounded (http_body resp) len of
                  Inl e \<Rightarrow> Inl e
                | Inr body \<Rightarrow>
                    if length body \<noteq> len \<or> sha256 cr body \<noteq> digest
                    then Inl (ERoute ''file response length or digest does not match'')
                    else Inr (http_status resp, body)))"

definition blob_headers :: "http_response \<Rightarrow> engine_error + string" where
  "blob_headers resp =
     (if get_all ''content-range'' resp \<noteq> [] then Inl (ERoute ''file response must not contain a range'')
      else case one_header ''content-encoding'' resp of
             Inl e \<Rightarrow> Inl e
           | Inr enc \<Rightarrow>
               if (case enc of Some v \<Rightarrow> to_ascii_lowercase v \<noteq> ''identity'' | None \<Rightarrow> False)
               then Inl (ERoute ''file response must not be encoded'')
               else case one_header ''content-type'' resp of
                      Inl e \<Rightarrow> Inl e
                    | Inr t \<Rightarrow> Inr (media_type (case_option [] id t)))"

definition blob_decode :: "crypto \<Rightarrow> http_response \<Rightarrow> blob_response \<Rightarrow> engine_error + nat \<times> bytes" where
  "blob_decode cr resp kind =
     (let st = http_status resp
      in if \<not> is_success st then
           map_sum id (\<lambda>_. (st, [])) (collect_bounded (http_body resp) MAX_DISCARDED_REFUSAL_BYTES)
         else if \<not> (st = 200 \<or> kind = Upload \<and> st = 201) then Inl (ERoute ''unexpected file response status'')
         else case blob_headers resp of
                Inl e \<Rightarrow> Inl e
              | Inr media \<Rightarrow>
                  (case kind of
                     Download digest \<Rightarrow> decode_download cr resp media digest
                   | _ \<Rightarrow>
                       if media \<noteq> ''application/json'' then Inl (ERoute ''file result is not JSON'')
                       else map_sum id (\<lambda>b. (st, b)) (collect_bounded (http_body resp) MAX_HTTP_BODY_BYTES)))"

definition expected_type :: "response_body \<Rightarrow> string" where
  "expected_type k = (if k = RWitnessReceipt then ''application/octet-stream'' else ''application/json'')"

definition content_type :: "http_response \<Rightarrow> string option" where
  "content_type resp =
     (case get_all ''content-type'' resp of (_, Some t) # _ \<Rightarrow> Some (media_type t) | _ \<Rightarrow> None)"

definition decode_http_response :: "crypto \<Rightarrow> http_response \<Rightarrow> http_route \<Rightarrow> engine_error + nat \<times> bytes" where
  "decode_http_response cr resp r =
     (let st = http_status resp
      in if is_redirection st then Inl (ERoute ''response must not redirect'')
         else case response_kind r of
                RBlob kind \<Rightarrow> blob_decode cr resp kind
              | k \<Rightarrow>
                  let typed = (content_type resp = Some (expected_type k) \<and>
                               (k \<noteq> RWitnessReceipt \<or> st \<in> {200, 409, 410}))
                  in if \<not> typed then
                       (if k = RJson \<or> is_success st then Inl (ERoute ''response is not the expected type'')
                        else map_sum id (\<lambda>_. (st, [])) (collect_bounded (http_body resp) MAX_DISCARDED_REFUSAL_BYTES))
                     else case collect_bounded (http_body resp) (max_response_bytes r) of
                            Inl e \<Rightarrow> Inl e
                          | Inr body \<Rightarrow>
                              if k = RWitnessReceipt \<and> length body \<noteq> WITNESS_RECEIPT_BYTES
                              then Inl (ERoute ''witness receipt is not 170 bytes'')
                              else Inr (st, body))"

section \<open>Enrolment frames\<close>

interpretation route_frames: codec route_frame "\<lambda>f. result_ok (route_card f)" "\<lambda>c. length c \<le> MAX_CARD_BYTES"
proof
  fix c :: bytes
  assume "length c \<le> MAX_CARD_BYTES"
  then have n: "unat (word_of_nat (length c) :: u16) = length c"
    by (simp add: unat_of_nat MAX_CARD_BYTES_def)
  obtain a b where ab: "to_be (word_of_nat (length c) :: u16) = [a, b]"
    using to_be_u16_pair by blast
  then have "(from_be [a, b] :: u16) = word_of_nat (length c)" by (simp add: to_be_u16_iff)
  then show "result_ok (route_card (route_frame c)) = Some c"
    using \<open>length c \<le> MAX_CARD_BYTES\<close> n ab
    by (simp add: route_card_def route_frame_def ROUTE_PREFIX_BYTES_def ROUTE_MAGIC_def as_bytes_def Let_def)
next
  fix f c
  assume "result_ok (route_card f) = Some c"
  then have r: "route_card f = Inr c" by simp
  then have len: "6 \<le> length f" and magic: "take 4 f = ROUTE_MAGIC"
      and c: "c = drop 6 f" "unat (from_be [f ! 4, f ! 5] :: u16) = length c" "length c \<le> MAX_CARD_BYTES"
    by (auto simp: route_card_def ROUTE_PREFIX_BYTES_def Let_def split: if_splits)
  have "(word_of_nat (length c) :: u16) = from_be [f ! 4, f ! 5]"
    unfolding c(2) [symmetric] by simp
  then have "to_be (word_of_nat (length c) :: u16) = [f ! 4, f ! 5]"
    by (simp add: to_be_u16_iff)
  moreover have "f = take 4 f @ [f ! 4, f ! 5] @ drop 6 f"
  proof -
    have "drop 4 f = f ! 4 # drop 5 f" "drop 5 f = f ! 5 # drop 6 f"
      using Cons_nth_drop_Suc [of 4 f] Cons_nth_drop_Suc [of 5 f] len by simp_all
    then show ?thesis using append_take_drop_id [of 4 f] by simp
  qed
  ultimately show "length c \<le> MAX_CARD_BYTES \<and> route_frame c = f"
    using c magic by (simp add: route_frame_def)
qed

lemma pairing_lifetime_bounds:
  "pairing_lifetime expires t = Inr n \<Longrightarrow> 0 < n \<and> n \<le> 600 \<and> n \<le> unat expires - unat t"
  by (auto simp: pairing_lifetime_def MAX_PAIRING_LIFETIME_def word_le_nat_alt unat_sub split: if_splits)

section \<open>Bounded bodies\<close>

lemma collect_from_bound:
  "collect_from got limit fs = Inr b \<Longrightarrow> length got \<le> limit \<Longrightarrow> length b \<le> limit"
  by (induction got limit fs rule: collect_from.induct) (auto split: if_splits)

lemma collect_bounded_bound: "collect_bounded fs limit = Inr b \<Longrightarrow> length b \<le> limit"
  by (simp add: collect_bounded_def collect_from_bound)

text \<open>What a successful download satisfies.\<close>

lemma decode_download_sound:
  assumes "decode_download cr resp media digest = Inr (st, body)"
  shows "st = http_status resp \<and> sha256 cr body = digest \<and> length body \<le> MAX_BLOB_BYTES"
proof -
  obtain len where len: "exact_length resp = Inr len" "length body = len" "sha256 cr body = digest" "st = http_status resp"
    using assms by (auto simp: decode_download_def split: if_splits sum.splits)
  have "len \<le> MAX_BLOB_BYTES"
    using len(1) by (auto simp: exact_length_def split: if_splits sum.splits option.splits)
  then show ?thesis using len by simp
qed

lemma blob_route_facts:
  assumes "blob_route hx m p = Some r" "hex_correct hx"
  shows "response_kind r = RBlob Upload \<and> max_response_bytes r = MAX_HTTP_BODY_BYTES \<or>
    response_kind r = RBlob Delete \<and> max_response_bytes r = MAX_HTTP_BODY_BYTES \<or>
    (\<exists>d. response_kind r = RBlob (Download d) \<and> max_response_bytes r = MAX_BLOB_BYTES \<and>
       p = ''/'' @ hex_encode hx (bytes_of d))"
proof (cases "m = PUT \<and> p = ''/upload''")
  case True
  then show ?thesis using assms by (auto simp: blob_route_def)
next
  case False
  then obtain hash b d where h: "p = ''/'' @ hash" "lower_hex_32 hash" "hex_decode hx hash = Some b" "to_arr b = Some d"
      and r: "m = GET \<and> response_kind r = RBlob (Download d) \<and> max_response_bytes r = MAX_BLOB_BYTES \<or>
        m = DELETE \<and> response_kind r = RBlob Delete \<and> max_response_bytes r = MAX_HTTP_BODY_BYTES"
    using assms(1)
    by (auto simp: blob_route_def strip_prefix_eq_Some bind_eq_Some_conv
        split: if_splits option.splits http_method.splits)
  have "list_all lower_hex hash \<and> even (length hash)" using h(2) by (simp add: lower_hex_32_def)
  then have "hex_encode hx b = hash" using assms(2) h(3) unfolding hex_correct_def by fastforce
  then show ?thesis using h r by auto
qed

lemma allowlisted_blob:
  assumes "allowlisted hx m p = Some r" "response_kind r = RBlob k"
  shows "blob_route hx m p = Some r"
proof (cases "blob_route hx m p")
  case None
  have "vmls_segments m segs = Some r \<Longrightarrow> response_kind r = RJsonOrEmptyRefusal" for segs
    by (auto simp: vmls_segments_def vmls_route_def split: http_method.splits list.splits if_splits)
  then show ?thesis
    using assms None
    by (auto simp: allowlisted_def CADENCE_ROUTE_def WITNESS_ROUTE_def split: if_splits option.splits)
next
  case (Some r')
  then show ?thesis using assms(1) by (simp add: allowlisted_def)
qed

lemma map_sum_Inr: "map_sum id f x = Inr y \<longleftrightarrow> (\<exists>z. x = Inr z \<and> y = f z)"
  by (cases x) auto

lemma blob_decode_sound:
  assumes "blob_decode cr resp k = Inr (st, body)"
  shows "st = http_status resp \<and> (\<not> is_success st \<longrightarrow> body = []) \<and>
    (is_success st \<longrightarrow> (case k of Download d \<Rightarrow> sha256 cr body = d \<and> length body \<le> MAX_BLOB_BYTES
                                 | _ \<Rightarrow> length body \<le> MAX_HTTP_BODY_BYTES))"
  using assms decode_download_sound [of cr resp] collect_bounded_bound [of "http_body resp"]
  by (auto simp: blob_decode_def Let_def map_sum_Inr split: if_splits sum.splits blob_response.splits)

lemma decode_http_sound:
  assumes "decode_http_response cr resp r = Inr (st, body)" "\<forall>k. response_kind r \<noteq> RBlob k"
  shows "st = http_status resp \<and> length body \<le> max_response_bytes r \<and>
    (response_kind r = RWitnessReceipt \<longrightarrow> body = [] \<or> length body = 170 \<and> st \<in> {200, 409, 410})"
proof -
  have "st = http_status resp \<and> (body = [] \<or> collect_bounded (http_body resp) (max_response_bytes r) = Inr body \<and>
      (response_kind r = RWitnessReceipt \<longrightarrow> length body = 170 \<and> st \<in> {200, 409, 410}))"
    using assms
    by (cases "response_kind r")
      (auto simp: decode_http_response_def Let_def map_sum_Inr WITNESS_RECEIPT_BYTES_def
        split: if_splits sum.splits)
  then show ?thesis using collect_bounded_bound by fastforce
qed

text \<open>C27: an application gets only bounded, expected answers. Of a response to an allowlisted request it
  sees the status the peer sent, never a redirect, and at most the bytes the route allows; a file it
  downloads has the digest its path names; a witness answer is a receipt of 170 bytes or nothing.\<close>

theorem responses_bounded:
  assumes "hex_correct hx" "allowlisted hx m p = Some r" "decode_http_response cr resp r = Inr (st, body)"
  shows "st = http_status resp \<and> \<not> is_redirection st \<and> length body \<le> max_response_bytes r \<and>
    (m = GET \<and> is_file r \<and> is_success st \<longrightarrow> p = ''/'' @ hex_encode hx (bytes_of (sha256 cr body))) \<and>
    (response_kind r = RWitnessReceipt \<longrightarrow> body = [] \<or> length body = 170 \<and> st \<in> {200, 409, 410})"
proof -
  have redirect: "\<not> is_redirection (http_status resp)"
    using assms(3) by (auto simp: decode_http_response_def Let_def split: if_splits)
  show ?thesis
  proof (cases "\<exists>k. response_kind r = RBlob k")
    case False
    then show ?thesis using decode_http_sound [OF assms(3)] redirect by (auto simp: is_file_def split: response_body.splits)
  next
    case True
    then obtain k where k: "response_kind r = RBlob k" by blast
    have b: "blob_route hx m p = Some r" by (rule allowlisted_blob [OF assms(2) k])
    have "blob_decode cr resp k = Inr (st, body)"
      using assms(3) k redirect by (simp add: decode_http_response_def Let_def)
    moreover have "m = GET \<Longrightarrow> \<exists>d. k = Download d"
      using b k by (auto simp: blob_route_def split: if_splits option.splits)
    ultimately show ?thesis
      using blob_decode_sound [of cr resp k st body] blob_route_facts [OF b assms(1)] k redirect
      by (cases "is_success st") auto
  qed
qed

theorem responses_bounded_witness:
  "let resp = \<lparr>http_status = 200, http_headers = [(''content-type'', [], Some ''application/json; charset=utf-8'')],
              http_body = [Inr (Data [123]), Inr Trailers, Inr (Data [125])]\<rparr>
   in allowlisted plain_hex POST ''/cadence/v1/status'' = Some CADENCE_ROUTE \<and>
      decode_http_response plain_crypto resp CADENCE_ROUTE = Inr (200, [123, 125]) \<and>
      length [123, 125 :: u8] \<le> max_response_bytes CADENCE_ROUTE"
proof -
  let ?resp = "\<lparr>http_status = 200, http_headers = [(''content-type'', [], Some ''application/json; charset=utf-8'')],
      http_body = [Inr (Data [123]), Inr Trailers, Inr (Data [125])]\<rparr>"
  have r: "allowlisted plain_hex POST ''/cadence/v1/status'' = Some CADENCE_ROUTE"
    by (simp add: allowlisted_def blob_route_def strip_prefix_def lower_hex_32_def)
  have "media_type ''application/json; charset=utf-8'' = ''application/json''" by code_simp
  then have d: "decode_http_response plain_crypto ?resp CADENCE_ROUTE = Inr (200, [123, 125])"
    by (simp add: decode_http_response_def is_redirection_def CADENCE_ROUTE_def content_type_def get_all_def
        expected_type_def collect_bounded_def MAX_HTTP_BODY_BYTES_def)
  show ?thesis
    using responses_bounded [OF plain_hex_correct r d] r d by simp
qed

section \<open>The allowlist as it is documented\<close>

text \<open>One rule for each request an application may send.\<close>

inductive allowed :: "hex_lib \<Rightarrow> http_method \<Rightarrow> string \<Rightarrow> http_route \<Rightarrow> bool" for hx where
  upload: "allowed hx PUT ''/upload'' \<lparr>body_kind = Octets, max_body_bytes = MAX_BLOB_BYTES,
    nostr_authorization = True, response_kind = RBlob Upload, max_response_bytes = MAX_HTTP_BODY_BYTES\<rparr>"
| download: "allowed hx GET (''/'' @ hex_encode hx (bytes_of (d :: 32 arr))) \<lparr>body_kind = Empty, max_body_bytes = 0,
    nostr_authorization = False, response_kind = RBlob (Download d), max_response_bytes = MAX_BLOB_BYTES\<rparr>"
| delete: "allowed hx DELETE (''/'' @ hex_encode hx (bytes_of (d :: 32 arr))) \<lparr>body_kind = Empty, max_body_bytes = 0,
    nostr_authorization = True, response_kind = RBlob Delete, max_response_bytes = MAX_HTTP_BODY_BYTES\<rparr>"
| cadence: "m \<in> {POST, PUT} \<Longrightarrow> allowed hx m (''/cadence/v1/'' @ rest) CADENCE_ROUTE"
| witness: "w \<in> {''read'', ''advance''} \<Longrightarrow> allowed hx POST (''/vmls-witness/v1/'' @ w) WITNESS_ROUTE"
| records: "lower_hex_32 x \<Longrightarrow>
    allowed hx PUT (''/vmls/v1/mailboxes/'' @ x @ ''/records'') (vmls_route Octets MAX_HTTP_BODY_BYTES)"
| fetch: "allowed hx POST ''/vmls/v1/fetch'' (vmls_route Json MAX_VMLS_FETCH_RESPONSE_BYTES)"
| ack: "allowed hx POST ''/vmls/v1/ack'' (vmls_route Json MAX_HTTP_BODY_BYTES)"
| put_package: "lower_hex_32 x \<Longrightarrow> allowed hx PUT (''/vmls/v1/packages/'' @ x) (vmls_route Json MAX_HTTP_BODY_BYTES)"
| delete_package: "lower_hex_32 x \<Longrightarrow>
    allowed hx DELETE (''/vmls/v1/packages/'' @ x) (vmls_route Empty MAX_HTTP_BODY_BYTES)"
| slot: "lower_hex_32 x \<Longrightarrow> canonical_u32 n \<Longrightarrow>
    allowed hx PUT (''/vmls/v1/slots/'' @ x @ ''/'' @ n) (vmls_route Octets MAX_HTTP_BODY_BYTES)"
| slot_status: "lower_hex_32 x \<Longrightarrow> canonical_u32 n \<Longrightarrow>
    allowed hx POST (''/vmls/v1/slots/'' @ x @ ''/'' @ n @ ''/status'') (vmls_route Json MAX_VMLS_FETCH_RESPONSE_BYTES)"
| capabilities: "allowed hx GET ''/vmls/v1/capabilities'' (vmls_route Empty MAX_HTTP_BODY_BYTES)"

lemma split_on_nonempty: "split_on c s \<noteq> []"
  by (induction s) (auto split: list.splits)

lemma join_split_on: "join_with [c] (split_on c s) = s"
proof (induction s)
  case (Cons x xs)
  then show ?case
    using split_on_nonempty [of c xs] by (cases "split_on c xs"; cases "tl (split_on c xs)") auto
qed simp

lemma split_on_plain: "c \<notin> set s \<Longrightarrow> split_on c s = [s]"
  by (induction s) auto

lemma split_on_append: "c \<notin> set s \<Longrightarrow> split_on c (s @ c # t) = s # split_on c t"
  by (induction s) auto

lemma lower_hex_32_slash: "lower_hex_32 x \<Longrightarrow> CHR ''/'' \<notin> set x"
  using lower_hex_not_separator by (auto simp: lower_hex_32_def list_all_iff)

lemma canonical_u32_slash: "canonical_u32 n \<Longrightarrow> CHR ''/'' \<notin> set n"
  using digit_url_char by (auto simp: canonical_u32_def list_all_iff)

text \<open>A path with a character that is no hexadecimal digit after the slash is no file path.\<close>

lemma blob_route_None:
  assumes "c \<in> set s" "c \<notin> set HEX_DIGITS" "s \<noteq> ''upload''"
  shows "blob_route hx m (CHR ''/'' # s) = None"
  using assms by (auto simp: blob_route_def strip_prefix_def lower_hex_32_def list_all_iff lower_hex_def)

lemma blob_route_sound:
  assumes "blob_route hx m p = Some r" "hex_correct hx"
  shows "allowed hx m p r"
proof (cases "m = PUT \<and> p = ''/upload''")
  case True
  then show ?thesis using assms allowed.upload by (auto simp: blob_route_def)
next
  case False
  then have "\<exists>hash b d. p = ''/'' @ hash \<and> lower_hex_32 hash \<and> hex_decode hx hash = Some b \<and> to_arr b = Some (d :: 32 arr)"
    using assms(1)
    by (auto simp: blob_route_def strip_prefix_eq_Some bind_eq_Some_conv split: if_splits option.splits http_method.splits)
  then obtain hash b and d :: "32 arr"
    where h: "p = ''/'' @ hash" "lower_hex_32 hash" "hex_decode hx hash = Some b" "to_arr b = Some d"
    by blast
  have "list_all lower_hex hash \<and> even (length hash)" using h(2) by (simp add: lower_hex_32_def)
  then have e: "hex_encode hx b = hash" using assms(2) h(3) unfolding hex_correct_def by fastforce
  have "bytes_of d = b" using h(4) by auto
  then have "p = ''/'' @ hex_encode hx (bytes_of d)" using e h(1) by simp
  moreover have "(case m of
      GET \<Rightarrow> Some \<lparr>body_kind = Empty, max_body_bytes = 0, nostr_authorization = False,
               response_kind = RBlob (Download d), max_response_bytes = MAX_BLOB_BYTES\<rparr>
    | DELETE \<Rightarrow> Some \<lparr>body_kind = Empty, max_body_bytes = 0, nostr_authorization = True,
               response_kind = RBlob Delete, max_response_bytes = MAX_HTTP_BODY_BYTES\<rparr>
    | _ \<Rightarrow> None) = Some r"
    using assms(1) False h by (auto simp: blob_route_def strip_prefix_def)
  ultimately show ?thesis using allowed.download allowed.delete by (cases m) auto
qed

lemma vmls_path:
  assumes "split_on CHR ''/'' rest = segs"
  shows "''/vmls/v1/'' @ rest = ''/vmls/v1/'' @ join_with ''/'' segs"
  using join_split_on [of "CHR ''/''" rest] assms by simp

lemma vmls_segments_sound:
  assumes "vmls_segments m segs = Some r"
  shows "allowed hx m (''/vmls/v1/'' @ join_with ''/'' segs) r"
proof -
  consider x where "m = PUT" "segs = [''mailboxes'', x, ''records'']" "lower_hex_32 x" "r = vmls_route Octets MAX_HTTP_BODY_BYTES"
    | x n where "m = PUT" "segs = [''slots'', x, n]" "lower_hex_32 x" "canonical_u32 n" "r = vmls_route Octets MAX_HTTP_BODY_BYTES"
    | "m = POST" "segs = [''fetch'']" "r = vmls_route Json MAX_VMLS_FETCH_RESPONSE_BYTES"
    | "m = POST" "segs = [''ack'']" "r = vmls_route Json MAX_HTTP_BODY_BYTES"
    | x where "m = PUT" "segs = [''packages'', x]" "lower_hex_32 x" "r = vmls_route Json MAX_HTTP_BODY_BYTES"
    | x where "m = DELETE" "segs = [''packages'', x]" "lower_hex_32 x" "r = vmls_route Empty MAX_HTTP_BODY_BYTES"
    | x n where "m = POST" "segs = [''slots'', x, n, ''status'']" "lower_hex_32 x" "canonical_u32 n"
        "r = vmls_route Json MAX_VMLS_FETCH_RESPONSE_BYTES"
    | "m = GET" "segs = [''capabilities'']" "r = vmls_route Empty MAX_HTTP_BODY_BYTES"
    using assms unfolding vmls_segments_def
    by (simp split: http_method.splits list.splits if_splits)
  then show ?thesis
    by cases (use allowed.intros [where hx = hx] in simp_all)
qed

lemma allowlisted_sound:
  assumes "allowlisted hx m p = Some r" "hex_correct hx"
  shows "allowed hx m p r"
proof (cases "blob_route hx m p")
  case None
  consider rest where "p = ''/cadence/v1/'' @ rest" "m \<in> {POST, PUT}" "r = CADENCE_ROUTE"
    | w where "p = ''/vmls-witness/v1/'' @ w" "w \<in> {''read'', ''advance''}" "m = POST" "r = WITNESS_ROUTE"
    | rest where "p = ''/vmls/v1/'' @ rest" "vmls_segments m (split_on CHR ''/'' rest) = Some r"
    using assms(1) None
    by (auto simp: allowlisted_def strip_prefix_eq_Some split: if_splits option.splits)
  then show ?thesis
  proof cases
    case 1
    then show ?thesis using allowed.cadence by blast
  next
    case 2
    then show ?thesis using allowed.witness by blast
  next
    case 3
    then show ?thesis using vmls_segments_sound vmls_path [OF refl, of rest] by metis
  qed
next
  case (Some r')
  then show ?thesis using assms blob_route_sound by (simp add: allowlisted_def)
qed

lemma blob_route_of_hash:
  fixes d :: "32 arr"
  assumes "hex_correct hx" "p = ''/'' @ hex_encode hx (bytes_of d)" "m \<in> {GET, DELETE}"
  shows "blob_route hx m p =
    Some (if m = GET
          then \<lparr>body_kind = Empty, max_body_bytes = 0, nostr_authorization = False,
                response_kind = RBlob (Download d), max_response_bytes = MAX_BLOB_BYTES\<rparr>
          else \<lparr>body_kind = Empty, max_body_bytes = 0, nostr_authorization = True,
                response_kind = RBlob Delete, max_response_bytes = MAX_HTTP_BODY_BYTES\<rparr>)"
proof -
  let ?h = "hex_encode hx (bytes_of d)"
  have "length ?h = 64" "list_all lower_hex ?h" "hex_decode hx ?h = Some (bytes_of d)"
    using assms(1) by (simp_all add: hex_correct_def)
  moreover have "strip_prefix ''/'' p = Some ?h" using assms(2) by (simp add: strip_prefix_def)
  ultimately show ?thesis using assms(3) by (auto simp: blob_route_def lower_hex_32_def)
qed

lemma vmls_allowlisted:
  assumes "split_on CHR ''/'' rest = segs"
  shows "allowlisted hx m (''/vmls/v1/'' @ rest) = vmls_segments m segs"
proof -
  have "blob_route hx m (CHR ''/'' # ''vmls/v1/'' @ rest) = None"
    by (rule blob_route_None [of "CHR ''v''"]) (simp_all add: HEX_DIGITS_def)
  then show ?thesis using assms by (simp add: allowlisted_def strip_prefix_def)
qed

lemma allowlisted_complete:
  assumes "allowed hx m p r" "hex_correct hx"
  shows "allowlisted hx m p = Some r"
  using assms(1)
proof cases
  case upload
  then show ?thesis by (simp add: allowlisted_def blob_route_def)
next
  case (download d)
  then show ?thesis using blob_route_of_hash [OF assms(2) download(2)] by (simp add: allowlisted_def)
next
  case (delete d)
  then show ?thesis using blob_route_of_hash [OF assms(2) delete(2)] by (simp add: allowlisted_def)
next
  case (cadence rest)
  have "blob_route hx m (CHR ''/'' # ''cadence/v1/'' @ rest) = None"
    by (rule blob_route_None [of "CHR ''v''"]) (simp_all add: HEX_DIGITS_def)
  then show ?thesis using cadence by (auto simp: allowlisted_def strip_prefix_def)
next
  case (witness w)
  have "blob_route hx m (CHR ''/'' # ''vmls-witness/v1/'' @ w) = None"
    by (rule blob_route_None [of "CHR ''v''"]) (simp_all add: HEX_DIGITS_def)
  then show ?thesis using witness by (auto simp: allowlisted_def strip_prefix_def)
next
  case (records x)
  have "split_on CHR ''/'' (''mailboxes/'' @ x @ ''/records'') = [''mailboxes'', x, ''records'']"
    using split_on_append [OF lower_hex_32_slash [OF records(4)], of "''records''"] by simp
  from vmls_allowlisted [OF this] show ?thesis using records by (simp add: vmls_segments_def)
next
  case fetch
  then show ?thesis using vmls_allowlisted [of "''fetch''", OF refl] by (simp add: vmls_segments_def)
next
  case ack
  then show ?thesis using vmls_allowlisted [of "''ack''", OF refl] by (simp add: vmls_segments_def)
next
  case (put_package x)
  have "split_on CHR ''/'' (''packages/'' @ x) = [''packages'', x]"
    using split_on_plain [OF lower_hex_32_slash [OF put_package(4)]] by simp
  from vmls_allowlisted [OF this] show ?thesis using put_package by (simp add: vmls_segments_def)
next
  case (delete_package x)
  have "split_on CHR ''/'' (''packages/'' @ x) = [''packages'', x]"
    using split_on_plain [OF lower_hex_32_slash [OF delete_package(4)]] by simp
  from vmls_allowlisted [OF this] show ?thesis using delete_package by (simp add: vmls_segments_def)
next
  case (slot x n)
  have "split_on CHR ''/'' (''slots/'' @ x @ ''/'' @ n) = [''slots'', x, n]"
    using split_on_append [OF lower_hex_32_slash [OF slot(4)], of n]
      split_on_plain [OF canonical_u32_slash [OF slot(5)]] by simp
  moreover have "n = ''records'' \<longrightarrow> \<not> canonical_u32 n" by (auto simp: canonical_u32_def is_ascii_digit_def ascii_def)
  ultimately show ?thesis using vmls_allowlisted slot by (fastforce simp: vmls_segments_def)
next
  case (slot_status x n)
  have "split_on CHR ''/'' (''slots/'' @ x @ ''/'' @ n @ ''/status'') = [''slots'', x, n, ''status'']"
    using split_on_append [OF lower_hex_32_slash [OF slot_status(4)], of "n @ ''/status''"]
      split_on_append [OF canonical_u32_slash [OF slot_status(5)], of "''status''"] by simp
  from vmls_allowlisted [OF this] show ?thesis using slot_status by (simp add: vmls_segments_def)
next
  case capabilities
  then show ?thesis using vmls_allowlisted [of "''capabilities''", OF refl] by (simp add: vmls_segments_def)
qed

text \<open>C26: the requests the engine sends are exactly the documented ones: a request validates with a
  method and a route if and only if its method is named, its path is canonical, the pair has one of the
  documented forms with that route, its authorization is what the form carries, and its body is within the
  form's bound and, for an upload, not empty.\<close>

theorem allowlist_is_exact:
  assumes "hex_correct hx"
  shows "validate_http_request hx q = Inr (m, r) \<longleftrightarrow>
    method_of (req_method q) = Some m \<and> path_canonical (req_path q) \<and> allowed hx m (req_path q) r \<and>
    authorization_error r (req_authorization q) = None \<and> length (req_body q) \<le> max_body_bytes r \<and>
    (response_kind r = RBlob Upload \<longrightarrow> req_body q \<noteq> [])"
proof -
  have "allowlisted hx m' p = Some r \<longleftrightarrow> allowed hx m' p r" for m' p
    using allowlisted_sound allowlisted_complete assms by blast
  then have a: "allowed hx m (req_path q) r \<longleftrightarrow> allowlisted hx m (req_path q) = Some r" by simp
  show ?thesis
    unfolding a validate_http_request_def validate_http_request_length_def
    by (auto split: option.splits if_splits)
qed

theorem allowlist_is_exact_witness:
  "let q = \<lparr>req_route_id = ''home'', req_method = ''PUT'', req_path = ''/upload'',
            req_authorization = ''Nostr YQ=='', req_body = [1]\<rparr>
   in \<exists>r. allowed plain_hex PUT ''/upload'' r \<and> validate_http_request plain_hex q = Inr (PUT, r)"
proof -
  let ?q = "\<lparr>req_route_id = ''home'', req_method = ''PUT'', req_path = ''/upload'',
      req_authorization = ''Nostr YQ=='', req_body = [1 :: u8]\<rparr>"
  let ?r = "\<lparr>body_kind = Octets, max_body_bytes = MAX_BLOB_BYTES, nostr_authorization = True,
      response_kind = RBlob Upload, max_response_bytes = MAX_HTTP_BODY_BYTES\<rparr>"
  have "list_all is_base64 ''YQ==''" "list_all is_ascii_graphic ''/upload''" by code_simp+
  then have "authorization_error ?r (req_authorization ?q) = None \<and> path_canonical (req_path ?q) \<and>
      method_of (req_method ?q) = Some PUT"
    by (simp add: authorization_error_def strip_prefix_def MAX_HTTP_AUTHORIZATION_BYTES_def path_canonical_def
        MAX_HTTP_PATH_BYTES_def method_of_def)
  moreover have "allowed plain_hex PUT ''/upload'' ?r" by (rule allowed.upload)
  ultimately have "validate_http_request plain_hex ?q = Inr (PUT, ?r)"
    by (simp add: allowlist_is_exact [OF plain_hex_correct] MAX_BLOB_BYTES_def)
  then show ?thesis using allowed.upload by auto
qed

end
