(* ===== verification/Engine.thy ===== *)
theory Engine
  imports Engine_Http
begin

text \<open>
  The engine of \<open>link-engine/src/lib.rs\<close>: the table of paired routes behind its lock, the cached session of
  each route, the stop signal outside the lock and the one file reservation, with every call of \<open>Engine\<close>.

  A session is shared by the engine, its sockets and its callers, so the state keeps the sessions in one
  list, never shortened, and a route holds the position of its session. What a call meets outside the
  engine (the dial, the stream, the peer's answer, the clocks) is given to it as a record.
\<close>

section \<open>State\<close>

record route_state =
  rs_node :: node_id
  rs_serial :: u64
  rs_card :: card
  rs_session :: "nat option"

record engine =
  eng_endpoint :: endpoint
  eng_sessions :: "Session.link_session list"
  eng_routes :: "(string \<times> route_state) list"
  eng_stopped :: bool
  eng_stop :: bool
  eng_gate :: nat
  eng_file_holders :: nat

record engine_config =
  transport_seed :: bytes
  relay_urls_cfg :: "string list"
  engine_allow_direct :: bool
  engine_routes :: "route list"

type_synonym 'a engine_call = "(engine_error + 'a) \<times> engine"

definition session_live :: "Session.link_session \<Rightarrow> bool" where
  "session_live x \<longleftrightarrow> \<not> conn_closed x \<and> \<not> is_failed (status (report x))"

definition with_endpoint :: "engine \<Rightarrow> endpoint \<Rightarrow> engine" where
  "with_endpoint e ep = e\<lparr>eng_endpoint := ep\<rparr>"

definition on_book :: "(tag_book \<Rightarrow> tag_book) \<Rightarrow> engine \<Rightarrow> engine" where
  "on_book f e =
     (let ep = eng_endpoint e
      in case ep_book ep of
           None \<Rightarrow> e
         | Some b \<Rightarrow> with_endpoint e (with_paths ep (set_book (f b) (ep_paths ep))))"

definition on_session :: "(Session.link_session \<Rightarrow> Session.link_session) \<Rightarrow> nat \<Rightarrow> engine \<Rightarrow> engine" where
  "on_session f i e = e\<lparr>eng_sessions := (eng_sessions e)[i := f (eng_sessions e ! i)]\<rparr>"

definition close_cached :: "nat option \<Rightarrow> engine \<Rightarrow> engine" where
  "close_cached c e = (case c of Some i \<Rightarrow> on_session (session_close 1) i e | None \<Rightarrow> e)"

section \<open>Starting\<close>

text \<open>The loop over the configured routes: the table and the paired secrets.\<close>

fun install_routes ::
  "crypto \<Rightarrow> route list \<Rightarrow> (string \<times> route_state) list \<times> (node_id \<times> 32 arr) list \<Rightarrow>
   engine_error + (string \<times> route_state) list \<times> (node_id \<times> 32 arr) list" where
  "install_routes cr [] acc = Inr acc"
| "install_routes cr (r # rs) (table, secrets) =
     (case verify_route cr r of
        Inl e \<Rightarrow> Inl e
      | Inr (n, c) \<Rightarrow>
          if map_of table (route_id r) \<noteq> None then Inl (EConfig ''duplicate route id'')
          else case secret (route_secret r) of
                 Inl e \<Rightarrow> Inl e
               | Inr k \<Rightarrow>
                   install_routes cr rs
                     (AList.update (route_id r)
                        \<lparr>rs_node = n, rs_serial = route_serial r, rs_card = c, rs_session = None\<rparr> table,
                      AList.update n k secrets))"

definition engine_start ::
  "crypto \<Rightarrow> bool \<Rightarrow> nat \<Rightarrow> u64 \<Rightarrow> string + socket_addr \<Rightarrow> engine_config \<Rightarrow> engine_error + engine" where
  "engine_start cr browser ident t bound c =
     (case to_arr (transport_seed c) of
        None \<Rightarrow> Inl (EConfig ''transport seed must be 32 bytes'')
      | Some sd \<Rightarrow>
          (case install_routes cr (engine_routes c) ([], []) of
             Inl e \<Rightarrow> Inl e
           | Inr (table, secrets) \<Rightarrow>
               let cfg = (endpoint_config_new browser (from_seed cr sd))
                     \<lparr>cfg_relays := map spec_plain (relay_urls_cfg c), cfg_allow_direct := engine_allow_direct c,
                      rendezvous_timeout := 60000, cfg_paired_routes := Some secrets, net_poll := 0\<rparr>
               in case endpoint_open browser ident t bound (mk_arr []) UdpSent cfg of
                    Inl e \<Rightarrow> Inl (ETransport e)
                  | Inr ep \<Rightarrow>
                      Inr \<lparr>eng_endpoint = ep, eng_sessions = [], eng_routes = table, eng_stopped = False,
                           eng_stop = False, eng_gate = ident, eng_file_holders = 0\<rparr>))"

section \<open>Dialling a route\<close>

text \<open>How the wait for a dial ends: it completes, or it is dropped because the engine stopped or the
  caller's time ran out. \<open>background\<close> is what the endpoint's own tasks do meanwhile.\<close>

datatype dial_fate = Completes | StopsMeanwhile | TimesOut

fun background_event :: "path_event \<Rightarrow> bool" where
  "background_event (PoolEvent (PoolBookOp _)) = False"
| "background_event (PoolEvent (OnDriver _ (BookOp _))) = False"
| "background_event _ = True"

record call_env =
  call_ms :: nat
  call_now :: u64
  call_dial :: dial
  fate :: dial_fate
  background :: "path_event list"

definition env_dial :: "crypto \<Rightarrow> call_env \<Rightarrow> dial" where
  "env_dial cr v = (call_dial v)\<lparr>meanwhile := path_run cr (filter background_event (background v))\<rparr>"

text \<open>A dial that is dropped while it waits has taken the peer's slot and does not give it back.\<close>

definition connect_dropped :: "crypto \<Rightarrow> card \<Rightarrow> dial \<Rightarrow> endpoint \<Rightarrow> endpoint" where
  "connect_dropped cr cd d ep =
     (let p = card_node_id cd
      in if p = key_node_id (ep_key ep) then ep
         else if (case ep_book ep of Some b \<Rightarrow> \<not> book_contains p b | None \<Rightarrow> False) then ep
         else
           let (s, i) = begin_session p (register_peer cr p (ep_paths ep));
               (s, drv) = set_peer_relays p (map spec_plain (relay_urls cd)) s
           in with_paths ep (meanwhile d s))"

text \<open>\<open>unless_stopped\<close> around \<open>connect\<close>; the new session gets the next place of the list.\<close>

definition engine_dial :: "crypto \<Rightarrow> call_env \<Rightarrow> card \<Rightarrow> engine \<Rightarrow> nat engine_call" where
  "engine_dial cr v cd e =
     (if eng_stop e then (Inl EStopped, e)
      else case fate v of
             StopsMeanwhile \<Rightarrow>
               (Inl EStopped, (with_endpoint e (connect_dropped cr cd (env_dial cr v) (eng_endpoint e)))\<lparr>eng_stop := True\<rparr>)
           | TimesOut \<Rightarrow>
               (Inl (ETransport ''request timed out during connection''),
                with_endpoint e (connect_dropped cr cd (env_dial cr v) (eng_endpoint e)))
           | Completes \<Rightarrow>
               (case endpoint_connect cr (call_ms v) cd (env_dial cr v) (eng_endpoint e) of
                  (Inl reason, ep) \<Rightarrow> (Inl (ETransport (fail_word reason)), with_endpoint e ep)
                | (Inr x, ep) \<Rightarrow>
                    (Inr (length (eng_sessions e)), (with_endpoint e ep)\<lparr>eng_sessions := eng_sessions e @ [x]\<rparr>)))"

text \<open>The block under the lock: the cached session if it may be used, or a dial whose session is cached.\<close>

definition cached_live :: "engine \<Rightarrow> route_state \<Rightarrow> nat option" where
  "cached_live e rs =
     (case rs_session rs of
        Some i \<Rightarrow> if session_live (eng_sessions e ! i) then Some i else None
      | None \<Rightarrow> None)"

definition session_of_route ::
  "crypto \<Rightarrow> call_env \<Rightarrow> string \<Rightarrow> route_state \<Rightarrow> nat option \<Rightarrow> engine \<Rightarrow> nat engine_call" where
  "session_of_route cr v ident rs current e =
     (case current of
        Some i \<Rightarrow> (Inr i, e)
      | None \<Rightarrow>
          (case engine_dial cr v (rs_card rs) e of
             (Inl err, e) \<Rightarrow> (Inl err, e)
           | (Inr i, e) \<Rightarrow>
               (Inr i, e\<lparr>eng_routes := AList.update ident (rs\<lparr>rs_session := Some i\<rparr>) (eng_routes e)\<rparr>)))"

text \<open>Without a timeout around the dial.\<close>

definition patient :: "call_env \<Rightarrow> call_env" where
  "patient v = v\<lparr>fate := (if fate v = TimesOut then Completes else fate v)\<rparr>"

section \<open>Sockets\<close>

text \<open>\<open>Display for SocketError\<close>.\<close>

fun socket_error_text :: "socket_error \<Rightarrow> string" where
  "socket_error_text Scheme = ''Link WebSocket URLs must use ws''"
| "socket_error_text Authority =
     ''Link WebSocket URL must not contain credentials, a port, query, or fragment''"
| "socket_error_text Path = ''Link WebSocket URL path must be /events or /drops''"
| "socket_error_text Host = ''Link WebSocket URL host must be a canonical Link node id''"
| "socket_error_text PeerMismatch = ''Link WebSocket URL host does not match the connected peer''"
| "socket_error_text TextTooLarge = ''outbound WebSocket text exceeds 1048576 bytes''"
| "socket_error_text QueueFull = ''outbound WebSocket queue is full''"
| "socket_error_text SocketClosed = ''WebSocket is closed''"
| "socket_error_text (StreamFailed e) = ''could not open Link stream: '' @ e"
| "socket_error_text (Upgrade e) = ''could not complete WebSocket upgrade: '' @ e"

definition engine_open_socket ::
  "crypto \<Rightarrow> call_env \<Rightarrow> string + virtual_url \<Rightarrow> string + unit \<Rightarrow> string + unit \<Rightarrow> string \<Rightarrow> engine \<Rightarrow>
   (virtual_socket \<times> nat) engine_call" where
  "engine_open_socket cr v url stream upgrade ident e =
     (case url of
        Inl err \<Rightarrow> (Inl (ESocket err), e)
      | Inr u \<Rightarrow>
          if eng_stopped e then (Inl EStopped, e)
          else case map_of (eng_routes e) ident of
                 None \<Rightarrow> (Inl (ERoute ''route is not installed''), e)
               | Some rs \<Rightarrow>
                   (case validate_virtual_url u (rs_node rs) of
                      Inl err \<Rightarrow> (Inl (ESocket (socket_error_text err)), e)
                    | Inr _ \<Rightarrow>
                        (case session_of_route cr (patient v) ident rs (cached_live e rs) e of
                           (Inl err, e) \<Rightarrow> (Inl err, e)
                         | (Inr i, e) \<Rightarrow>
                             (case open_socket (sess_peer (eng_sessions e ! i)) u stream upgrade of
                                Inl err \<Rightarrow> (Inl (ESocket (socket_error_text err)), e)
                              | Inr sock \<Rightarrow> (Inr (sock, i), e)))))"

section \<open>Requests\<close>

text \<open>A permit remembers the semaphore it is of; \<open>eng_file_holders\<close> counts the owners of the one guard.\<close>

record file_permit =
  permit_gate :: nat

definition reserve_file_request :: "engine \<Rightarrow> file_permit engine_call" where
  "reserve_file_request e =
     (if eng_stop e then (Inl EStopped, e)
      else if eng_file_holders e \<noteq> 0 then (Inl (ERoute ''another file request is still active''), e)
      else (Inr \<lparr>permit_gate = eng_gate e\<rparr>, e\<lparr>eng_file_holders := 1\<rparr>))"

definition drop_holder :: "engine \<Rightarrow> engine" where
  "drop_holder e = e\<lparr>eng_file_holders := eng_file_holders e - 1\<rparr>"

record path_info =
  info_status :: string
  info_relay :: "string option"
  info_direct :: "socket_addr option"
  info_cause :: string

definition path_of_session :: "Session.link_session \<Rightarrow> path_info" where
  "path_of_session x =
     \<lparr>info_status = outcome (status (report x)), info_relay = relay_url (report x),
      info_direct = direct (report x), info_cause = cause (report x)\<rparr>"

record json_response =
  resp_status :: nat
  resp_body :: bytes
  resp_witness_refused :: bool
  resp_path :: path_info

text \<open>The HTTP exchange: the time the dial took, the stream and the handshake, whether \<open>hyper\<close> takes the
  request, the peer's answer, the phase in which the time ran out if it did, and whether the driver
  of a file stream has already ended when the call returns.\<close>

record exchange =
  elapsed :: nat
  stream_result :: "string + unit"
  handshake_result :: "string + unit"
  request_valid :: bool
  answer :: "string + http_response"
  stop_comes :: bool
  timeout_phase :: "nat option"
  driver_ended :: bool

definition http_sender :: "exchange \<Rightarrow> engine_error + unit" where
  "http_sender w =
     (case stream_result w of
        Inl e \<Rightarrow> Inl (ETransport e)
      | Inr _ \<Rightarrow> (case handshake_result w of Inl e \<Rightarrow> Inl (ETransport e) | Inr _ \<Rightarrow> Inr ()))"

definition timeout_text :: "nat \<Rightarrow> string" where
  "timeout_text k =
     (if k = 0 then ''request timed out during HTTP stream setup''
      else if k = 1 then ''request timed out waiting for response headers''
      else ''request timed out reading response body'')"

text \<open>The future under the second timeout, once its stream is up.\<close>

definition http_exchange ::
  "crypto \<Rightarrow> hex_lib \<Rightarrow> exchange \<Rightarrow> json_request \<Rightarrow> http_method \<Rightarrow> http_route \<Rightarrow> node_id \<Rightarrow>
   engine_error + nat \<times> bytes \<times> bool" where
  "http_exchange cr hx w q m r n =
     (case outgoing_http_request cr hx (request_valid w) q m r n of
        Inl e \<Rightarrow> Inl e
      | Inr sent \<Rightarrow>
          if timeout_phase w = Some 1 then Inl (ETransport (timeout_text 1))
          else case answer w of
                 Inl e \<Rightarrow> Inl (ETransport e)
               | Inr resp \<Rightarrow>
                   if timeout_phase w \<noteq> None then Inl (ETransport (timeout_text 2))
                   else (case decode_http_response cr resp r of
                           Inl e \<Rightarrow> Inl e
                         | Inr (st, body) \<Rightarrow> Inr (st, body, is_witness_refusal r resp)))"

definition permit_matches :: "engine \<Rightarrow> file_permit option \<Rightarrow> http_route \<Rightarrow> bool" where
  "permit_matches e permit r =
     (case permit of Some g \<Rightarrow> is_file r \<and> permit_gate g = eng_gate e | None \<Rightarrow> \<not> is_file r)"

definition drop_permit :: "file_permit option \<Rightarrow> engine \<Rightarrow> engine" where
  "drop_permit permit e =
     (case permit of Some g \<Rightarrow> if permit_gate g = eng_gate e then drop_holder e else e | None \<Rightarrow> e)"

text \<open>The call has an answer to decode: what then remains is to wait for the driver of a file stream.\<close>

definition reaches_decode ::
  "crypto \<Rightarrow> hex_lib \<Rightarrow> exchange \<Rightarrow> json_request \<Rightarrow> http_method \<Rightarrow> http_route \<Rightarrow> node_id \<Rightarrow> bool" where
  "reaches_decode cr hx w q m r n \<longleftrightarrow>
     \<not> isl (outgoing_http_request cr hx (request_valid w) q m r n) \<and> timeout_phase w = None \<and> \<not> isl (answer w)"

definition file_exchange ::
  "crypto \<Rightarrow> hex_lib \<Rightarrow> exchange \<Rightarrow> json_request \<Rightarrow> http_method \<Rightarrow> http_route \<Rightarrow> node_id \<Rightarrow> engine \<Rightarrow>
   (nat \<times> bytes \<times> bool) engine_call" where
  "file_exchange cr hx w q m r n e =
     (if eng_stop e then (Inl EStopped, e)
      else if stop_comes w then (Inl EStopped, e\<lparr>eng_stop := True\<rparr>)
      else case http_sender w of
             Inl err \<Rightarrow> (Inl err, e)
           | Inr _ \<Rightarrow>
               let res = http_exchange cr hx w q m r n
               in if reaches_decode cr hx w q m r n
                  then (if driver_ended w then res else Inl (ETransport ''file stream driver did not settle''), e)
                  else (res, if driver_ended w then e else e\<lparr>eng_file_holders := eng_file_holders e + 1\<rparr>))"

definition request_json_reserved ::
  "crypto \<Rightarrow> hex_lib \<Rightarrow> call_env \<Rightarrow> exchange \<Rightarrow> json_request \<Rightarrow> nat \<Rightarrow> file_permit option \<Rightarrow> engine \<Rightarrow>
   json_response engine_call" where
  "request_json_reserved cr hx v w q timeout permit e =
     (case validate_http_request hx q of
        Inl err \<Rightarrow> (Inl err, drop_permit permit e)
      | Inr (m, r) \<Rightarrow>
          if \<not> permit_matches e permit r
          then (Inl (ERoute ''file reservation does not match this engine and request''), drop_permit permit e)
          else if eng_stopped e then (Inl EStopped, drop_permit permit e)
          else case map_of (eng_routes e) (req_route_id q) of
                 None \<Rightarrow> (Inl (ERoute ''route is not installed''), drop_permit permit e)
               | Some rs \<Rightarrow>
                   (case session_of_route cr v (req_route_id q) rs (cached_live e rs) e of
                      (Inl err, e) \<Rightarrow> (Inl err, drop_permit permit e)
                    | (Inr i, e) \<Rightarrow>
                        if elapsed w \<ge> timeout
                        then (Inl (ETransport ''request timed out during connection''), drop_permit permit e)
                        else
                          let (res, e) =
                                (if timeout_phase w = Some 0 then (Inl (ETransport (timeout_text 0)), e)
                                 else if permit \<noteq> None then file_exchange cr hx w q m r (rs_node rs) e
                                 else case http_sender w of
                                        Inl err \<Rightarrow> (Inl err, e)
                                      | Inr _ \<Rightarrow> (http_exchange cr hx w q m r (rs_node rs), e))
                          in (map_sum id (\<lambda>(st, body, refused).
                                \<lparr>resp_status = st, resp_body = body, resp_witness_refused = refused,
                                 resp_path = path_of_session (eng_sessions e ! i)\<rparr>) res,
                              drop_permit permit e)))"

definition request_json ::
  "crypto \<Rightarrow> hex_lib \<Rightarrow> call_env \<Rightarrow> exchange \<Rightarrow> json_request \<Rightarrow> nat \<Rightarrow> engine \<Rightarrow> json_response engine_call" where
  "request_json cr hx v w q timeout e =
     (case validate_http_request hx q of
        Inl err \<Rightarrow> (Inl err, e)
      | Inr (m, r) \<Rightarrow>
          if is_file r then
            (case reserve_file_request e of
               (Inl err, e) \<Rightarrow> (Inl err, e)
             | (Inr g, e) \<Rightarrow> request_json_reserved cr hx v w q timeout (Some g) e)
          else request_json_reserved cr hx v w q timeout None e)"

section \<open>Retiring a route\<close>

text \<open>\<open>delete_route\<close>, the body of \<open>retire_route\<close> and \<open>finalize_route\<close>, uses the cached session as it is.
  The status in the text of a refusal is left out.\<close>

definition delete_route ::
  "crypto \<Rightarrow> call_env \<Rightarrow> exchange \<Rightarrow> string \<Rightarrow> string \<Rightarrow> engine \<Rightarrow> unit engine_call" where
  "delete_route cr v w ident operation e =
     (if eng_stopped e then (Inl EStopped, e)
      else case map_of (eng_routes e) ident of
             None \<Rightarrow> (Inl (ERoute ''route is not installed''), e)
           | Some rs \<Rightarrow>
               (case session_of_route cr (patient v) ident rs (rs_session rs) e of
                  (Inl err, e) \<Rightarrow> (Inl err, e)
                | (Inr i, e) \<Rightarrow>
                    (case http_sender w of
                       Inl err \<Rightarrow> (Inl err, e)
                     | Inr _ \<Rightarrow>
                         if \<not> request_valid w then (Inl (ERoute ''invalid request''), e)
                         else (case answer w of
                                 Inl err \<Rightarrow> (Inl (ETransport err), e)
                               | Inr resp \<Rightarrow>
                                   if http_status resp \<noteq> 204
                                   then (Inl (ERoute (''server refused '' @ operation)), e)
                                   else (map_sum id (\<lambda>_. ()) (collect_bounded (http_body resp) MAX_ROUTE_FRAME_BYTES), e)))))"

definition retire_route :: "crypto \<Rightarrow> call_env \<Rightarrow> exchange \<Rightarrow> string \<Rightarrow> engine \<Rightarrow> unit engine_call" where
  "retire_route cr v w ident e = delete_route cr v w ident ''route retirement'' e"

definition finalize_route :: "crypto \<Rightarrow> call_env \<Rightarrow> exchange \<Rightarrow> string \<Rightarrow> engine \<Rightarrow> unit engine_call" where
  "finalize_route cr v w ident e = delete_route cr v w ident ''route finalisation'' e"

section \<open>The route table\<close>

definition upsert_route :: "crypto \<Rightarrow> route \<Rightarrow> engine \<Rightarrow> unit engine_call" where
  "upsert_route cr r e =
     (case verify_route cr r of
        Inl err \<Rightarrow> (Inl err, e)
      | Inr (n, c) \<Rightarrow>
          (case secret (route_secret r) of
             Inl err \<Rightarrow> (Inl err, e)
           | Inr k \<Rightarrow>
               if eng_stopped e then (Inl EStopped, e)
               else
                 let previous = map_of (eng_routes e) (route_id r)
                 in if (case previous of Some old \<Rightarrow> route_serial r \<le> rs_serial old | None \<Rightarrow> False)
                    then (Inl (ERoute ''live card serial must increase''), e)
                    else
                      let e = (case previous of Some old \<Rightarrow> on_book (remove_paired (rs_node old)) e | None \<Rightarrow> e);
                          e = on_book (upsert_paired n k) e;
                          e = e\<lparr>eng_routes := AList.update (route_id r)
                                \<lparr>rs_node = n, rs_serial = route_serial r, rs_card = c, rs_session = None\<rparr> (eng_routes e)\<rparr>
                      in (Inr (), close_cached (Option.bind previous rs_session) e)))"

definition remove_route :: "string \<Rightarrow> engine \<Rightarrow> unit engine_call" where
  "remove_route ident e =
     (if eng_stopped e then (Inl EStopped, e)
      else case map_of (eng_routes e) ident of
             None \<Rightarrow> (Inl (ERoute ''route is not installed''), e)
           | Some rs \<Rightarrow>
               (Inr (), close_cached (rs_session rs)
                  (on_book (remove_paired (rs_node rs)) (e\<lparr>eng_routes := AList.delete ident (eng_routes e)\<rparr>))))"

definition cached_sessions :: "engine \<Rightarrow> nat list" where
  "cached_sessions e = List.map_filter (\<lambda>(ident, rs). rs_session rs) (eng_routes e)"

definition engine_reannounce :: "engine \<Rightarrow> unit engine_call" where
  "engine_reannounce e =
     (if eng_stopped e then (Inl EStopped, e)
      else (Inr (), fold (on_session reannounce) (cached_sessions e) e))"

section \<open>First contact\<close>

record pairing_bundle =
  bundle_route_id :: string
  bundle_card :: bytes
  bundle_secret :: bytes
  bundle_expires_at :: u64

text \<open>The checks before anything is registered.\<close>

definition pair_check ::
  "crypto \<Rightarrow> u64 \<Rightarrow> pairing_bundle \<Rightarrow> engine \<Rightarrow> engine_error + nat \<times> 16 arr \<times> node_id \<times> card" where
  "pair_check cr t b e =
     (if bundle_route_id b = [] then Inl (ERoute ''route id must not be empty'')
      else case pairing_lifetime (bundle_expires_at b) t of
             Inl err \<Rightarrow> Inl err
           | Inr lifetime \<Rightarrow>
               (case pairing_secret (bundle_secret b) of
                  Inl err \<Rightarrow> Inl err
                | Inr k \<Rightarrow>
                    (case node_from_card_bytes (bundle_card b) of
                       Inl err \<Rightarrow> Inl err
                     | Inr n \<Rightarrow>
                         (case card_verify cr (bundle_card b) (expecting (verify_context_new t) n) of
                            Inl _ \<Rightarrow> Inl (ERoute ''card'')
                          | Inr offered \<Rightarrow>
                              if eng_stopped e then Inl EStopped
                              else if (case map_of (eng_routes e) (bundle_route_id b) of
                                         Some rs \<Rightarrow> rs_node rs \<noteq> n | None \<Rightarrow> False)
                              then Inl (ERoute ''route id is already bound to another node'')
                              else Inr (lifetime, k, n, offered)))))"

text \<open>\<open>Display for PairingError\<close>.\<close>

fun pairing_error_text :: "pairing_error \<Rightarrow> string" where
  "pairing_error_text TagModeRequired = ''pairing rendezvous requires tag mode''"
| "pairing_error_text PairingLifetime = ''pairing registration lifetime must be between 1s and 600s''"
| "pairing_error_text RouteExport = ''the provisional session could not export paired-route material''"

text \<open>The answer of the server over the pairing session; \<open>t\<close> is the second at which its card is checked.\<close>

definition pair_answer ::
  "crypto \<Rightarrow> u64 \<Rightarrow> exchange \<Rightarrow> pairing_error + 32 arr \<Rightarrow> node_id \<Rightarrow> card \<Rightarrow> engine_error + card \<times> 32 arr" where
  "pair_answer cr t w material n offered =
     (case material of
        Inl err \<Rightarrow> Inl (ERoute (pairing_error_text err))
      | Inr k \<Rightarrow>
          (case http_sender w of
             Inl err \<Rightarrow> Inl err
           | Inr _ \<Rightarrow>
               if \<not> request_valid w then Inl (ERoute ''invalid request'')
               else case answer w of
                      Inl err \<Rightarrow> Inl (ETransport err)
                    | Inr resp \<Rightarrow>
                        if http_status resp \<noteq> 200 then Inl (ERoute ''server refused route enrolment'')
                        else case collect_bounded (http_body resp) MAX_ROUTE_FRAME_BYTES of
                               Inl err \<Rightarrow> Inl err
                             | Inr body \<Rightarrow>
                                 (case route_card body of
                                    Inl err \<Rightarrow> Inl err
                                  | Inr cd \<Rightarrow>
                                      (case card_verify cr cd (expecting (verify_context_new t) n) of
                                         Inl _ \<Rightarrow> Inl (ERoute ''card'')
                                       | Inr c \<Rightarrow>
                                           if serial c < serial offered
                                           then Inl (ERoute ''server returned an older card than the pairing bundle'')
                                           else Inr (c, k)))))"

text \<open>A pairing dial that is dropped while it waits.\<close>

definition pairing_dropped :: "crypto \<Rightarrow> u64 \<Rightarrow> card \<Rightarrow> registration \<Rightarrow> dial \<Rightarrow> endpoint \<Rightarrow> endpoint" where
  "pairing_dropped cr t cd reg d ep =
     (let p = card_node_id cd; route = reg_route reg; own = key_node_id (ep_key ep)
      in if p = own \<or> reg_book reg \<noteq> ep_book_id ep then ep
         else case ep_book ep of
                None \<Rightarrow> ep
              | Some b \<Rightarrow>
                  let (b, active) = is_active route (reg_expires_at reg) t b;
                      ep = with_paths ep (set_book b (ep_paths ep))
                  in if \<not> active \<or> route = own then ep
                     else
                       let s = register_peer cr p (register_peer cr route (ep_paths ep));
                           (s, i) = begin_session p s;
                           (s, drv) = set_peer_relays route (map spec_plain (relay_urls cd)) s
                       in with_paths ep (meanwhile d (copy_relay_route route p s)))"

record pair_env =
  pair_call :: call_env
  pair_exchange :: exchange
  pair_draws :: "node_id list"
  pair_addrs :: "ip_addr list"
  pair_gen_no :: u64
  pair_verified_at :: u64

text \<open>\<open>unless_stopped\<close> around \<open>connect_pairing\<close>; the relay counters in the text of an error are left out.
  The session joins the list of sessions already closed, as the call closes it in every outcome.\<close>

definition pair_dial ::
  "crypto \<Rightarrow> pair_env \<Rightarrow> card \<Rightarrow> registration \<Rightarrow> engine \<Rightarrow> pairing_session engine_call" where
  "pair_dial cr pv offered reg e =
     (let v = pair_call pv
      in if eng_stop e then (Inl EStopped, e)
         else if fate v = StopsMeanwhile
         then (Inl EStopped,
               (with_endpoint e (pairing_dropped cr (call_now v) offered reg (env_dial cr v) (eng_endpoint e)))\<lparr>eng_stop := True\<rparr>)
         else case connect_pairing cr (call_ms v) (call_now v) (pair_gen_no pv) offered reg (env_dial cr v) (eng_endpoint e) of
                (Inl reason, ep) \<Rightarrow> (Inl (ETransport (fail_word reason)), with_endpoint e ep)
              | (Inr ps, ep) \<Rightarrow>
                  (Inr ps, (with_endpoint e ep)\<lparr>eng_sessions := eng_sessions e @ [session_close 3 (pairing_link ps)]\<rparr>))"

definition pair_material :: "dial \<Rightarrow> node_id \<Rightarrow> pairing_error + 32 arr" where
  "pair_material d n = (case handshaken d (PinnedServer n) of Inr c \<Rightarrow> paired_route_secret c | Inl _ \<Rightarrow> Inl RouteExport)"

definition end_pairing :: "registration \<Rightarrow> engine \<Rightarrow> engine" where
  "end_pairing reg e = with_endpoint e (end_registration reg (eng_endpoint e))"

text \<open>Up to the server's answer; \<open>None\<close> asks for more draws of a route.\<close>

definition pair_start ::
  "crypto \<Rightarrow> pair_env \<Rightarrow> pairing_bundle \<Rightarrow> engine \<Rightarrow> (card \<times> 32 arr \<times> registration) engine_call option" where
  "pair_start cr pv b e =
     (case pair_check cr (call_now (pair_call pv)) b e of
        Inl err \<Rightarrow> Some (Inl err, e)
      | Inr (lifetime, k, n, offered) \<Rightarrow>
          (case register_pairing_secret (pair_draws pv) (call_now (pair_call pv)) k (lifetime * 1000) (eng_endpoint e) of
             None \<Rightarrow> None
           | Some (Inl err) \<Rightarrow> Some (Inl (ERoute (pairing_error_text err)), e)
           | Some (Inr (reg, ep)) \<Rightarrow>
               let (_, ep) = endpoint_card cr (call_now (pair_call pv)) (pair_addrs pv) MAX_LIFETIME_SECONDS [] ep
               in Some (case pair_dial cr pv offered reg (with_endpoint e ep) of
                          (Inl err, e) \<Rightarrow> (Inl err, end_pairing reg e)
                        | (Inr ps, e) \<Rightarrow>
                            if stop_comes (pair_exchange pv) then (Inl EStopped, end_pairing reg (e\<lparr>eng_stop := True\<rparr>))
                            else case pair_answer cr (pair_verified_at pv) (pair_exchange pv)
                                        (pair_material (call_dial (pair_call pv)) n) n offered of
                                   Inl err \<Rightarrow> (Inl err, end_pairing reg e)
                                 | Inr (c, s) \<Rightarrow> (Inr (c, s, reg), e))))"

text \<open>The second time under the lock.\<close>

definition pair_install ::
  "string \<Rightarrow> u64 \<Rightarrow> card \<Rightarrow> 32 arr \<Rightarrow> engine \<Rightarrow> route engine_call" where
  "pair_install ident t c k e =
     (if eng_stopped e then (Inl EStopped, e)
      else
        let prior = map_of (eng_routes e) ident
        in if (case prior of Some old \<Rightarrow> rs_node old \<noteq> card_node_id c | None \<Rightarrow> False)
           then (Inl (ERoute ''route id is already bound to another node''), e)
           else if (case prior of Some old \<Rightarrow> serial c < rs_serial old | None \<Rightarrow> False)
           then (Inl (ERoute ''server card serial moved backwards''), e)
           else
             let e = on_book (upsert_paired (card_node_id c) k) e;
                 e = e\<lparr>eng_routes := AList.update ident
                       \<lparr>rs_node = card_node_id c, rs_serial = serial c, rs_card = c, rs_session = None\<rparr> (eng_routes e)\<rparr>
             in (Inr \<lparr>route_id = ident, route_card_bytes = raw c, route_secret = bytes_of k,
                      route_serial = serial c, card_verified_at = t\<rparr>,
                 close_cached (Option.bind prior rs_session) e))"

definition pair_route :: "crypto \<Rightarrow> pair_env \<Rightarrow> pairing_bundle \<Rightarrow> engine \<Rightarrow> route engine_call option" where
  "pair_route cr pv b e =
     map_option (\<lambda>(res, e).
       case res of
         Inl err \<Rightarrow> (Inl err, e)
       | Inr (c, k, reg) \<Rightarrow>
           let (res, e) = pair_install (bundle_route_id b) (pair_verified_at pv) c k e
           in (res, end_pairing reg e)) (pair_start cr pv b e)"

section \<open>Stopping\<close>

definition signal_stop :: "engine \<Rightarrow> engine" where
  "signal_stop e = e\<lparr>eng_stop := True\<rparr>"

definition finish_stop :: "engine \<Rightarrow> engine" where
  "finish_stop e =
     (let closed = fold (on_session (session_close 1)) (cached_sessions e) e;
          e = closed\<lparr>eng_stopped := True,
                     eng_routes := map (map_prod id (\<lambda>rs. rs\<lparr>rs_session := None\<rparr>)) (eng_routes e)\<rparr>
      in with_endpoint e (endpoint_close (eng_endpoint e)))"

definition engine_stop :: "engine \<Rightarrow> engine" where
  "engine_stop e = finish_stop (signal_stop e)"

definition wipe :: "engine \<Rightarrow> engine" where
  "wipe e =
     (let e = engine_stop e; routes = eng_routes e
      in fold (\<lambda>(ident, rs). on_book (remove_paired (rs_node rs))) routes (e\<lparr>eng_routes := []\<rparr>))"

section \<open>The running engine\<close>

text \<open>Every call of the host, the pieces of the calls that release the lock in between, and the tasks that
  run beside them: those of the endpoint, of a session and of a file stream.\<close>

datatype engine_event =
    OpenSocket call_env "string + virtual_url" "string + unit" "string + unit" string
  | RequestJson call_env exchange json_request nat
  | RequestReserved call_env exchange json_request nat "file_permit option"
  | ReserveFile
  | PermitDropped
  | FileDriverEnds
  | DeleteRoute call_env exchange string string
  | UpsertRoute route
  | RemoveRoute string
  | Reannounce
  | PairStart pair_env pairing_bundle
  | PairInstall string u64 card "32 arr"
  | PairingOver registration
  | PairingEnded pairing_session
  | SignalStop
  | FinishStop
  | Wipe
  | Background path_event
  | DriveSession nat nat probe_env drive_event
  | HearControl nat control

definition on_paths :: "(Session.link_session \<times> paths \<Rightarrow> Session.link_session \<times> paths) \<Rightarrow> nat \<Rightarrow> engine \<Rightarrow> engine" where
  "on_paths f i e =
     (if i < length (eng_sessions e)
      then let (x, s) = f (eng_sessions e ! i, ep_paths (eng_endpoint e))
           in with_endpoint (e\<lparr>eng_sessions := (eng_sessions e)[i := x]\<rparr>) (with_paths (eng_endpoint e) s)
      else e)"

fun engine_step :: "crypto \<Rightarrow> hex_lib \<Rightarrow> engine_event \<Rightarrow> engine \<Rightarrow> engine" where
  "engine_step cr hx (OpenSocket v url stream upgrade ident) e = snd (engine_open_socket cr v url stream upgrade ident e)"
| "engine_step cr hx (RequestJson v w q timeout) e = snd (request_json cr hx v w q timeout e)"
| "engine_step cr hx (RequestReserved v w q timeout permit) e = snd (request_json_reserved cr hx v w q timeout permit e)"
| "engine_step cr hx ReserveFile e = snd (reserve_file_request e)"
| "engine_step cr hx PermitDropped e = drop_holder e"
| "engine_step cr hx FileDriverEnds e = drop_holder e"
| "engine_step cr hx (DeleteRoute v w ident operation) e = snd (delete_route cr v w ident operation e)"
| "engine_step cr hx (UpsertRoute r) e = snd (upsert_route cr r e)"
| "engine_step cr hx (RemoveRoute ident) e = snd (remove_route ident e)"
| "engine_step cr hx Reannounce e = snd (engine_reannounce e)"
| "engine_step cr hx (PairStart pv b) e = (case pair_start cr pv b e of Some (_, e) \<Rightarrow> e | None \<Rightarrow> e)"
| "engine_step cr hx (PairInstall ident t c k) e = snd (pair_install ident t c k e)"
| "engine_step cr hx (PairingOver reg) e = end_pairing reg e"
| "engine_step cr hx (PairingEnded ps) e = with_endpoint e (pairing_ended ps (eng_endpoint e))"
| "engine_step cr hx SignalStop e = signal_stop e"
| "engine_step cr hx FinishStop e = finish_stop e"
| "engine_step cr hx Wipe e = wipe e"
| "engine_step cr hx (Background ev) e =
     (if background_event ev
      then with_endpoint e (with_paths (eng_endpoint e) (path_step cr ev (ep_paths (eng_endpoint e)))) else e)"
| "engine_step cr hx (DriveSession i ms env ev) e = on_paths (session_step cr ms env ev) i e"
| "engine_step cr hx (HearControl i c) e = on_paths (on_control c) i e"

definition engine_run :: "crypto \<Rightarrow> hex_lib \<Rightarrow> engine_event list \<Rightarrow> engine \<Rightarrow> engine" where
  "engine_run cr hx es e = fold (engine_step cr hx) es e"

end
