(* ===== verification/Engine_Safety.thy ===== *)
theory Engine_Safety
  imports Engine
begin

text \<open>
  What the engine keeps through every call, in every order, beside every task of its endpoint: each
  paired secret in the tag book belongs to an installed route, each route's cached session is with the
  node of its card, and the sessions follow their state machine. The background of a dial may do
  anything to the path socket and the relays except operate on the book, which only the calls modelled
  here do.
\<close>

section \<open>The paired secrets\<close>

text \<open>\<open>None\<close> outside tag mode.\<close>

definition paired_secrets :: "paths \<Rightarrow> (node_id \<times> 32 arr) list option" where
  "paired_secrets s = map_option paired (shared (relay_pool s))"

lemma paired_bump [simp]: "paired (bump b) = paired b"
  by (simp add: bump_def)

lemma paired_prune_expired [simp]: "paired (prune_expired t b) = paired b"
  by (simp add: prune_expired_def Let_def)

lemma paired_tags [simp]:
  "paired (fst (registration cr h t b)) = paired b"
  "paired (fst (resolve cr tg h t b)) = paired b"
  "paired (fst (tag_for_send cr p h t b)) = paired b"
  by (simp_all add: registration_def resolve_def tag_for_send_def Let_def split: option.split)

lemma paired_pairing [simp]:
  "paired (fst (remove_pairing route b)) = paired b"
  "paired (fst (promote_pairing route k gen t b)) = paired b"
  "paired (fst (remove_live_pairing route gen b)) = paired b"
  "paired (fst (is_active route expires t b)) = paired b"
  by (simp_all add: remove_pairing_def promote_pairing_def remove_live_pairing_def is_active_def
      pairing_active_def Let_def split: option.split)

lemma paired_register_pairing: "register_pairing draws k expires b = Some (route, b') \<Longrightarrow> paired b' = paired b"
  by (auto simp: register_pairing_def split: option.splits)

lemma driver_small_books [simp]:
  "book (fst (current_host d)) = book d" "book (fst (enqueue up f d)) = book d"
  "book (send_frame f d) = book d"
  by (auto simp: current_host_def enqueue_def send_frame_def Let_def split: relay_status.splits option.splits sum.splits)

abbreviation secrets :: "driver \<Rightarrow> (node_id \<times> 32 arr) list option" where
  "secrets d \<equiv> map_option paired (book d)"

lemma try_send_secrets: "secrets (fst (driver_try_send cr t p data d)) = secrets d"
proof (cases "stopped d \<or> book d = None")
  case False
  then obtain b where b: "\<not> stopped d" "book d = Some b" by auto
  obtain d' h where h: "current_host d = (d', h)" by (rule prod.exhaust)
  have d': "book d' = Some b" using driver_small_books(1) [of d] h b by simp
  show ?thesis
  proof (cases h)
    case None
    then show ?thesis using b h d' by (simp add: driver_try_send_def Let_def)
  next
    case (Some host)
    obtain b' tg where t: "tag_for_send cr p host t b = (b', tg)" by (rule prod.exhaust)
    then have "paired b' = paired b" using paired_tags(3) [of cr p host t b] by simp
    then show ?thesis using b h d' Some t by (cases tg) (simp_all add: driver_try_send_def Let_def)
  qed
qed (auto simp: driver_try_send_def Let_def)

lemma answer_challenge_secrets: "secrets (fst (answer_challenge cr key h c t ok d)) = secrets d"
proof (cases "book d")
  case (Some b)
  obtain b' ts where r: "registration cr h t b = (b', ts)" by (rule prod.exhaust)
  then have "paired b' = paired b" using paired_tags(1) [of cr h t b] by simp
  then show ?thesis using Some r by (simp add: answer_challenge_def Let_def)
qed (simp add: answer_challenge_def)

lemma connect_secrets: "secrets (fst (connect cr key spec t opened ok items d)) = secrets d"
  using answer_challenge_secrets [of cr key _ _ t ok d]
  by (auto simp: connect_def split: sum.split prod.split) (metis fst_conv)+

lemma driver_attempt_secrets: "secrets (driver_attempt cr key ms t opened ok items d) = secrets d"
proof -
  let ?spec = "relays d ! (index d mod length (relays d))"
  obtain d' r where r: "connect cr key ?spec t opened ok items d = (d', r)" by (rule prod.exhaust)
  then have "secrets d' = secrets d" using connect_secrets [of cr key ?spec t opened ok items d] by simp
  then show ?thesis using r by (cases r) (simp_all add: driver_attempt_def Let_def)
qed

lemma register_now_secrets: "book d = Some b \<Longrightarrow> secrets (fst (register_now cr h t ok b d)) = secrets d"
proof -
  assume b: "book d = Some b"
  obtain b' ts where r: "registration cr h t b = (b', ts)" by (rule prod.exhaust)
  then have "paired b' = paired b" using paired_tags(1) [of cr h t b] by simp
  then show ?thesis using b r by (simp add: register_now_def Let_def)
qed

lemma on_relay_frame_secrets: "secrets (fst (on_relay_frame cr h t f d)) = secrets d"
proof (cases "\<exists>tg data. f = Some (RecvTag tg data) \<and> book d \<noteq> None")
  case True
  then obtain tg data b where f: "f = Some (RecvTag tg data)" "book d = Some b" by auto
  obtain b' who where r: "resolve cr tg h t b = (b', who)" by (rule prod.exhaust)
  then have "paired b' = paired b" using paired_tags(2) [of cr tg h t b] by simp
  then show ?thesis using f r by (cases who) (simp_all add: on_relay_frame_def Let_def)
next
  case False
  then show ?thesis by (auto simp: on_relay_frame_def split: option.split frame.split)
qed

lemma pump_step_secrets: "secrets (fst (pump_step cr h e v t ok pev d)) = secrets d"
proof (cases "book d")
  case (Some b)
  obtain d' r where r: "register_now cr h t ok b d = (d', r)" by (rule prod.exhaust)
  then have "secrets d' = secrets d" using register_now_secrets [OF Some, of cr h t ok] by simp
  then show ?thesis
    using Some r on_relay_frame_secrets [of cr h t _ d]
    by (cases pev) (simp_all add: pump_step_def Let_def split: list.split option.split ws_item.split frame.split)
next
  case None
  then show ?thesis
    using on_relay_frame_secrets [of cr h t _ d]
    by (cases pev) (simp_all add: pump_step_def Let_def split: list.split option.split ws_item.split frame.split)
qed

lemma after_pump_secrets: "secrets (after_pump ms e d) = secrets d"
  by (simp add: after_pump_def Let_def)

lemma driver_step_secrets:
  assumes "\<And>bop. ev \<noteq> BookOp bop"
  shows "secrets (fst (driver_step cr key ev d)) = secrets d"
proof (cases ev)
  case (Pump ms t ok pev)
  show ?thesis
  proof (cases "phase d")
    case (Pumping h e v)
    obtain d' given r where r: "pump_step cr h e v t ok pev d = (d', given, r)" by (rule prod_cases3)
    then have "secrets d' = secrets d" using pump_step_secrets [of cr h e v t ok pev d] by simp
    then show ?thesis
      using Pump Pumping r after_pump_secrets [of ms _ d'] by (cases r) (simp_all add: driver_step_def)
  qed (simp_all add: driver_step_def Pump)
qed (use assms in \<open>simp_all add: driver_step_def driver_attempt_secrets try_send_secrets stop_driver_def Let_def\<close>)

lemma shared_pool_small [simp]:
  "shared (pool_give given p) = shared p" "shared (snd (driver_for specs p)) = shared p"
  "shared (pool_close p) = shared p"
  by (auto simp: pool_give_def driver_for_def pool_close_def Let_def split: option.split)

lemma pool_try_send_secrets:
  "map_option paired (shared (fst (pool_try_send cr t i p data pl))) = map_option paired (shared pl)"
proof (cases "by_id pl i")
  case (Some d)
  obtain d' out where "driver_try_send cr t p data (d\<lparr>book := shared pl\<rparr>) = (d', out)" by (rule prod.exhaust)
  moreover have "secrets (fst (driver_try_send cr t p data (d\<lparr>book := shared pl\<rparr>))) = map_option paired (shared pl)"
    using try_send_secrets [of cr t p data "d\<lparr>book := shared pl\<rparr>"] by simp
  ultimately show ?thesis using Some by (simp add: pool_try_send_def)
qed (simp add: pool_try_send_def)

lemma pool_step_secrets:
  assumes "background_event (PoolEvent ev)"
  shows "map_option paired (shared (pool_step cr ev pl)) = map_option paired (shared pl)"
proof (cases ev)
  case (OnDriver i dev)
  then have dev: "\<And>bop. dev \<noteq> BookOp bop" using assms by auto
  show ?thesis
  proof (cases "by_id pl i")
    case (Some d)
    obtain d' given where "driver_step cr (pool_key pl) dev (d\<lparr>book := shared pl\<rparr>) = (d', given)"
      by (rule prod.exhaust)
    moreover have "secrets (fst (driver_step cr (pool_key pl) dev (d\<lparr>book := shared pl\<rparr>))) =
        map_option paired (shared pl)"
      using driver_step_secrets [OF dev, of cr "pool_key pl" "d\<lparr>book := shared pl\<rparr>"] by simp
    ultimately show ?thesis using OnDriver Some by (simp add: pool_step_def)
  qed (simp add: pool_step_def OnDriver)
qed (use assms in \<open>simp_all add: pool_step_def\<close>)

lemma take_direct_pool [simp]: "relay_pool (take_direct p e s) = relay_pool s"
  by (simp add: take_direct_def Let_def split: option.split)

lemma quiet_pool [simp]:
  "relay_pool (register_peer cr p s) = relay_pool s"
  "relay_pool (set_peer_candidates p cs s) = relay_pool s"
  "relay_pool (drop_direct p i s) = relay_pool s"
  "relay_pool (fst (begin_session p s)) = relay_pool s"
  "relay_pool (end_session p i s) = relay_pool s"
  "relay_pool (register_probe_key p k key s) = relay_pool s"
  "relay_pool (unregister_probe_key k s) = relay_pool s"
  "relay_pool (copy_relay_route q p s) = relay_pool s"
  "relay_pool (heard_on p i s) = relay_pool s"
  "relay_pool (prune_learned ms p s) = relay_pool s"
  "relay_pool (deliver a data s) = relay_pool s"
  "relay_pool (query_reflector nonce r a s) = relay_pool s"
  "relay_pool (requery_reflector nonce r s) = relay_pool s"
  "relay_pool (handle_pong ms p pr a s) = relay_pool s"
  by (simp_all add: register_peer_def set_peer_candidates_def drop_direct_def begin_session_def end_session_def
      register_probe_key_def unregister_probe_key_def copy_relay_route_def heard_on_def prune_learned_def
      deliver_def query_reflector_def requery_reflector_def handle_pong_def Let_def split: option.split prod.split)

lemma send_ping_pool [simp]: "relay_pool (fst (send_ping cr ms nonce r p a s)) = relay_pool s"
  by (auto simp: send_ping_def Let_def split: option.split)

lemma ping_all_pool [simp]: "relay_pool (fst (ping_all cr ms env p as s)) = relay_pool s"
proof (induction as arbitrary: s)
  case (Cons a as)
  obtain s1 ok where s1: "send_ping cr ms (fst (env a)) (snd (env a)) p a s = (s1, ok)" by (rule prod.exhaust)
  obtain s2 n where s2: "ping_all cr ms env p as s1 = (s2, n)" by (rule prod.exhaust)
  have "relay_pool s1 = relay_pool s" using send_ping_pool [of cr ms "fst (env a)" "snd (env a)" p a s] s1 by simp
  moreover have "relay_pool s2 = relay_pool s1" using Cons.IH [of s1] s2 by simp
  ultimately show ?case using s1 s2 by simp
qed simp

lemma probes_pool [simp]:
  "relay_pool (fst (send_probes cr ms env p s)) = relay_pool s"
  "relay_pool (handle_ping cr ms nonce r1 r2 p key pr a s) = relay_pool s"
  "relay_pool (handle_probe cr ms nonce r1 r2 p key pr a s) = relay_pool s"
proof -
  show "relay_pool (fst (send_probes cr ms env p s)) = relay_pool s" by (simp add: send_probes_def Let_def)
  show ping: "relay_pool (handle_ping cr ms nonce r1 r2 p key pr a s) = relay_pool s"
    by (simp add: handle_ping_def Let_def)
  show "relay_pool (handle_probe cr ms nonce r1 r2 p key pr a s) = relay_pool s"
    by (simp add: handle_probe_def ping)
qed

lemma inbound_pool [simp]:
  "relay_pool (relay_inbound_step cr x s) = relay_pool s"
  "relay_pool (direct_inbound_step cr ms nonce r1 r2 a data s) = relay_pool s"
  "relay_pool (fst (path_poll_recv bufs s)) = relay_pool s"
  by (auto simp: relay_inbound_step_def direct_inbound_step_def path_poll_recv_def Let_def
      split: option.split prod.split)

lemma set_peer_relays_secrets: "paired_secrets (fst (set_peer_relays p specs s)) = paired_secrets s"
proof -
  obtain i pl where d: "driver_for specs (relay_pool s) = (i, pl)" by (rule prod.exhaust)
  then have "shared pl = shared (relay_pool s)" using shared_pool_small(2) [of specs "relay_pool s"] by simp
  then show ?thesis using d by (simp add: set_peer_relays_def paired_secrets_def Let_def)
qed

lemma path_try_send_secrets: "paired_secrets (fst (path_try_send cr ms t r dest data s)) = paired_secrets s"
proof -
  have "map_option paired (shared pl) = map_option paired (shared (relay_pool s))"
    if "pool_try_send cr t i p data (relay_pool s) = (pl, out)" for i p pl out
    using pool_try_send_secrets [of cr t i p data "relay_pool s"] that by simp
  then show ?thesis
    unfolding path_try_send_def paired_secrets_def Let_def
    by (simp split: option.split prod.split queue_outcome.split udp_result.split)
qed

lemma path_step_secrets:
  "background_event ev \<Longrightarrow> paired_secrets (path_step cr ev s) = paired_secrets s"
  using set_peer_relays_secrets path_try_send_secrets
  by (cases ev) (simp_all add: paired_secrets_def pool_step_secrets)

lemma background_secrets: "paired_secrets (path_run cr (filter background_event es) s) = paired_secrets s"
  unfolding path_run_def by (induction es arbitrary: s) (simp_all add: path_step_secrets)

section \<open>What a session leaves alone\<close>

definition keeps :: "Session.link_session \<times> paths \<Rightarrow> Session.link_session \<times> paths \<Rightarrow> bool" where
  "keeps xs ys \<longleftrightarrow> sess_peer (fst ys) = sess_peer (fst xs) \<and> relay_pool (snd ys) = relay_pool (snd xs)"

lemma forget_key_pool [simp]: "relay_pool (forget_key x s) = relay_pool s"
  by (simp add: forget_key_def split: option.split)

lemma ends_keep: "keeps xs (on_superseded ms xs)" "keeps xs (on_closed ms why xs)" "keeps xs (on_control c xs)"
  by (auto simp: keeps_def on_superseded_def on_closed_def on_control_def Let_def
      split: close_reason.split control.split)

lemma stages_keep:
  "keeps (x, s) (when_relayed cr ms env (take_request ms x, s))"
  "keeps (x, s) (when_probing cr ms env (take_request ms x, s))"
  "keeps (x, s) (when_direct cr ms env (take_request ms x, s))"
  by (simp_all add: keeps_def when_relayed_def when_probing_def when_direct_def Let_def)

lemma direct_part_keeps: "keeps (x, s) (direct_part cr ms env (x, s))"
  using stages_keep [of x s cr ms env]
  by (simp add: direct_part_def keeps_def Let_def split: path_status.split)

lemma relay_part_peer: "sess_peer (fst (relay_part ms s x)) = sess_peer x"
  by (simp add: relay_part_def Let_def split: relay_status.split option.split)

lemma drive_body_keeps: "keeps xs (drive_body cr ms env xs)"
proof -
  let ?y = "follow_driver (snd xs) (fst xs)"
  have y: "sess_peer ?y = sess_peer (fst xs)" by (simp add: follow_driver_def Let_def)
  obtain x b where r: "relay_part ms (snd xs) ?y = (x, b)" by (rule prod.exhaust)
  then have "sess_peer x = sess_peer (fst xs)" using relay_part_peer [of ms "snd xs" ?y] y by simp
  then show ?thesis
    using direct_part_keeps [of x "snd xs" cr ms env] r y
    by (cases b) (simp_all add: drive_body_def keeps_def Let_def)
qed

lemma session_step_keeps: "keeps xs (session_step cr ms env ev xs)"
proof (cases "running (fst xs)")
  case True
  then show ?thesis
    using ends_keep(1) [of xs ms] ends_keep(2) [of xs ms] drive_body_keeps [of "((fst xs)\<lparr>relay_state := _\<rparr>, snd xs)" cr ms env]
      drive_body_keeps [of xs cr ms env] drive_body_keeps [of "((fst xs)\<lparr>net_alive := False\<rparr>, snd xs)" cr ms env]
      drive_body_keeps [of "((fst xs)\<lparr>reannounce_at := Some (ms + REFLECTOR_GRACE)\<rparr>, requery_reflector _ _ (snd xs))" cr ms env]
    by (cases ev) (simp_all add: session_step_def keeps_def)
qed (simp add: session_step_def keeps_def)

lemma session_start_keeps:
  "sess_peer (fst (session_start ms p ok delay m i s)) = p"
  "relay_pool (snd (session_start ms p ok delay m i s)) = relay_pool s"
  by (auto simp: session_start_def Let_def split: option.split)

section \<open>What a dial leaves alone\<close>

lemma env_dial_secrets: "paired_secrets (meanwhile (env_dial cr v) s) = paired_secrets s"
  by (simp add: env_dial_def background_secrets)

definition calm :: "dial \<Rightarrow> bool" where
  "calm d \<longleftrightarrow> (\<forall>s. paired_secrets (meanwhile d s) = paired_secrets s)"

lemma paired_secrets_pool: "relay_pool s = relay_pool s' \<Longrightarrow> paired_secrets s = paired_secrets s'"
  by (simp add: paired_secrets_def)

lemma end_session_secrets [simp]: "paired_secrets (end_session p i s) = paired_secrets s"
  by (simp add: paired_secrets_def)

lemma dial_peer_secrets: "calm d \<Longrightarrow> paired_secrets (snd (dial_peer p i drv d s)) = paired_secrets s"
  by (auto simp: dial_peer_def Let_def calm_def split: sum.split)

text \<open>The slot is taken and the relays are set before a dial waits.\<close>

lemma dial_prefix_secrets:
  assumes "begin_session p s = (s1, i)" "set_peer_relays q specs s1 = (s2, drv)"
  shows "paired_secrets s2 = paired_secrets s"
  using quiet_pool(4) [of p s] set_peer_relays_secrets [of q specs s1] assms by (simp add: paired_secrets_def)

lemma connect_keeps:
  assumes "calm d" "endpoint_connect cr ms cd d ep = (r, ep')"
  shows "paired_secrets (ep_paths ep') = paired_secrets (ep_paths ep)"
    and "r = Inr x \<Longrightarrow> sess_peer x = card_node_id cd \<and> session_reach cr x"
proof -
  let ?p = "card_node_id cd" and ?c = "ep_config ep"
  obtain s i where s: "begin_session ?p (register_peer cr ?p (ep_paths ep)) = (s, i)" by (rule prod.exhaust)
  obtain s2 drv where s2: "set_peer_relays ?p (map spec_plain (relay_urls cd)) s = (s2, drv)" by (rule prod.exhaust)
  obtain q s3 where q: "dial_peer ?p i drv d s2 = (q, s3)" by (rule prod.exhaust)
  have s3: "paired_secrets s3 = paired_secrets (ep_paths ep)"
    using dial_prefix_secrets [OF s s2] dial_peer_secrets [OF assms(1), of ?p i drv s2] q
    by (simp add: paired_secrets_def)
  consider (early) "ep' = ep" "\<exists>e. r = Inl e"
    | (failed) e where "r = Inl e" "ep_paths ep' = s3"
    | (opened) c y s4 where "q = Inr c" "r = Inr y" "ep_paths ep' = s4"
        "session_start ms ?p (cfg_allow_direct ?c) (probe_delay ?c) (probe_material c) i s3 = (y, s4)"
    using assms(2) s s2 q by (auto simp: endpoint_connect_def Let_def split: if_splits sum.splits prod.splits)
  then have "paired_secrets (ep_paths ep') = paired_secrets (ep_paths ep) \<and>
      (r = Inr x \<longrightarrow> sess_peer x = ?p \<and> session_reach cr x)"
  proof cases
    case opened
    note k = session_start_keeps [of ms ?p "cfg_allow_direct ?c" "probe_delay ?c" "probe_material c" i s3]
    have "session_reach cr y"
      using session_reach.start [of cr ms ?p "cfg_allow_direct ?c" "probe_delay ?c" "probe_material c" i s3] opened(4)
      by simp
    then show ?thesis using k opened s3 by (auto simp: paired_secrets_def)
  qed (use s3 in auto)
  then show "paired_secrets (ep_paths ep') = paired_secrets (ep_paths ep)"
    and "r = Inr x \<Longrightarrow> sess_peer x = card_node_id cd \<and> session_reach cr x" by blast+
qed

lemma connect_dropped_secrets:
  assumes "calm d"
  shows "paired_secrets (ep_paths (connect_dropped cr cd d ep)) = paired_secrets (ep_paths ep)"
proof -
  let ?p = "card_node_id cd"
  obtain s i where s: "begin_session ?p (register_peer cr ?p (ep_paths ep)) = (s, i)" by (rule prod.exhaust)
  obtain s2 drv where s2: "set_peer_relays ?p (map spec_plain (relay_urls cd)) s = (s2, drv)" by (rule prod.exhaust)
  have "paired_secrets s2 = paired_secrets (ep_paths ep)"
    using dial_prefix_secrets [OF s s2] by (simp add: paired_secrets_def)
  then show ?thesis using assms s s2 by (simp add: connect_dropped_def calm_def Let_def)
qed

lemma set_book_secrets [simp]: "paired_secrets (set_book b s) = Some (paired b)"
  by (simp add: paired_secrets_def set_book_def)

lemma ep_book_secrets: "ep_book ep = Some b \<Longrightarrow> paired_secrets (ep_paths ep) = Some (paired b)"
  by (simp add: ep_book_def paired_secrets_def)

abbreviation ep_secrets :: "endpoint \<Rightarrow> (node_id \<times> 32 arr) list option" where
  "ep_secrets ep \<equiv> paired_secrets (ep_paths ep)"

lemma pairing_bookkeeping_secrets [simp]:
  "ep_secrets (end_registration reg ep) = ep_secrets ep"
  "ep_secrets (pairing_ended ps ep) = ep_secrets ep"
  by (cases "ep_book ep"; simp add: end_registration_def pairing_ended_def ep_book_secrets)+

lemma endpoint_small_secrets [simp]:
  "ep_secrets (snd (endpoint_card cr t addrs ttl xs ep)) = ep_secrets ep"
  "ep_secrets (endpoint_close ep) = ep_secrets ep"
  by (simp_all add: endpoint_card_def endpoint_close_def paired_secrets_def Let_def)

lemma register_pairing_secrets:
  assumes "register_pairing_secret draws t k lifetime ep = Some (Inr (reg, ep'))"
  shows "ep_secrets ep' = ep_secrets ep"
proof -
  obtain b where b: "ep_book ep = Some b"
    using assms by (auto simp: register_pairing_secret_def split: if_splits option.splits)
  let ?expires = "saturating_add t (word_of_nat (lifetime div 1000))"
  obtain route b' where r: "register_pairing draws k ?expires b = Some (route, b')"
      "ep_paths ep' = set_book b' (ep_paths ep)"
    using assms b by (auto simp: register_pairing_secret_def Let_def split: if_splits)
  then show ?thesis using paired_register_pairing [OF r(1)] ep_book_secrets [OF b] by simp
qed

lemma promote_route_paired:
  assumes "promote_pairing_route t gen route c b = (b', q)"
  shows "paired b' = paired b"
proof (cases "pairing_material c")
  case (Some k)
  obtain b2 ok where p: "promote_pairing route k gen t b = (b2, ok)" by (rule prod.exhaust)
  then have "paired b2 = paired b" using paired_pairing(2) [of route k gen t b] by simp
  then show ?thesis using assms Some p by (cases ok) (auto simp: promote_pairing_route_def)
qed (use assms in \<open>simp add: promote_pairing_route_def\<close>)

lemma finish_pairing_keeps:
  assumes "finish_pairing ms t gen route p i c s = (r, s')"
  shows "paired_secrets s' = paired_secrets s" and "r = Inr ps \<Longrightarrow> session_reach cr (pairing_link ps)"
proof -
  show "paired_secrets s' = paired_secrets s"
  proof (cases "shared (relay_pool s)")
    case None
    then show ?thesis using assms by (auto simp: finish_pairing_def)
  next
    case (Some b)
    obtain b' q where q: "promote_pairing_route t gen route c b = (b', q)" by (rule prod.exhaust)
    have "paired b' = paired b" using q by (rule promote_route_paired)
    then have b': "paired_secrets (set_book b' s) = paired_secrets s" using Some by (simp add: paired_secrets_def set_book_def)
    show ?thesis
      using assms Some q b' session_start_keeps(2) [of ms p False 0 "probe_material c" i "set_book b' s"]
      by (cases q) (auto simp: finish_pairing_def paired_secrets_def split: prod.splits)
  qed
  show "r = Inr ps \<Longrightarrow> session_reach cr (pairing_link ps)"
    using assms session_reach.start [of cr ms p False 0 "probe_material c" i]
    by (auto simp: finish_pairing_def pairing_session_new_def split: option.splits prod.splits sum.splits)
      (metis fst_conv)
qed

lemma is_active_secrets:
  assumes "ep_book ep = Some b" "is_active route expires t b = (b', act)"
  shows "ep_secrets (with_paths ep (set_book b' (ep_paths ep))) = ep_secrets ep"
  using paired_pairing(4) [of route expires t b] ep_book_secrets [OF assms(1)] assms(2) by simp

lemma pairing_prefix_secrets:
  assumes "begin_session p (register_peer cr p (register_peer cr route s)) = (s1, i)"
    and "set_peer_relays route specs s1 = (s2, drv)"
  shows "paired_secrets (copy_relay_route route p s2) = paired_secrets s"
  using dial_prefix_secrets [OF assms] by (simp add: paired_secrets_def)

lemma connect_pairing_keeps:
  assumes "calm d" "connect_pairing cr ms t gen cd reg d ep = (r, ep')"
  shows "ep_secrets ep' = ep_secrets ep" and "r = Inr ps \<Longrightarrow> session_reach cr (pairing_link ps)"
proof -
  let ?p = "card_node_id cd" and ?route = "reg_route reg"
  have "ep_secrets ep' = ep_secrets ep \<and> (r = Inr ps \<longrightarrow> session_reach cr (pairing_link ps))"
  proof (cases "ep_book ep")
    case None
    then show ?thesis using assms(2) by (auto simp: connect_pairing_def Let_def split: if_splits)
  next
    case (Some b)
    obtain b' act where act: "is_active ?route (reg_expires_at reg) t b = (b', act)" by (rule prod.exhaust)
    let ?ep = "with_paths ep (set_book b' (ep_paths ep))"
    have ep: "ep_secrets ?ep = ep_secrets ep" by (rule is_active_secrets [OF Some act])
    obtain s i where s: "begin_session ?p (register_peer cr ?p (register_peer cr ?route (ep_paths ?ep))) = (s, i)"
      by (rule prod.exhaust)
    obtain s2 drv where s2: "set_peer_relays ?route (map spec_plain (relay_urls cd)) s = (s2, drv)" by (rule prod.exhaust)
    obtain q s3 where q: "dial_peer ?p i drv d (copy_relay_route ?route ?p s2) = (q, s3)" by (rule prod.exhaust)
    have s3: "paired_secrets s3 = ep_secrets ep"
      using pairing_prefix_secrets [OF s s2] dial_peer_secrets [OF assms(1), of ?p i drv "copy_relay_route ?route ?p s2"] q ep
      by simp
    consider (early) "ep' = ep \<or> ep' = ?ep" "\<exists>e. r = Inl e"
      | (failed) e where "r = Inl e" "ep_paths ep' = s3"
      | (completed) c s4 where "q = Inr c" "finish_pairing ms t gen ?route ?p i c s3 = (r, s4)" "ep_paths ep' = s4"
      using assms(2) Some act s s2 q
      by (auto simp: connect_pairing_def Let_def split: if_splits sum.splits prod.splits)
    then show ?thesis
    proof cases
      case completed
      then show ?thesis using finish_pairing_keeps [OF completed(2)] s3 by simp
    qed (use ep s3 in auto)
  qed
  then show "ep_secrets ep' = ep_secrets ep" and "r = Inr ps \<Longrightarrow> session_reach cr (pairing_link ps)" by blast+
qed

lemma pairing_dropped_secrets:
  assumes "calm d"
  shows "ep_secrets (pairing_dropped cr t cd reg d ep) = ep_secrets ep"
proof (cases "ep_book ep")
  case None
  then show ?thesis by (simp add: pairing_dropped_def Let_def)
next
  case (Some b)
  let ?p = "card_node_id cd" and ?route = "reg_route reg"
  obtain b' act where act: "is_active ?route (reg_expires_at reg) t b = (b', act)" by (rule prod.exhaust)
  let ?ep = "with_paths ep (set_book b' (ep_paths ep))"
  have ep: "ep_secrets ?ep = ep_secrets ep" by (rule is_active_secrets [OF Some act])
  obtain s i where s: "begin_session ?p (register_peer cr ?p (register_peer cr ?route (ep_paths ?ep))) = (s, i)"
    by (rule prod.exhaust)
  obtain s2 drv where s2: "set_peer_relays ?route (map spec_plain (relay_urls cd)) s = (s2, drv)" by (rule prod.exhaust)
  have "paired_secrets (meanwhile d (copy_relay_route ?route ?p s2)) = ep_secrets ep"
    using pairing_prefix_secrets [OF s s2] assms ep by (simp add: calm_def)
  then show ?thesis using Some act s s2 ep by (simp add: pairing_dropped_def Let_def)
qed

section \<open>The invariant of the engine\<close>

text \<open>A route's card is its node's with the retained serial, and its cached session is with that node.\<close>

definition route_fits :: "Session.link_session list \<Rightarrow> route_state \<Rightarrow> bool" where
  "route_fits xs rs \<longleftrightarrow>
     card_node_id (rs_card rs) = rs_node rs \<and> serial (rs_card rs) = rs_serial rs \<and>
     (case rs_session rs of Some i \<Rightarrow> i < length xs \<and> sess_peer (xs ! i) = rs_node rs | None \<Rightarrow> True)"

definition route_nodes :: "engine \<Rightarrow> node_id set" where
  "route_nodes e = rs_node ` snd ` set (eng_routes e)"

definition engine_ok :: "crypto \<Rightarrow> engine \<Rightarrow> bool" where
  "engine_ok cr e \<longleftrightarrow>
     distinct (map fst (eng_routes e)) \<and>
     (\<exists>qs. ep_secrets (eng_endpoint e) = Some qs \<and> fst ` set qs \<subseteq> route_nodes e) \<and>
     (\<forall>rs\<in>snd ` set (eng_routes e). route_fits (eng_sessions e) rs) \<and>
     (\<forall>x\<in>set (eng_sessions e). session_reach cr x)"

text \<open>The sessions may grow and change as long as each keeps its peer.\<close>

definition extends :: "crypto \<Rightarrow> Session.link_session list \<Rightarrow> Session.link_session list \<Rightarrow> bool" where
  "extends cr xs ys \<longleftrightarrow>
     length xs \<le> length ys \<and> (\<forall>i<length xs. sess_peer (ys ! i) = sess_peer (xs ! i)) \<and>
     ((\<forall>x\<in>set xs. session_reach cr x) \<longrightarrow> (\<forall>y\<in>set ys. session_reach cr y))"

lemma extends_refl [simp]: "extends cr xs xs"
  by (simp add: extends_def)

lemma extends_trans: "extends cr xs ys \<Longrightarrow> extends cr ys zs \<Longrightarrow> extends cr xs zs"
  by (fastforce simp: extends_def)

lemma extends_snoc: "session_reach cr x \<Longrightarrow> extends cr xs (xs @ [x])"
  by (auto simp: extends_def nth_append)

lemma extends_update:
  assumes "session_reach cr (xs ! i) \<Longrightarrow> session_reach cr x" "sess_peer x = sess_peer (xs ! i)"
  shows "extends cr xs (xs[i := x])"
proof (cases "i < length xs")
  case True
  then show ?thesis
    using assms set_update_subset_insert [of xs i x] by (auto simp: extends_def nth_list_update)
next
  case False
  then show ?thesis by (simp add: list_update_beyond)
qed

lemma route_fits_extends: "route_fits xs rs \<Longrightarrow> extends cr xs ys \<Longrightarrow> route_fits ys rs"
  by (auto simp: route_fits_def extends_def split: option.splits)

text \<open>A step that leaves the table and the secrets alone.\<close>

lemma engine_ok_quiet:
  assumes "engine_ok cr e" "eng_routes e' = eng_routes e" "ep_secrets (eng_endpoint e') = ep_secrets (eng_endpoint e)"
    and "extends cr (eng_sessions e) (eng_sessions e')"
  shows "engine_ok cr e'"
  using assms route_fits_extends [OF _ assms(4)] unfolding engine_ok_def route_nodes_def extends_def by auto

lemma set_alist_update:
  "distinct (map fst t) \<Longrightarrow> set (AList.update k v t) = insert (k, v) (set (AList.delete k t))"
proof (induction t)
  case (Cons x t)
  have "AList.delete k t = t" if "k \<notin> fst ` set t"
    using that by (simp add: AList.delete_id)
  then show ?case using Cons by (cases x) auto
qed simp

text \<open>A step that replaces one entry of the table.\<close>

lemma engine_ok_update:
  assumes "engine_ok cr e" "eng_routes e' = AList.update ident rs (eng_routes e)" "route_fits (eng_sessions e') rs"
    and "extends cr (eng_sessions e) (eng_sessions e')" "ep_secrets (eng_endpoint e') = Some qs"
    and "fst ` set qs \<subseteq> insert (rs_node rs) (rs_node ` snd ` set (AList.delete ident (eng_routes e)))"
  shows "engine_ok cr e'"
proof -
  have t: "set (AList.update ident rs (eng_routes e)) = insert (ident, rs) (set (AList.delete ident (eng_routes e)))"
    using assms(1) by (simp add: engine_ok_def set_alist_update)
  have "set (AList.delete ident (eng_routes e)) \<subseteq> set (eng_routes e)" by (simp add: AList.delete_eq)
  then have "\<forall>r\<in>snd ` set (eng_routes e'). route_fits (eng_sessions e') r"
    using assms(1,3) route_fits_extends [OF _ assms(4)] unfolding assms(2) t by (auto simp: engine_ok_def)
  then show ?thesis
    using assms by (auto simp: engine_ok_def route_nodes_def t extends_def intro!: AList.distinct_update)
qed

section \<open>Every step keeps it\<close>

abbreviation eng_secrets :: "engine \<Rightarrow> (node_id \<times> 32 arr) list option" where
  "eng_secrets e \<equiv> ep_secrets (eng_endpoint e)"

lemma with_endpoint_simps [simp]:
  "eng_endpoint (with_endpoint e ep) = ep" "eng_routes (with_endpoint e ep) = eng_routes e"
  "eng_sessions (with_endpoint e ep) = eng_sessions e" "eng_stopped (with_endpoint e ep) = eng_stopped e"
  "eng_stop (with_endpoint e ep) = eng_stop e" "eng_gate (with_endpoint e ep) = eng_gate e"
  "eng_file_holders (with_endpoint e ep) = eng_file_holders e"
  by (simp_all add: with_endpoint_def)

lemma on_book_simps [simp]:
  "eng_routes (on_book f e) = eng_routes e" "eng_sessions (on_book f e) = eng_sessions e"
  "eng_stopped (on_book f e) = eng_stopped e" "eng_stop (on_book f e) = eng_stop e"
  by (simp_all add: on_book_def Let_def split: option.split)

lemma on_book_secrets:
  "eng_secrets (on_book (upsert_paired n k) e) = map_option (AList.update n k) (eng_secrets e)"
  "eng_secrets (on_book (remove_paired n) e) = map_option (AList.delete n) (eng_secrets e)"
  by (cases "ep_book (eng_endpoint e)";
      simp add: on_book_def ep_book_secrets upsert_paired_def remove_paired_def Let_def; simp add: ep_book_def paired_secrets_def)+

lemma on_session_simps [simp]:
  "eng_routes (on_session f i e) = eng_routes e" "eng_endpoint (on_session f i e) = eng_endpoint e"
  "eng_stopped (on_session f i e) = eng_stopped e" "eng_stop (on_session f i e) = eng_stop e"
  by (simp_all add: on_session_def)

definition session_op :: "(Session.link_session \<Rightarrow> Session.link_session) \<Rightarrow> bool" where
  "session_op f \<longleftrightarrow> (\<forall>cr x. (session_reach cr x \<longrightarrow> session_reach cr (f x)) \<and> sess_peer (f x) = sess_peer x)"

lemma session_ops: "session_op (session_close reason)" "session_op reannounce"
  using session_reach.close_call session_reach.announce_call
  by (auto simp: session_op_def session_close_def reannounce_def request_direct_def)

lemma on_session_extends: "session_op f \<Longrightarrow> extends cr (eng_sessions e) (eng_sessions (on_session f i e))"
  by (simp add: on_session_def session_op_def extends_update)

lemma fold_on_session:
  assumes "session_op f"
  shows "eng_routes (fold (on_session f) is e) = eng_routes e \<and>
    eng_endpoint (fold (on_session f) is e) = eng_endpoint e \<and>
    eng_stopped (fold (on_session f) is e) = eng_stopped e \<and> eng_stop (fold (on_session f) is e) = eng_stop e \<and>
    extends cr (eng_sessions e) (eng_sessions (fold (on_session f) is e))"
proof (induction "is" arbitrary: e)
  case (Cons i "is")
  show ?case using Cons.IH [of "on_session f i e"] on_session_extends [OF assms, of cr e i] extends_trans by auto
qed simp

lemma close_cached_quiet:
  "eng_routes (close_cached c e) = eng_routes e" "eng_endpoint (close_cached c e) = eng_endpoint e"
  "eng_stopped (close_cached c e) = eng_stopped e" "eng_stop (close_cached c e) = eng_stop e"
  "extends cr (eng_sessions e) (eng_sessions (close_cached c e))"
  using on_session_extends [OF session_ops(1)] by (auto simp: close_cached_def split: option.split)

lemma engine_dial_keeps:
  assumes "engine_dial cr v cd e = (r, e')"
  shows "eng_routes e' = eng_routes e" "eng_secrets e' = eng_secrets e"
    "extends cr (eng_sessions e) (eng_sessions e')" "eng_stopped e' = eng_stopped e"
    and "r = Inr i \<Longrightarrow> i < length (eng_sessions e') \<and> sess_peer (eng_sessions e' ! i) = card_node_id cd"
proof -
  have calm: "calm (env_dial cr v)" by (simp add: calm_def env_dial_secrets)
  note dropped = connect_dropped_secrets [OF calm]
  have "eng_routes e' = eng_routes e \<and> eng_secrets e' = eng_secrets e \<and>
      extends cr (eng_sessions e) (eng_sessions e') \<and> eng_stopped e' = eng_stopped e \<and>
      (r = Inr i \<longrightarrow> i < length (eng_sessions e') \<and> sess_peer (eng_sessions e' ! i) = card_node_id cd)"
  proof (cases "\<not> eng_stop e \<and> fate v = Completes")
    case False
    then show ?thesis
      using assms dropped by (cases "fate v") (auto simp: engine_dial_def split: if_splits)
  next
    case True
    obtain q ep where q: "endpoint_connect cr (call_ms v) cd (env_dial cr v) (eng_endpoint e) = (q, ep)"
      by (rule prod.exhaust)
    note k = connect_keeps [OF calm q]
    show ?thesis
    proof (cases q)
      case (Inl reason)
      then show ?thesis using assms True q k(1) by (auto simp: engine_dial_def)
    next
      case (Inr x)
      have "extends cr (eng_sessions e) (eng_sessions e @ [x])" by (rule extends_snoc) (use k(2) Inr in simp)
      then show ?thesis using assms True q k Inr by (auto simp: engine_dial_def)
    qed
  qed
  then show "eng_routes e' = eng_routes e" "eng_secrets e' = eng_secrets e"
    "extends cr (eng_sessions e) (eng_sessions e')" "eng_stopped e' = eng_stopped e"
    and "r = Inr i \<Longrightarrow> i < length (eng_sessions e') \<and> sess_peer (eng_sessions e' ! i) = card_node_id cd" by blast+
qed

lemma route_installed:
  assumes "engine_ok cr e" "map_of (eng_routes e) ident = Some rs"
  shows "route_fits (eng_sessions e) rs"
proof -
  have "rs \<in> snd ` set (eng_routes e)" using map_of_SomeD [OF assms(2)] by (metis imageI snd_conv)
  then show ?thesis using assms(1) unfolding engine_ok_def by blast
qed

lemma secrets_below_update:
  assumes "engine_ok cr e" "map_of (eng_routes e) ident = Some rs" "rs_node rs' = rs_node rs" "eng_secrets e = Some qs"
  shows "fst ` set qs \<subseteq> insert (rs_node rs') (rs_node ` snd ` set (AList.delete ident (eng_routes e)))"
proof
  fix n
  assume "n \<in> fst ` set qs"
  moreover have "fst ` set qs \<subseteq> route_nodes e" using assms(1,4) unfolding engine_ok_def by auto
  ultimately have "n \<in> route_nodes e" by blast
  then obtain k r where r: "(k, r) \<in> set (eng_routes e)" "rs_node r = n" unfolding route_nodes_def by auto
  show "n \<in> insert (rs_node rs') (rs_node ` snd ` set (AList.delete ident (eng_routes e)))"
  proof (cases "k = ident")
    case True
    then have "r = rs" using r assms(1,2) by (auto simp: engine_ok_def)
    then show ?thesis using r assms(3) by simp
  next
    case False
    then have "(k, r) \<in> set (AList.delete ident (eng_routes e))" using r by (simp add: AList.delete_eq)
    then show ?thesis using r by force
  qed
qed

text \<open>The session a route's request goes over is with the node of the route.\<close>

lemma session_of_route_keeps:
  assumes "engine_ok cr e" "map_of (eng_routes e) ident = Some rs" "current \<in> {rs_session rs, None}"
    and "session_of_route cr v ident rs current e = (r, e')"
  shows "engine_ok cr e'" and "eng_stopped e' = eng_stopped e"
    and "r = Inr i \<Longrightarrow> i < length (eng_sessions e') \<and> sess_peer (eng_sessions e' ! i) = rs_node rs"
proof -
  have fits: "route_fits (eng_sessions e) rs" by (rule route_installed [OF assms(1,2)])
  have "engine_ok cr e' \<and> eng_stopped e' = eng_stopped e \<and>
      (r = Inr i \<longrightarrow> i < length (eng_sessions e') \<and> sess_peer (eng_sessions e' ! i) = rs_node rs)"
  proof (cases current)
    case (Some j)
    then have "rs_session rs = Some j" using assms(3) by auto
    moreover have "r = Inr j \<and> e' = e" using Some assms(4) by (simp add: session_of_route_def)
    ultimately show ?thesis using assms(1) fits by (auto simp: route_fits_def)
  next
    case None
    obtain q e1 where q: "engine_dial cr v (rs_card rs) e = (q, e1)" by (rule prod.exhaust)
    note k = engine_dial_keeps [OF q]
    have node: "card_node_id (rs_card rs) = rs_node rs" using fits by (simp add: route_fits_def)
    show ?thesis
    proof (cases q)
      case (Inl err)
      then show ?thesis
        using assms(4) None q k engine_ok_quiet [OF assms(1) k(1,2,3)] by (auto simp: session_of_route_def)
    next
      case (Inr j)
      let ?rs = "rs\<lparr>rs_session := Some j\<rparr>"
      let ?e = "e1\<lparr>eng_routes := AList.update ident ?rs (eng_routes e1)\<rparr>"
      obtain qs where qs: "eng_secrets e = Some qs" using assms(1) by (auto simp: engine_ok_def)
      have "route_fits (eng_sessions ?e) ?rs"
        using fits k(5) [OF Inr] node by (simp add: route_fits_def)
      then have "engine_ok cr ?e"
        using engine_ok_update [OF assms(1), of ?e ident ?rs qs] k(1,2,3) qs
          secrets_below_update [OF assms(1,2) _ qs, of ?rs] by simp
      then show ?thesis
        using assms(4) None q Inr k(4) k(5) [OF Inr] node by (auto simp: session_of_route_def)
    qed
  qed
  then show "engine_ok cr e'" and "eng_stopped e' = eng_stopped e"
    and "r = Inr i \<Longrightarrow> i < length (eng_sessions e') \<and> sess_peer (eng_sessions e' ! i) = rs_node rs" by blast+
qed

lemma cached_live_cases: "cached_live e rs \<in> {rs_session rs, None}"
  by (simp add: cached_live_def split: option.split)

lemma engine_ok_fields [simp]:
  "engine_ok cr (e\<lparr>eng_stop := b\<rparr>) = engine_ok cr e" "engine_ok cr (e\<lparr>eng_stopped := b\<rparr>) = engine_ok cr e"
  "engine_ok cr (e\<lparr>eng_file_holders := n\<rparr>) = engine_ok cr e"
  by (simp_all add: engine_ok_def route_nodes_def)

lemma engine_ok_drop [simp]:
  "engine_ok cr (drop_holder e) = engine_ok cr e" "engine_ok cr (drop_permit permit e) = engine_ok cr e"
  by (simp_all add: drop_holder_def drop_permit_def split: option.split)

lemma open_socket_ok:
  assumes "engine_ok cr e"
  shows "engine_ok cr (snd (engine_open_socket cr v url stream upgrade ident e))"
proof (cases "\<exists>u rs. url = Inr u \<and> \<not> eng_stopped e \<and> map_of (eng_routes e) ident = Some rs")
  case True
  then obtain u rs where u: "url = Inr u" "\<not> eng_stopped e" "map_of (eng_routes e) ident = Some rs" by blast
  obtain r e1 where r: "session_of_route cr (patient v) ident rs (cached_live e rs) e = (r, e1)" by (rule prod.exhaust)
  have "engine_ok cr e1" by (rule session_of_route_keeps(1) [OF assms u(3) cached_live_cases r])
  then show ?thesis
    using u r assms by (simp add: engine_open_socket_def split: sum.split)
next
  case False
  then show ?thesis using assms by (auto simp: engine_open_socket_def split: sum.split option.split)
qed

lemma file_exchange_ok [simp]: "engine_ok cr (snd (file_exchange cr hx w q m r n e)) = engine_ok cr e"
  by (simp add: file_exchange_def Let_def split: sum.split)

lemma request_reserved_ok:
  assumes "engine_ok cr e"
  shows "engine_ok cr (snd (request_json_reserved cr hx v w q timeout permit e))"
proof (cases "\<exists>m r rs. validate_http_request hx q = Inr (m, r) \<and> permit_matches e permit r \<and> \<not> eng_stopped e \<and>
    map_of (eng_routes e) (req_route_id q) = Some rs")
  case True
  then obtain m r rs where q: "validate_http_request hx q = Inr (m, r)" "permit_matches e permit r" "\<not> eng_stopped e"
    "map_of (eng_routes e) (req_route_id q) = Some rs" by blast
  obtain i e1 where i: "session_of_route cr v (req_route_id q) rs (cached_live e rs) e = (i, e1)" by (rule prod.exhaust)
  have e1: "engine_ok cr e1" by (rule session_of_route_keeps(1) [OF assms q(4) cached_live_cases i])
  obtain fr fe where f: "file_exchange cr hx w q m r (rs_node rs) e1 = (fr, fe)" by (rule prod.exhaust)
  then have "engine_ok cr fe" using file_exchange_ok [of cr hx w q m r "rs_node rs" e1] e1 by simp
  then show ?thesis
    using q i f e1 by (cases i; cases "http_sender w") (simp_all add: request_json_reserved_def)
next
  case False
  show ?thesis
  proof (cases "validate_http_request hx q")
    case (Inr mr)
    obtain m r where "mr = (m, r)" by (rule prod.exhaust)
    then show ?thesis
      using False Inr assms
      by (cases "map_of (eng_routes e) (req_route_id q)") (auto simp: request_json_reserved_def)
  qed (simp add: request_json_reserved_def assms)
qed

lemma request_ok:
  assumes "engine_ok cr e"
  shows "engine_ok cr (snd (request_json cr hx v w q timeout e))"
proof (cases "validate_http_request hx q")
  case (Inr mr)
  have "engine_ok cr (e\<lparr>eng_file_holders := 1\<rparr>)" using assms by simp
  then show ?thesis
    using Inr assms request_reserved_ok [of cr _ hx v w q timeout]
    by (cases mr) (auto simp: request_json_def reserve_file_request_def)
qed (simp add: request_json_def assms)

lemma delete_route_ok:
  assumes "engine_ok cr e"
  shows "engine_ok cr (snd (delete_route cr v w ident operation e))"
proof (cases "map_of (eng_routes e) ident")
  case (Some rs)
  obtain r e1 where r: "session_of_route cr (patient v) ident rs (rs_session rs) e = (r, e1)" by (rule prod.exhaust)
  have "engine_ok cr e1" by (rule session_of_route_keeps(1) [OF assms Some _ r]) simp
  then show ?thesis using Some r assms by (simp add: delete_route_def split: sum.split)
qed (simp add: delete_route_def assms)

lemma verify_route_fits:
  assumes "verify_route cr r = Inr (n, c)"
  shows "route_fits xs \<lparr>rs_node = n, rs_serial = route_serial r, rs_card = c, rs_session = None\<rparr>"
proof -
  let ?ctx = "after_serial (expecting (verify_context_new (card_verified_at r)) n) (route_serial r - 1)"
  have c: "card_verify cr (route_card_bytes r) ?ctx = Inr c" "serial c = route_serial r"
    using assms by (auto simp: verify_route_def split: if_splits sum.splits)
  have "card_node_id c = n"
    using card_verify_sound [OF c(1)] by (simp add: card_ok_def after_serial_def expecting_def)
  then show ?thesis using c(2) by (simp add: route_fits_def)
qed

lemma delete_other:
  "(k, r) \<in> set t \<Longrightarrow> k \<noteq> ident \<Longrightarrow> rs_node r \<in> rs_node ` snd ` set (AList.delete ident t)"
  by (force simp: AList.delete_eq)

text \<open>The secrets left once a route's own is removed belong to the other routes.\<close>

lemma secrets_after_delete:
  assumes "engine_ok cr e" "map_of (eng_routes e) ident = Some old" "eng_secrets e = Some qs"
  shows "fst ` set (AList.delete (rs_node old) qs) \<subseteq> rs_node ` snd ` set (AList.delete ident (eng_routes e))"
proof
  fix n
  assume n: "n \<in> fst ` set (AList.delete (rs_node old) qs)"
  then have "n \<in> fst ` set qs" and other: "n \<noteq> rs_node old" by (auto simp: AList.delete_eq)
  moreover have "fst ` set qs \<subseteq> route_nodes e" using assms(1,3) unfolding engine_ok_def by auto
  ultimately have "n \<in> route_nodes e" by blast
  then obtain k r where r: "(k, r) \<in> set (eng_routes e)" "rs_node r = n" unfolding route_nodes_def by auto
  have "map_of (eng_routes e) k = Some r" using r(1) assms(1) by (simp add: engine_ok_def)
  then have "k \<noteq> ident" using r(2) other assms(2) by fastforce
  from delete_other [OF r(1) this] show "n \<in> rs_node ` snd ` set (AList.delete ident (eng_routes e))"
    by (simp only: r(2))
qed

lemma secrets_no_route:
  assumes "engine_ok cr e" "map_of (eng_routes e) ident = None" "eng_secrets e = Some qs"
  shows "fst ` set qs \<subseteq> rs_node ` snd ` set (AList.delete ident (eng_routes e))"
proof -
  have "AList.delete ident (eng_routes e) = eng_routes e"
    using assms(2) by (simp add: map_of_eq_None_iff AList.delete_id)
  then show ?thesis using assms(1,3) by (auto simp: engine_ok_def route_nodes_def)
qed

lemma fst_set_update: "fst ` set (AList.update n k qs) = insert n (fst ` set qs)"
  by (simp add: dom_map_of_conv_image_fst [symmetric] update_conv')

lemma upsert_route_ok:
  assumes "engine_ok cr e"
  shows "engine_ok cr (snd (upsert_route cr r e))"
proof (cases "\<exists>n c k. verify_route cr r = Inr (n, c) \<and> secret (route_secret r) = Inr k")
  case True
  then obtain n c k where v: "verify_route cr r = Inr (n, c)" "secret (route_secret r) = Inr k" by blast
  let ?prev = "map_of (eng_routes e) (route_id r)"
  let ?rs = "\<lparr>rs_node = n, rs_serial = route_serial r, rs_card = c, rs_session = None\<rparr>"
  let ?e1 = "case ?prev of Some old \<Rightarrow> on_book (remove_paired (rs_node old)) e | None \<Rightarrow> e"
  let ?e2 = "on_book (upsert_paired n k) ?e1"
  let ?e3 = "?e2\<lparr>eng_routes := AList.update (route_id r) ?rs (eng_routes ?e2)\<rparr>"
  obtain qs where qs: "eng_secrets e = Some qs" using assms by (auto simp: engine_ok_def)
  have "\<exists>ps. eng_secrets ?e1 = Some ps \<and> fst ` set ps \<subseteq> rs_node ` snd ` set (AList.delete (route_id r) (eng_routes e))"
    using secrets_after_delete [OF assms _ qs, of "route_id r"] secrets_no_route [OF assms _ qs, of "route_id r"] qs
    by (cases ?prev) (simp_all add: on_book_secrets)
  then obtain ps where ps: "eng_secrets ?e1 = Some ps"
    "fst ` set ps \<subseteq> rs_node ` snd ` set (AList.delete (route_id r) (eng_routes e))" by blast
  have rest: "eng_routes ?e1 = eng_routes e" "eng_sessions ?e1 = eng_sessions e" by (simp_all split: option.split)
  let ?e4 = "close_cached (Option.bind ?prev rs_session) ?e3"
  have "engine_ok cr ?e4"
  proof (rule engine_ok_update [OF assms])
    show "eng_routes ?e4 = AList.update (route_id r) ?rs (eng_routes e)" by (simp add: close_cached_quiet rest)
    show "route_fits (eng_sessions ?e4) ?rs" by (rule verify_route_fits [OF v(1)])
    show "extends cr (eng_sessions e) (eng_sessions ?e4)"
      using close_cached_quiet(5) [of cr ?e3] by (simp add: rest)
    show "eng_secrets ?e4 = Some (AList.update n k ps)"
      using ps by (simp add: close_cached_quiet on_book_secrets)
    show "fst ` set (AList.update n k ps) \<subseteq>
        insert (rs_node ?rs) (rs_node ` snd ` set (AList.delete (route_id r) (eng_routes e)))"
      using ps(2) by (auto simp: fst_set_update)
  qed
  then show ?thesis using v assms by (simp add: upsert_route_def Let_def)
next
  case False
  then show ?thesis using assms by (auto simp: upsert_route_def split: sum.split)
qed

lemma remove_route_ok:
  assumes "engine_ok cr e"
  shows "engine_ok cr (snd (remove_route ident e))"
proof (cases "map_of (eng_routes e) ident")
  case (Some rs)
  let ?t = "AList.delete ident (eng_routes e)"
  let ?e1 = "on_book (remove_paired (rs_node rs)) (e\<lparr>eng_routes := ?t\<rparr>)"
  let ?e2 = "close_cached (rs_session rs) ?e1"
  obtain qs where qs: "eng_secrets e = Some qs" using assms by (auto simp: engine_ok_def)
  have sub: "set ?t \<subseteq> set (eng_routes e)" by (simp add: AList.delete_eq)
  have ext: "extends cr (eng_sessions e) (eng_sessions ?e2)" using close_cached_quiet(5) [of cr ?e1] by simp
  have "eng_secrets ?e2 = Some (AList.delete (rs_node rs) qs)"
    using qs on_book_secrets(2) [of "rs_node rs" "e\<lparr>eng_routes := ?t\<rparr>"] by (simp add: close_cached_quiet)
  moreover have "fst ` set (AList.delete (rs_node rs) qs) \<subseteq> route_nodes ?e2"
    using secrets_after_delete [OF assms Some qs] by (simp add: route_nodes_def close_cached_quiet)
  moreover have "\<forall>r\<in>snd ` set ?t. route_fits (eng_sessions ?e2) r"
  proof
    fix r
    assume "r \<in> snd ` set ?t"
    then have "route_fits (eng_sessions e) r" using assms sub unfolding engine_ok_def by blast
    then show "route_fits (eng_sessions ?e2) r" using ext by (rule route_fits_extends)
  qed
  moreover have "distinct (map fst ?t)" using assms by (simp add: engine_ok_def distinct_delete)
  moreover have "\<forall>x\<in>set (eng_sessions ?e2). session_reach cr x"
    using ext assms unfolding extends_def engine_ok_def by blast
  ultimately have "engine_ok cr ?e2" unfolding engine_ok_def by (simp add: close_cached_quiet)
  then show ?thesis using Some assms by (simp add: remove_route_def)
qed (simp add: remove_route_def assms)

lemma reannounce_ok:
  assumes "engine_ok cr e"
  shows "engine_ok cr (snd (engine_reannounce e))"
proof -
  note f = fold_on_session [OF session_ops(2), of "cached_sessions e" e cr]
  have "engine_ok cr (fold (on_session reannounce) (cached_sessions e) e)"
    by (rule engine_ok_quiet [OF assms]) (use f in simp_all)
  then show ?thesis using assms by (simp add: engine_reannounce_def)
qed

lemma end_pairing_simps [simp]:
  "eng_routes (end_pairing reg e) = eng_routes e" "eng_sessions (end_pairing reg e) = eng_sessions e"
  "eng_secrets (end_pairing reg e) = eng_secrets e" "eng_stopped (end_pairing reg e) = eng_stopped e"
  by (simp_all add: end_pairing_def)

lemma end_pairing_ok: "engine_ok cr e \<Longrightarrow> engine_ok cr (end_pairing reg e)"
  using engine_ok_quiet [of cr e "end_pairing reg e"] by simp

lemma with_endpoint_ok: "engine_ok cr e \<Longrightarrow> ep_secrets ep = eng_secrets e \<Longrightarrow> engine_ok cr (with_endpoint e ep)"
  using engine_ok_quiet [of cr e "with_endpoint e ep"] by simp

lemma pair_dial_ok:
  assumes "engine_ok cr e"
  shows "engine_ok cr (snd (pair_dial cr pv offered reg e))"
proof -
  let ?v = "pair_call pv"
  have calm: "calm (env_dial cr ?v)" by (simp add: calm_def env_dial_secrets)
  obtain r ep where r: "connect_pairing cr (call_ms ?v) (call_now ?v) (pair_gen_no pv) offered reg (env_dial cr ?v)
      (eng_endpoint e) = (r, ep)" by (rule prod.exhaust)
  note k = connect_pairing_keeps [OF calm r]
  have dropped: "engine_ok cr (with_endpoint e (pairing_dropped cr (call_now ?v) offered reg (env_dial cr ?v) (eng_endpoint e)))"
    by (rule with_endpoint_ok [OF assms pairing_dropped_secrets [OF calm]])
  have failed: "engine_ok cr (with_endpoint e ep)" by (rule with_endpoint_ok [OF assms k(1)])
  have joined: "engine_ok cr ((with_endpoint e ep)\<lparr>eng_sessions := eng_sessions e @ [session_close 3 (pairing_link ps)]\<rparr>)"
    if "r = Inr ps" for ps
    by (rule engine_ok_quiet [OF assms])
      (use k(1) extends_snoc [OF session_reach.close_call [OF k(2) [OF that]]] in simp_all)
  show ?thesis
    using assms dropped failed joined r by (cases r) (simp_all add: pair_dial_def Let_def)
qed

lemma pair_start_ok:
  assumes "engine_ok cr e" "pair_start cr pv b e = Some (res, e')"
  shows "engine_ok cr e'"
proof (cases "pair_check cr (call_now (pair_call pv)) b e")
  case (Inl err)
  then show ?thesis using assms by (simp add: pair_start_def)
next
  case (Inr x)
  obtain lifetime k n offered where x: "x = (lifetime, k, n, offered)" by (rule prod_cases4)
  let ?t = "call_now (pair_call pv)"
  let ?reg = "register_pairing_secret (pair_draws pv) ?t k (lifetime * 1000) (eng_endpoint e)"
  show ?thesis
  proof (cases "\<exists>reg ep. ?reg = Some (Inr (reg, ep))")
    case False
    then show ?thesis
      using assms Inr x by (auto simp: pair_start_def split: option.splits sum.splits)
  next
    case True
    then obtain reg ep where reg: "?reg = Some (Inr (reg, ep))" by blast
    obtain c ep2 where c: "endpoint_card cr ?t (pair_addrs pv) MAX_LIFETIME_SECONDS [] ep = (c, ep2)" by (rule prod.exhaust)
    have "ep_secrets ep2 = eng_secrets e"
      using register_pairing_secrets [OF reg] endpoint_small_secrets(1) [of cr ?t "pair_addrs pv" MAX_LIFETIME_SECONDS "[]" ep] c
      by simp
    then have e2: "engine_ok cr (with_endpoint e ep2)" by (rule with_endpoint_ok [OF assms(1)])
    obtain r e3 where r: "pair_dial cr pv offered reg (with_endpoint e ep2) = (r, e3)" by (rule prod.exhaust)
    have e3: "engine_ok cr e3" "engine_ok cr (end_pairing reg e3)" "engine_ok cr (end_pairing reg (e3\<lparr>eng_stop := True\<rparr>))"
      using pair_dial_ok [OF e2, of pv offered reg] r end_pairing_ok by auto
    then show ?thesis
      using assms(2) Inr x reg c r
      by (cases r) (auto simp: pair_start_def split: if_splits sum.splits)
  qed
qed

lemma pair_install_ok:
  assumes "engine_ok cr e"
  shows "engine_ok cr (snd (pair_install ident t c k e))"
proof -
  let ?prior = "map_of (eng_routes e) ident" and ?n = "card_node_id c"
  let ?rs = "\<lparr>rs_node = ?n, rs_serial = serial c, rs_card = c, rs_session = None\<rparr>"
  let ?e1 = "on_book (upsert_paired ?n k) e"
  let ?e2 = "?e1\<lparr>eng_routes := AList.update ident ?rs (eng_routes ?e1)\<rparr>"
  let ?e3 = "close_cached (Option.bind ?prior rs_session) ?e2"
  obtain qs where qs: "eng_secrets e = Some qs" using assms by (auto simp: engine_ok_def)
  have ok: "engine_ok cr ?e3" if "\<forall>old. ?prior = Some old \<longrightarrow> rs_node old = ?n"
  proof (rule engine_ok_update [OF assms])
    show "eng_routes ?e3 = AList.update ident ?rs (eng_routes e)" by (simp add: close_cached_quiet)
    show "route_fits (eng_sessions ?e3) ?rs" by (simp add: route_fits_def)
    show "extends cr (eng_sessions e) (eng_sessions ?e3)" using close_cached_quiet(5) [of cr ?e2] by simp
    show "eng_secrets ?e3 = Some (AList.update ?n k qs)"
      using qs by (simp add: close_cached_quiet on_book_secrets)
    have "fst ` set qs \<subseteq> insert ?n (rs_node ` snd ` set (AList.delete ident (eng_routes e)))"
      using secrets_below_update [OF assms _ _ qs, of ident _ ?rs] secrets_no_route [OF assms _ qs, of ident] that
      by (cases ?prior) auto
    then show "fst ` set (AList.update ?n k qs) \<subseteq> insert (rs_node ?rs) (rs_node ` snd ` set (AList.delete ident (eng_routes e)))"
      by (auto simp: fst_set_update)
  qed
  show ?thesis using ok assms by (cases ?prior) (simp_all add: pair_install_def Let_def)
qed

lemma stop_ok:
  assumes "engine_ok cr e"
  shows "engine_ok cr (finish_stop e)" and "eng_secrets (finish_stop e) = eng_secrets e"
    and "map (\<lambda>(k, r). (k, rs_node r)) (eng_routes (finish_stop e)) = map (\<lambda>(k, r). (k, rs_node r)) (eng_routes e)"
proof -
  let ?e1 = "fold (on_session (session_close 1)) (cached_sessions e) e"
  let ?forget = "map_prod id (\<lambda>rs. rs\<lparr>rs_session := None\<rparr>) :: string \<times> route_state \<Rightarrow> string \<times> route_state"
  note f = fold_on_session [OF session_ops(1), of 1 "cached_sessions e" e cr]
  have e1: "engine_ok cr ?e1" by (rule engine_ok_quiet [OF assms]) (use f in simp_all)
  have t: "eng_routes (finish_stop e) = map ?forget (eng_routes e)" by (simp add: finish_stop_def Let_def)
  show s: "eng_secrets (finish_stop e) = eng_secrets e" using f by (simp add: finish_stop_def Let_def)
  have x: "eng_sessions (finish_stop e) = eng_sessions ?e1" by (simp add: finish_stop_def Let_def)
  have nodes: "route_nodes (finish_stop e) = route_nodes e"
    unfolding route_nodes_def t by (simp add: image_image)
  have "\<forall>rs\<in>snd ` set (eng_routes (finish_stop e)). route_fits (eng_sessions (finish_stop e)) rs"
    using e1 f unfolding t x engine_ok_def by (auto simp: route_fits_def)
  moreover have "distinct (map fst (eng_routes (finish_stop e)))"
    using assms unfolding t by (simp add: engine_ok_def comp_def)
  ultimately show "engine_ok cr (finish_stop e)"
    using assms e1 unfolding engine_ok_def s nodes x by blast
  show "map (\<lambda>(k, r). (k, rs_node r)) (eng_routes (finish_stop e)) = map (\<lambda>(k, r). (k, rs_node r)) (eng_routes e)"
    unfolding t by (simp add: comp_def split_def)
qed

lemma signal_stop_simps [simp]:
  "engine_ok cr (signal_stop e) = engine_ok cr e" "eng_secrets (signal_stop e) = eng_secrets e"
  "eng_routes (signal_stop e) = eng_routes e" "eng_sessions (signal_stop e) = eng_sessions e"
  by (simp_all add: signal_stop_def)

text \<open>Removing the secret of every route of a list removes every secret those routes cover.\<close>

lemma fold_remove_paired:
  "eng_secrets e = Some qs \<Longrightarrow>
     eng_secrets (fold (\<lambda>(ident, rs). on_book (remove_paired (rs_node rs))) t e) =
       Some (filter (\<lambda>(n, k). n \<notin> rs_node ` snd ` set t) qs) \<and>
     eng_routes (fold (\<lambda>(ident, rs). on_book (remove_paired (rs_node rs))) t e) = eng_routes e \<and>
     eng_sessions (fold (\<lambda>(ident, rs). on_book (remove_paired (rs_node rs))) t e) = eng_sessions e \<and>
     eng_stopped (fold (\<lambda>(ident, rs). on_book (remove_paired (rs_node rs))) t e) = eng_stopped e \<and>
     eng_stop (fold (\<lambda>(ident, rs). on_book (remove_paired (rs_node rs))) t e) = eng_stop e"
proof (induction t arbitrary: e qs)
  case (Cons x t)
  let ?e = "on_book (remove_paired (rs_node (snd x))) e"
  have "eng_secrets ?e = Some (AList.delete (rs_node (snd x)) qs)" using Cons.prems by (simp add: on_book_secrets)
  from Cons.IH [OF this] show ?case
    by (simp add: split_def AList.delete_eq filter_filter conj_commute) (metis (mono_tags, lifting))
qed simp

lemma on_session_closes:
  "i < length (eng_sessions e) \<Longrightarrow> conn_closed (eng_sessions e ! i) \<or> i = j \<Longrightarrow>
     conn_closed (eng_sessions (on_session (session_close c) j e) ! i)"
  by (cases "i = j") (auto simp: on_session_def session_close_def)

lemma fold_close_closes:
  "i < length (eng_sessions e) \<Longrightarrow> i \<in> set is \<or> conn_closed (eng_sessions e ! i) \<Longrightarrow>
     conn_closed (eng_sessions (fold (on_session (session_close c)) is e) ! i)"
proof (induction "is" arbitrary: e)
  case (Cons j "is")
  let ?e = "on_session (session_close c) j e"
  have "i < length (eng_sessions ?e)" using Cons.prems(1) by (simp add: on_session_def)
  moreover have "i \<in> set is \<or> conn_closed (eng_sessions ?e ! i)"
    using Cons.prems on_session_closes [of i e j c] by auto
  ultimately show ?case using Cons.IH [of ?e] by simp
qed simp

text \<open>The state a wiped engine is in.\<close>

lemma wipe_result:
  assumes "engine_ok cr e"
  shows "eng_secrets (wipe e) = Some []" "eng_routes (wipe e) = []" "eng_stopped (wipe e)" "eng_stop (wipe e)"
    and "eng_sessions (wipe e) = eng_sessions (finish_stop (signal_stop e))"
proof -
  let ?s = "finish_stop (signal_stop e)"
  have ok: "engine_ok cr ?s" using stop_ok(1) [of cr "signal_stop e"] assms by simp
  obtain qs where qs: "eng_secrets ?s = Some qs" "fst ` set qs \<subseteq> rs_node ` snd ` set (eng_routes ?s)"
    using ok unfolding engine_ok_def route_nodes_def by blast
  have empty: "filter (\<lambda>(n, k). n \<notin> rs_node ` snd ` set (eng_routes ?s)) qs = []"
    using qs(2) by (force simp: filter_empty_conv)
  have st: "eng_stopped ?s" "eng_stop ?s"
    using fold_on_session [OF session_ops(1), of 1 "cached_sessions (signal_stop e)" "signal_stop e" cr]
    by (simp_all add: finish_stop_def signal_stop_def Let_def)
  note f = fold_remove_paired [of "?s\<lparr>eng_routes := []\<rparr>" qs "eng_routes ?s"]
  have "eng_secrets (?s\<lparr>eng_routes := []\<rparr>) = Some qs" using qs(1) by simp
  from f [OF this] show "eng_secrets (wipe e) = Some []" "eng_routes (wipe e) = []" "eng_stopped (wipe e)" "eng_stop (wipe e)"
    and "eng_sessions (wipe e) = eng_sessions ?s"
    using empty st unfolding wipe_def engine_stop_def Let_def by simp_all
qed

lemma wipe_ok:
  assumes "engine_ok cr e"
  shows "engine_ok cr (wipe e)"
proof -
  have "engine_ok cr (finish_stop (signal_stop e))" using stop_ok(1) [of cr "signal_stop e"] assms by simp
  then have "\<forall>x\<in>set (eng_sessions (wipe e)). session_reach cr x"
    unfolding wipe_result(5) [OF assms] engine_ok_def by blast
  then show ?thesis using wipe_result(1,2) [OF assms] by (simp add: engine_ok_def)
qed

lemma on_paths_ok:
  assumes "engine_ok cr e" "\<And>xs. keeps xs (f xs)" "\<And>x s. session_reach cr x \<Longrightarrow> session_reach cr (fst (f (x, s)))"
  shows "engine_ok cr (on_paths f i e)"
proof (cases "i < length (eng_sessions e)")
  case True
  let ?x = "eng_sessions e ! i" and ?s = "ep_paths (eng_endpoint e)"
  obtain y s where y: "f (?x, ?s) = (y, s)" by (rule prod.exhaust)
  have k: "sess_peer y = sess_peer ?x" "relay_pool s = relay_pool ?s"
    using assms(2) [of "(?x, ?s)"] y by (simp_all add: keeps_def)
  have "extends cr (eng_sessions e) ((eng_sessions e)[i := y])"
    by (rule extends_update) (use k(1) assms(3) [of ?x ?s] y in simp_all)
  then have "engine_ok cr (with_endpoint (e\<lparr>eng_sessions := (eng_sessions e)[i := y]\<rparr>) (with_paths (eng_endpoint e) s))"
    using engine_ok_quiet [OF assms(1)] k(2) by (simp add: paired_secrets_def)
  then show ?thesis using True y by (simp add: on_paths_def)
qed (simp add: on_paths_def assms(1))

lemma engine_ok_step: "engine_ok cr e \<Longrightarrow> engine_ok cr (engine_step cr hx ev e)"
proof (cases ev)
  case (PairStart pv b)
  assume "engine_ok cr e"
  then show ?thesis using PairStart pair_start_ok [of cr e pv b] by (auto split: option.split)
next
  case (DriveSession i ms env dev)
  assume "engine_ok cr e"
  then show ?thesis
    using DriveSession on_paths_ok [of cr e "session_step cr ms env dev" i] session_step_keeps session_reach.drive by simp
next
  case (HearControl i c)
  assume "engine_ok cr e"
  then show ?thesis
    using HearControl on_paths_ok [of cr e "on_control c" i] ends_keep(3) session_reach.hear_control by simp
qed (simp_all add: open_socket_ok request_ok request_reserved_ok delete_route_ok upsert_route_ok remove_route_ok
    reannounce_ok pair_install_ok end_pairing_ok with_endpoint_ok stop_ok wipe_ok path_step_secrets reserve_file_request_def)

interpretation engine_machine: machine "engine_step cr hx" "engine_ok cr" for cr hx
  by standard (rule engine_ok_step)

section \<open>A started engine\<close>

definition table_ok :: "(string \<times> route_state) list \<Rightarrow> (node_id \<times> 32 arr) list \<Rightarrow> bool" where
  "table_ok t qs \<longleftrightarrow>
     distinct (map fst t) \<and> fst ` set qs \<subseteq> rs_node ` snd ` set t \<and> (\<forall>rs\<in>snd ` set t. route_fits [] rs)"

lemma table_ok_install:
  assumes "table_ok t qs" "map_of t ident = None" "route_fits [] rs"
  shows "table_ok (AList.update ident rs t) (AList.update (rs_node rs) k qs)"
proof -
  have d: "distinct (map fst t)" using assms(1) by (simp add: table_ok_def)
  have "AList.delete ident t = t" using assms(2) by (simp add: map_of_eq_None_iff AList.delete_id)
  then have "set (AList.update ident rs t) = insert (ident, rs) (set t)" using set_alist_update [OF d, of ident rs] by simp
  then show ?thesis using assms(1,3) distinct_update [OF d] by (auto simp: table_ok_def fst_set_update)
qed

lemma install_routes_ok:
  "install_routes cr rs (t, qs) = Inr (t', qs') \<Longrightarrow> table_ok t qs \<Longrightarrow> table_ok t' qs'"
proof (induction rs arbitrary: t qs)
  case (Cons r rs)
  let ?new = "\<lambda>n c. \<lparr>rs_node = n, rs_serial = route_serial r, rs_card = c, rs_session = None\<rparr>"
  obtain n c k where v: "verify_route cr r = Inr (n, c)" "map_of t (route_id r) = None"
    "install_routes cr rs (AList.update (route_id r) (?new n c) t, AList.update n k qs) = Inr (t', qs')"
    using Cons.prems(1) by (auto split: sum.splits if_splits)
  have "table_ok (AList.update (route_id r) (?new n c) t) (AList.update n k qs)"
    using table_ok_install [OF Cons.prems(2) v(2) verify_route_fits [OF v(1)], of k] by simp
  then show ?case by (rule Cons.IH [OF v(3)])
qed simp

lemma open_paired_secrets:
  assumes "endpoint_open browser ident t bound nonce r c = Inr ep" "cfg_paired_routes c = Some qs" "cfg_reflector c = None"
  shows "ep_secrets ep = Some qs"
  using assms
  by (auto simp: endpoint_open_def Let_def paired_secrets_def pool_spawn_def assemble_def with_paired_def
      split: if_splits sum.splits)

lemma engine_start_ok:
  assumes "engine_start cr browser ident t bound c = Inr e"
  shows "engine_ok cr e"
proof -
  obtain sd table qs ep where i: "install_routes cr (engine_routes c) ([], []) = Inr (table, qs)"
    and ep: "endpoint_open browser ident t bound (mk_arr []) UdpSent
      ((endpoint_config_new browser (from_seed cr sd))
         \<lparr>cfg_relays := map spec_plain (relay_urls_cfg c), cfg_allow_direct := engine_allow_direct c,
          rendezvous_timeout := 60000, cfg_paired_routes := Some qs, net_poll := 0\<rparr>) = Inr ep"
    and e: "eng_endpoint e = ep" "eng_routes e = table" "eng_sessions e = []"
    using assms by (auto simp: engine_start_def Let_def split: option.splits sum.splits)
  have "ep_secrets ep = Some qs" by (rule open_paired_secrets [OF ep]) (simp_all add: endpoint_config_new_def)
  moreover have "table_ok table qs" by (rule install_routes_ok [OF i]) (simp add: table_ok_def)
  ultimately show ?thesis using e unfolding engine_ok_def table_ok_def route_nodes_def by simp
qed

lemma engine_reachable_ok:
  "engine_start cr browser ident t bound c = Inr e \<Longrightarrow> engine_ok cr (engine_run cr hx es e)"
  unfolding engine_run_def by (rule engine_machine.run_inv) (rule engine_start_ok)

text \<open>Wiping an engine forgets everything. After a start and any calls and background activity, in any
  order, a wiped engine's tag book holds no paired secret, its route table is empty, it is stopped, and
  every session a route still cached is closed.\<close>

theorem wipe_forgets_everything:
  assumes "engine_start cr browser ident t bound c = Inr e0"
  shows "let e = engine_run cr hx es e0; e' = wipe e
    in (\<exists>b. ep_book (eng_endpoint e') = Some b \<and> paired b = []) \<and> eng_routes e' = [] \<and> eng_stopped e' \<and> eng_stop e' \<and>
       (\<forall>i\<in>set (cached_sessions e). conn_closed (eng_sessions e' ! i))"
proof -
  define e where "e = engine_run cr hx es e0"
  have ok: "engine_ok cr e" unfolding e_def by (rule engine_reachable_ok [OF assms])
  have "conn_closed (eng_sessions (wipe e) ! i)" if i: "i \<in> set (cached_sessions e)" for i
  proof -
    obtain ident rs where rs: "(ident, rs) \<in> set (eng_routes e)" "rs_session rs = Some i"
      using i by (auto simp: cached_sessions_def List.map_filter_def)
    then have "rs \<in> snd ` set (eng_routes e)" by force
    then have "route_fits (eng_sessions e) rs" using ok unfolding engine_ok_def by blast
    then have "i < length (eng_sessions e)" using rs(2) by (simp add: route_fits_def)
    moreover have "cached_sessions (signal_stop e) = cached_sessions e" by (simp add: cached_sessions_def signal_stop_def)
    ultimately show ?thesis
      using wipe_result(5) [OF ok] fold_close_closes [of i "signal_stop e" "cached_sessions e" 1] i
      by (simp add: finish_stop_def Let_def)
  qed
  then show ?thesis
    using wipe_result(1-4) [OF ok] unfolding Let_def e_def [symmetric]
    by (auto simp: paired_secrets_def ep_book_def)
qed

text \<open>A started engine to evaluate at, and a route installed in it.\<close>

definition home_config :: engine_config where
  "home_config = \<lparr>transport_seed = replicate 32 7, relay_urls_cfg = [''wss://r''], engine_allow_direct = False, engine_routes = []\<rparr>"

definition home_card :: card where
  "home_card = \<lparr>card_node_id = NodeId (mk_arr [2]), issued_at = 0, expires_at = 9, serial = 1, hints = [], raw = []\<rparr>"

definition home_install :: engine_event where
  "home_install = PairInstall ''home'' 0 home_card (mk_arr [5])"

lemma home_start:
  obtains e where "engine_start plain_crypto False 0 0 (Inr (socket (V4 1) 5)) home_config = Inr e"
    "eng_stopped e = False" "eng_routes e = []" "eng_stop e = False"
    "ep_book (eng_endpoint e) = Some (with_paired [] [])"
    "driver_status 0 (ep_paths (eng_endpoint e)) = Connecting"
    "key_node_id (ep_key (eng_endpoint e)) \<noteq> NodeId (mk_arr [2])"
proof -
  obtain sd :: "32 arr" where sd: "to_arr (replicate 32 7) = Some sd" by (auto simp: to_arr_def)
  then have "bytes_of sd = replicate 32 7" by (simp only: to_arr_eq_Some)
  then have "hd (bytes_of sd) = 7" by simp
  moreover have "hd (bytes_of (mk_arr [2] :: 32 arr)) = 2" by (simp add: mk_arr.rep_eq)
  ultimately have "sd \<noteq> mk_arr [2]" by auto
  then show ?thesis
    using sd by (intro that)
      (auto simp: engine_start_def home_config_def endpoint_open_def endpoint_config_new_def Let_def ep_book_def
        pool_spawn_def assemble_def driver_status_def pool_driver_def spawn_driver_def from_seed_def plain_crypto_def
        simp del: to_arr_eq_Some)
qed

theorem wipe_forgets_everything_witness:
  "\<exists>e0. engine_start plain_crypto False 0 0 (Inr (socket (V4 1) 5)) home_config = Inr e0 \<and>
     (let e = engine_run plain_crypto plain_hex [home_install] e0
      in map_option paired (ep_book (eng_endpoint e)) = Some [(NodeId (mk_arr [2]), mk_arr [5])] \<and>
         map_option paired (ep_book (eng_endpoint (wipe e))) = Some [] \<and> eng_routes (wipe e) = [])"
proof -
  obtain e0 where e0: "engine_start plain_crypto False 0 0 (Inr (socket (V4 1) 5)) home_config = Inr e0"
    "eng_stopped e0 = False" "eng_routes e0 = []" "ep_book (eng_endpoint e0) = Some (with_paired [] [])"
    by (rule home_start)
  let ?e = "engine_run plain_crypto plain_hex [home_install] e0"
  have "map_option paired (ep_book (eng_endpoint ?e)) = Some [(NodeId (mk_arr [2]), mk_arr [5])]"
    using e0 by (simp add: engine_run_def home_install_def pair_install_def on_book_def Let_def close_cached_def
        upsert_paired_def bump_def with_paired_def ep_book_def set_book_def home_card_def)
  moreover have "map_option paired (ep_book (eng_endpoint (wipe ?e))) = Some [] \<and> eng_routes (wipe ?e) = []"
    using wipe_forgets_everything [OF e0(1), of plain_hex "[home_install]"] by (auto simp: Let_def)
  ultimately show ?thesis using e0(1) by (auto simp: Let_def)
qed

lemma file_exchange_result: "fst (file_exchange cr hx w q m r n e) = Inr x \<Longrightarrow> http_exchange cr hx w q m r n = Inr x"
  by (auto simp: file_exchange_def Let_def split: if_splits sum.splits)

lemma file_exchange_sessions [simp]: "eng_sessions (snd (file_exchange cr hx w q m r n e)) = eng_sessions e"
  by (simp add: file_exchange_def Let_def split: sum.split)

lemma drop_permit_sessions [simp]: "eng_sessions (drop_permit permit e) = eng_sessions e"
  by (simp add: drop_permit_def drop_holder_def split: option.split)

lemma reserved_success:
  assumes "engine_ok cr e" "request_json_reserved cr hx v w q timeout permit e = (Inr resp, e')"
  shows "\<exists>m r rs i. validate_http_request hx q = Inr (m, r) \<and> \<not> eng_stopped e \<and>
    map_of (eng_routes e) (req_route_id q) = Some rs \<and> i < length (eng_sessions e') \<and>
    sess_peer (eng_sessions e' ! i) = rs_node rs \<and> resp_path resp = path_of_session (eng_sessions e' ! i) \<and>
    http_exchange cr hx w q m r (rs_node rs) = Inr (resp_status resp, resp_body resp, resp_witness_refused resp)"
proof -
  obtain m r rs where q: "validate_http_request hx q = Inr (m, r)" "permit_matches e permit r" "\<not> eng_stopped e"
    "map_of (eng_routes e) (req_route_id q) = Some rs"
    using assms(2) by (auto simp: request_json_reserved_def split: sum.splits if_splits option.splits)
  obtain i e1 where i: "session_of_route cr v (req_route_id q) rs (cached_live e rs) e = (i, e1)" by (rule prod.exhaust)
  note k = session_of_route_keeps(3) [OF assms(1) q(4) cached_live_cases i]
  obtain fr fe where f: "file_exchange cr hx w q m r (rs_node rs) e1 = (fr, fe)" by (rule prod.exhaust)
  have fe: "eng_sessions fe = eng_sessions e1"
    using file_exchange_sessions [of cr hx w q m r "rs_node rs" e1] f by simp
  have fr: "fr = Inr x \<Longrightarrow> http_exchange cr hx w q m r (rs_node rs) = Inr x" for x
    using file_exchange_result [of cr hx w q m r "rs_node rs" e1 x] f by simp
  obtain j where j: "i = Inr j"
    using assms(2) q i by (cases i) (simp_all add: request_json_reserved_def)
  have "eng_sessions e' = eng_sessions e1 \<and> resp_path resp = path_of_session (eng_sessions e1 ! j) \<and>
      http_exchange cr hx w q m r (rs_node rs) = Inr (resp_status resp, resp_body resp, resp_witness_refused resp)"
    using assms(2) q i j f fe fr
    by (cases "http_exchange cr hx w q m r (rs_node rs)"; cases fr)
      (auto simp: request_json_reserved_def split: if_splits sum.splits prod.splits)
  then show ?thesis using q k [of j] j by auto
qed

lemma request_success:
  assumes "engine_ok cr e" "request_json cr hx v w q timeout e = (Inr resp, e')"
  obtains permit e1 where "request_json_reserved cr hx v w q timeout permit e1 = (Inr resp, e')" "engine_ok cr e1"
    "eng_routes e1 = eng_routes e" "eng_stopped e1 = eng_stopped e"
proof -
  have held: "engine_ok cr (e\<lparr>eng_file_holders := 1\<rparr>)" using assms(1) by simp
  consider "request_json_reserved cr hx v w q timeout None e = (Inr resp, e')"
    | g where "request_json_reserved cr hx v w q timeout (Some g) (e\<lparr>eng_file_holders := 1\<rparr>) = (Inr resp, e')"
    using assms(2) by (auto simp: request_json_def reserve_file_request_def split: sum.splits if_splits prod.splits)
  then show ?thesis using that assms(1) held by cases auto
qed

lemma http_exchange_sent:
  assumes "http_exchange cr hx w q m r n = Inr x"
  obtains out where "outgoing_http_request cr hx True q m r n = Inr out" "(''host'', to_base32 n) \<in> set (out_headers out)"
  using assms by (auto simp: http_exchange_def outgoing_http_request_def Let_def split: if_splits sum.splits)


text \<open>A call on the started engine: the relay is up, the peer's handshake verifies, and it answers.\<close>

definition home_dial :: call_env where
  "home_dial = \<lparr>call_ms = 0, call_now = 0,
     call_dial = \<lparr>waited = Some (Some ''r''), relay_after = Connecting, configured = True, started = True,
       handshaken = honest_handshake, meanwhile = id\<rparr>, fate = Completes, background = []\<rparr>"

definition home_request :: json_request where
  "home_request = \<lparr>req_route_id = ''home'', req_method = ''POST'', req_path = ''/cadence/v1/status'',
     req_authorization = ''Nostr YQ=='', req_body = []\<rparr>"

definition home_exchange :: exchange where
  "home_exchange = \<lparr>elapsed = 0, stream_result = Inr (), handshake_result = Inr (), request_valid = True,
     answer = Inr \<lparr>http_status = 200, http_headers = [(''content-type'', [], Some ''application/json'')],
       http_body = [Inr (Data [123, 125])]\<rparr>,
     stop_comes = False, timeout_phase = None, driver_ended = True\<rparr>"

lemma home_validates: "validate_http_request plain_hex home_request = Inr (POST, CADENCE_ROUTE)"
proof -
  have "list_all is_base64 ''YQ==''" "list_all is_ascii_graphic ''/cadence/v1/status''" by code_simp+
  then show ?thesis
    by (simp add: validate_http_request_def validate_http_request_length_def home_request_def method_of_def
        path_canonical_def MAX_HTTP_PATH_BYTES_def allowlisted_def blob_route_def strip_prefix_def lower_hex_32_def
        authorization_error_def CADENCE_ROUTE_def MAX_HTTP_AUTHORIZATION_BYTES_def)
qed

lemma home_answer: "http_exchange plain_crypto plain_hex home_exchange home_request POST CADENCE_ROUTE n = Inr (200, [123, 125], False)"
proof -
  have "media_type ''application/json'' = ''application/json''" by code_simp
  then show ?thesis
    by (simp add: http_exchange_def home_exchange_def outgoing_http_request_def decode_http_response_def is_redirection_def
        CADENCE_ROUTE_def content_type_def get_all_def expected_type_def collect_bounded_def MAX_HTTP_BODY_BYTES_def
        is_witness_refusal_def Let_def)
qed

lemma connect_completes:
  assumes "card_node_id cd \<noteq> key_node_id (ep_key ep)" "ep_book ep = Some b" "book_contains (card_node_id cd) b"
    and "relay_urls cd = []" "driver_status 0 (ep_paths ep) = Connecting" "waited d = Some (Some u)" "configured d" "started d"
    and "handshaken d (PinnedServer (card_node_id cd)) = Inr c"
  shows "\<exists>x ep'. endpoint_connect cr ms cd d ep = (Inr x, ep')"
proof -
  let ?p = "card_node_id cd"
  obtain s i where s: "begin_session ?p (register_peer cr ?p (ep_paths ep)) = (s, i)" by (rule prod.exhaust)
  have pool: "relay_pool s = relay_pool (ep_paths ep)" using quiet_pool(4) [of ?p "register_peer cr ?p (ep_paths ep)"] s by simp
  obtain s2 where s2: "set_peer_relays ?p [] s = (s2, 0)" "relay_pool s2 = relay_pool s"
    by (simp add: set_peer_relays_def driver_for_def Let_def)
  have "rendezvous (driver_status 0 s2) d = Inr u"
    using assms(5,6) pool s2(2) by (simp add: rendezvous_def driver_status_def)
  then have "dial_peer ?p i 0 d s2 = (Inr c, meanwhile d s2)" using assms(7-9) by (simp add: dial_peer_def)
  then show ?thesis
    using assms(1-4) s s2(1) by (simp add: endpoint_connect_def Let_def split: prod.split)
qed


section \<open>Stopping is final\<close>

definition halted :: "engine \<Rightarrow> engine \<Rightarrow> bool" where
  "halted e e' \<longleftrightarrow>
     eng_stop e' \<and> eng_stopped e' \<and> length (eng_sessions e') = length (eng_sessions e) \<and>
     fst ` set (eng_routes e') \<subseteq> fst ` set (eng_routes e)"

lemma length_fold_on_session: "length (eng_sessions (fold (on_session f) is e)) = length (eng_sessions e)"
  by (induction "is" arbitrary: e) (simp_all add: on_session_def)

lemma fold_on_session_fields:
  "eng_stop (fold (on_session f) is e) = eng_stop e" "eng_routes (fold (on_session f) is e) = eng_routes e"
  by (induction "is" arbitrary: e) simp_all

lemma fold_on_book_fields:
  "eng_routes (fold (\<lambda>(ident, rs). on_book (g rs)) t e) = eng_routes e"
  "eng_sessions (fold (\<lambda>(ident, rs). on_book (g rs)) t e) = eng_sessions e"
  "eng_stop (fold (\<lambda>(ident, rs). on_book (g rs)) t e) = eng_stop e"
  "eng_stopped (fold (\<lambda>(ident, rs). on_book (g rs)) t e) = eng_stopped e"
  by (induction t arbitrary: e) auto

lemma halted_trans: "halted e e' \<Longrightarrow> halted e' e'' \<Longrightarrow> halted e e''"
  unfolding halted_def
  by (elim conjE, intro conjI; (assumption | rule subset_trans, assumption+ | simp))

lemma halted_finish: "eng_stop e \<Longrightarrow> halted e (finish_stop e)"
  by (simp add: halted_def finish_stop_def Let_def length_fold_on_session fold_on_session_fields image_image)

lemma halted_wipe: "halted e (wipe e)"
proof -
  have "halted (signal_stop e) (engine_stop e)"
    unfolding engine_stop_def by (rule halted_finish) (simp add: signal_stop_def)
  then show ?thesis by (simp add: halted_def wipe_def Let_def fold_on_book_fields)
qed

lemma halted_fields:
  "eng_stop e \<Longrightarrow> eng_stopped e \<Longrightarrow> halted e e"
  "eng_stop e \<Longrightarrow> eng_stopped e \<Longrightarrow> halted e (drop_holder e)"
  "eng_stop e \<Longrightarrow> eng_stopped e \<Longrightarrow> halted e (drop_permit permit e)"
  "eng_stop e \<Longrightarrow> eng_stopped e \<Longrightarrow> halted e (with_endpoint e ep)"
  "eng_stop e \<Longrightarrow> eng_stopped e \<Longrightarrow> halted e (end_pairing reg e)"
  "eng_stop e \<Longrightarrow> eng_stopped e \<Longrightarrow> halted e (on_paths f i e)"
  by (auto simp: halted_def drop_holder_def drop_permit_def end_pairing_def on_paths_def split: option.split prod.split)

lemma pair_check_stopped: "eng_stopped e \<Longrightarrow> \<exists>err. pair_check cr t b e = Inl err"
  by (auto simp: pair_check_def split: sum.split)

text \<open>Every call of the host leaves a stopped engine as it is, but for a permit it gives back.\<close>

lemma stopped_calls:
  assumes "eng_stop e" "eng_stopped e"
  shows "snd (engine_open_socket cr v url stream upgrade ident e) = e"
    "snd (request_json cr hx v w q timeout e) = e"
    "snd (request_json_reserved cr hx v w q timeout permit e) = drop_permit permit e"
    "snd (reserve_file_request e) = e" "snd (delete_route cr v w ident operation e) = e"
    "snd (upsert_route cr r e) = e" "snd (remove_route ident e) = e" "snd (engine_reannounce e) = e"
    "snd (pair_install ident t c k e) = e" "\<exists>err. pair_start cr pv b e = Some (Inl err, e)"
proof -
  show reserved: "snd (request_json_reserved cr hx v w q timeout permit e) = drop_permit permit e" for permit
    using assms by (auto simp: request_json_reserved_def split: sum.split)
  show "snd (request_json cr hx v w q timeout e) = e"
    using assms reserved [of None]
    by (auto simp: request_json_def reserve_file_request_def drop_permit_def split: sum.split)
  show "\<exists>err. pair_start cr pv b e = Some (Inl err, e)"
    using pair_check_stopped [OF assms(2), of cr "call_now (pair_call pv)" b] by (auto simp: pair_start_def)
qed (use assms in \<open>auto simp: engine_open_socket_def reserve_file_request_def delete_route_def upsert_route_def
    remove_route_def engine_reannounce_def pair_install_def split: sum.split\<close>)

lemma halted_step:
  assumes "eng_stop e" "eng_stopped e"
  shows "halted e (engine_step cr hx ev e)"
proof (cases ev)
  case (PairStart pv b)
  then show ?thesis using stopped_calls(10) [OF assms, of cr pv b] halted_fields(1) [OF assms] by auto
next
  case SignalStop
  then show ?thesis using assms by (simp add: halted_def signal_stop_def)
qed (use assms in \<open>simp_all add: stopped_calls halted_fields halted_finish halted_wipe\<close>)

lemma halted_run: "eng_stop e \<Longrightarrow> eng_stopped e \<Longrightarrow> halted e (engine_run cr hx es e)"
  unfolding engine_run_def
proof (induction es arbitrary: e)
  case (Cons ev es)
  have "halted e (engine_step cr hx ev e)" by (rule halted_step [OF Cons.prems])
  moreover from this have "halted (engine_step cr hx ev e) (fold (engine_step cr hx) es (engine_step cr hx ev e))"
    by (intro Cons.IH) (simp_all add: halted_def)
  ultimately show ?case using halted_trans by simp
qed (simp add: halted_fields)

text \<open>Stopping is final. Whatever the engine was doing, once it is stopped every later call and
  background event leaves it stopped, adds no session and installs no route, and a request is answered
  with an error.\<close>

theorem stopping_is_final:
  "let e = engine_run cr hx es (engine_stop e0)
   in eng_stop e \<and> eng_stopped e \<and> length (eng_sessions e) = length (eng_sessions e0) \<and>
      fst ` set (eng_routes e) \<subseteq> fst ` set (eng_routes e0) \<and>
      isl (fst (request_json cr hx v w q timeout e)) \<and> isl (fst (engine_open_socket cr v url stream upgrade ident e)) \<and>
      isl (fst (upsert_route cr r e))"
proof -
  define e where "e = engine_run cr hx es (engine_stop e0)"
  have s: "halted (signal_stop e0) (engine_stop e0)"
    unfolding engine_stop_def by (rule halted_finish) (simp add: signal_stop_def)
  then have h: "halted (engine_stop e0) e" unfolding e_def by (intro halted_run) (simp_all add: halted_def)
  then have "isl (fst (request_json cr hx v w q timeout e))" "isl (fst (engine_open_socket cr v url stream upgrade ident e))"
    "isl (fst (upsert_route cr r e))"
    by (auto simp: halted_def request_json_def reserve_file_request_def request_json_reserved_def
        engine_open_socket_def upsert_route_def split: sum.split)
  moreover have "halted (signal_stop e0) e" by (rule halted_trans [OF s h])
  ultimately show ?thesis unfolding Let_def e_def [symmetric] by (simp add: halted_def)
qed

section \<open>Three observations\<close>

text \<open>Two routes may name the same node. Removing either takes the one paired secret of the node out of the
  book, and the route that stays installed can no longer be dialled.\<close>

lemma shared_node_loses_secret:
  assumes "\<not> eng_stopped e" "map_of (eng_routes e) a = Some ra" "map_of (eng_routes e) b = Some rb" "a \<noteq> b"
    and "rs_node ra = rs_node rb" "eng_secrets e = Some qs"
  shows "map_of (eng_routes (snd (remove_route a e))) b = Some rb"
    and "\<exists>ps. eng_secrets (snd (remove_route a e)) = Some ps \<and> map_of ps (rs_node rb) = None"
proof -
  let ?e = "on_book (remove_paired (rs_node ra)) (e\<lparr>eng_routes := AList.delete a (eng_routes e)\<rparr>)"
  have r: "snd (remove_route a e) = close_cached (rs_session ra) ?e" using assms(1,2) by (simp add: remove_route_def)
  show "map_of (eng_routes (snd (remove_route a e))) b = Some rb"
    unfolding r using assms(3,4) by (simp add: close_cached_quiet delete_conv')
  have "eng_secrets ?e = Some (AList.delete (rs_node ra) qs)"
    using on_book_secrets(2) [of "rs_node ra" "e\<lparr>eng_routes := AList.delete a (eng_routes e)\<rparr>"] assms(6) by simp
  then show "\<exists>ps. eng_secrets (snd (remove_route a e)) = Some ps \<and> map_of ps (rs_node rb) = None"
    unfolding r using assms(5) by (simp add: close_cached_quiet delete_conv')
qed

text \<open>\<open>delete_route\<close> uses the cached session even when it is closed, where every other call dials again.\<close>

lemma delete_uses_closed_session:
  assumes "\<not> eng_stopped e" "map_of (eng_routes e) ident = Some rs" "rs_session rs = Some i"
  shows "snd (delete_route cr v w ident operation e) = e"
    and "conn_closed (eng_sessions e ! i) \<Longrightarrow> cached_live e rs = None"
  using assms by (auto simp: delete_route_def session_of_route_def cached_live_def session_live_def split: sum.split)

text \<open>A dial dropped while it waits, because the caller's time ran out, leaves the slot it took.\<close>

lemma dropped_dial_keeps_slot:
  assumes "card_node_id cd \<noteq> key_node_id (ep_key ep)" "ep_book ep = Some b" "book_contains (card_node_id cd) b"
    and "meanwhile d = id"
  shows "live_sessions (ep_paths (connect_dropped cr cd d ep)) (card_node_id cd) = Some (next_session (ep_paths ep))"
proof -
  let ?p = "card_node_id cd"
  obtain s i where s: "begin_session ?p (register_peer cr ?p (ep_paths ep)) = (s, i)" by (rule prod.exhaust)
  then have l: "live_sessions s ?p = Some (next_session (ep_paths ep))"
    using begin_session_simps [of ?p "register_peer cr ?p (ep_paths ep)"] quiet_ops_view(1) [of cr ?p "ep_paths ep"] by simp
  obtain s2 drv where s2: "set_peer_relays ?p (map spec_plain (relay_urls cd)) s = (s2, drv)" by (rule prod.exhaust)
  have "live_sessions s2 = live_sessions s"
    using s2 by (auto simp: set_peer_relays_def Let_def split: prod.splits)
  then show ?thesis using assms s s2 l by (simp add: connect_dropped_def Let_def)
qed

section \<open>The shape of the state\<close>

text \<open>C11: The engine's state is well formed at every moment. After a start and any calls and background
  activity, in any order, no route identifier occurs twice; each route's card names the route's node
  and carries the route's serial; the session a route caches exists and is a session with that node;
  the tag book holds a paired secret only for nodes of the table; and every session is in a state
  the session machine reaches.\<close>

theorem engine_state_well_formed:
  assumes "engine_start cr browser ident t bound c = Inr e0"
  shows "let e = engine_run cr hx es e0
    in distinct (map fst (eng_routes e)) \<and>
       (\<forall>(route, rs)\<in>set (eng_routes e).
          card_node_id (rs_card rs) = rs_node rs \<and> serial (rs_card rs) = rs_serial rs \<and>
          (case rs_session rs of
             Some i \<Rightarrow> i < length (eng_sessions e) \<and> sess_peer (eng_sessions e ! i) = rs_node rs
           | None \<Rightarrow> True)) \<and>
       (\<exists>b. ep_book (eng_endpoint e) = Some b \<and> fst ` set (paired b) \<subseteq> rs_node ` snd ` set (eng_routes e)) \<and>
       (\<forall>x\<in>set (eng_sessions e). session_reach cr x)"
proof -
  define e where "e = engine_run cr hx es e0"
  have ok: "engine_ok cr e" unfolding e_def by (rule engine_reachable_ok [OF assms])
  then obtain qs where qs: "ep_secrets (eng_endpoint e) = Some qs" "fst ` set qs \<subseteq> route_nodes e"
    unfolding engine_ok_def by blast
  then obtain b where b: "ep_book (eng_endpoint e) = Some b" "paired b = qs"
    unfolding paired_secrets_def ep_book_def map_option_eq_Some by blast
  have fits: "\<forall>(route, rs)\<in>set (eng_routes e). route_fits (eng_sessions e) rs"
  proof clarify
    fix route rs
    assume "(route, rs) \<in> set (eng_routes e)"
    then have "rs \<in> snd ` set (eng_routes e)" by force
    then show "route_fits (eng_sessions e) rs" using ok unfolding engine_ok_def by blast
  qed
  have d: "distinct (map fst (eng_routes e))" and x: "\<forall>x\<in>set (eng_sessions e). session_reach cr x"
    using ok unfolding engine_ok_def by blast+
  have p: "\<exists>b. ep_book (eng_endpoint e) = Some b \<and> fst ` set (paired b) \<subseteq> rs_node ` snd ` set (eng_routes e)"
    using b(1) qs(2) unfolding b(2) [symmetric] route_nodes_def by blast
  show ?thesis
    unfolding Let_def e_def [symmetric] by (intro conjI d p x fits [unfolded route_fits_def])
qed

theorem engine_state_well_formed_witness:
  "\<exists>e0. engine_start plain_crypto False 0 0 (Inr (socket (V4 1) 5)) home_config = Inr e0 \<and>
     (let e = engine_run plain_crypto plain_hex [home_install] e0
      in map fst (eng_routes e) = [''home''] \<and> distinct (map fst (eng_routes e)) \<and>
         (\<exists>b. ep_book (eng_endpoint e) = Some b \<and> fst ` set (paired b) \<subseteq> rs_node ` snd ` set (eng_routes e)))"
proof -
  obtain e0 where e0: "engine_start plain_crypto False 0 0 (Inr (socket (V4 1) 5)) home_config = Inr e0"
    "eng_stopped e0 = False" "eng_routes e0 = []"
    by (rule home_start)
  let ?e = "engine_run plain_crypto plain_hex [home_install] e0"
  have "map fst (eng_routes ?e) = [''home'']"
    using e0(2,3) by (simp add: engine_run_def home_install_def pair_install_def on_book_def Let_def close_cached_def
        with_endpoint_def split: option.split)
  moreover note q = engine_state_well_formed [OF e0(1), of plain_hex "[home_install]", unfolded Let_def]
  ultimately show ?thesis
    unfolding Let_def
    by (intro exI [of _ e0] conjI e0(1) q [THEN conjunct1] q [THEN conjunct2, THEN conjunct2, THEN conjunct1])
qed

end
