(* ===== verification/Engine_Calls.thy ===== *)
theory Engine_Calls
  imports Engine_Safety
begin

text \<open>
  What the two hosts of the engine (\<open>link-ffi\<close> and \<open>link-web\<close>) rely on: every call of \<open>Engine\<close> leaves the
  engine in a state that its events reach, so that what holds after any events holds after any calls,
  and what an engine keeps once it has been wiped.
\<close>

text \<open>The time either host gives a request, in milliseconds.\<close>

definition HTTP_REQUEST_TIMEOUT :: nat where "HTTP_REQUEST_TIMEOUT = 30000"

section \<open>Calls as events\<close>

definition reaches :: "crypto \<Rightarrow> hex_lib \<Rightarrow> engine \<Rightarrow> engine \<Rightarrow> bool" where
  "reaches cr hx e e' \<longleftrightarrow> (\<exists>es. e' = engine_run cr hx es e)"

text \<open>What runs beside the calls: the endpoint's tasks, a session's, a file stream's and a pairing session's.\<close>

fun engine_task :: "engine_event \<Rightarrow> bool" where
  "engine_task (Background _) = True"
| "engine_task (DriveSession _ _ _ _) = True"
| "engine_task (HearControl _ _) = True"
| "engine_task FileDriverEnds = True"
| "engine_task (PairingEnded _) = True"
| "engine_task _ = False"

lemma reaches_refl [simp]: "reaches cr hx e e"
  unfolding reaches_def by (rule exI [of _ "[]"]) (simp add: engine_run_def)

lemma reaches_step [intro]: "reaches cr hx e (engine_step cr hx ev e)"
  unfolding reaches_def by (rule exI [of _ "[ev]"]) (simp add: engine_run_def)

lemma reaches_trans [trans]: "reaches cr hx a b \<Longrightarrow> reaches cr hx b c \<Longrightarrow> reaches cr hx a c"
  unfolding reaches_def engine_run_def by (metis comp_apply fold_append)

lemma reaches_call: "engine_step cr hx ev e = e' \<Longrightarrow> reaches cr hx e e'"
  using reaches_step by blast

lemma calls_reach [intro, simp]:
  "reaches cr hx e (snd (engine_open_socket cr v url stream upgrade ident e))"
  "reaches cr hx e (snd (request_json cr hx v w q timeout e))"
  "reaches cr hx e (snd (request_json_reserved cr hx v w q timeout permit e))"
  "reaches cr hx e (snd (reserve_file_request e))"
  "reaches cr hx e (drop_holder e)"
  "reaches cr hx e (snd (delete_route cr v w ident operation e))"
  "reaches cr hx e (snd (upsert_route cr r e))"
  "reaches cr hx e (snd (remove_route ident e))"
  "reaches cr hx e (snd (engine_reannounce e))"
  "reaches cr hx e (end_pairing reg e)"
  "reaches cr hx e (snd (pair_install ident t c k e))"
  "reaches cr hx e (signal_stop e)"
  "reaches cr hx e (finish_stop e)"
  "reaches cr hx e (wipe e)"
  by (rule reaches_call, rule engine_step.simps)+

lemma retire_reaches [intro, simp]: "reaches cr hx e (snd (retire_route cr v w ident e))"
  unfolding retire_route_def by simp

lemma finalize_reaches [intro, simp]: "reaches cr hx e (snd (finalize_route cr v w ident e))"
  unfolding finalize_route_def by simp

lemma stop_reaches [intro, simp]: "reaches cr hx e (engine_stop e)"
  unfolding engine_stop_def by (rule reaches_trans [OF calls_reach(12) calls_reach(13)])

lemma pair_start_reaches: "pair_start cr pv b e = Some (res, e') \<Longrightarrow> reaches cr hx e e'"
  by (rule reaches_call [of _ _ "PairStart pv b"]) simp

lemma pair_route_reaches: "pair_route cr pv b e = Some (res, e') \<Longrightarrow> reaches cr hx e e'"
proof -
  assume p: "pair_route cr pv b e = Some (res, e')"
  then obtain q e1 where s: "pair_start cr pv b e = Some (q, e1)"
    by (auto simp: pair_route_def)
  note r = pair_start_reaches [OF s, of hx]
  show ?thesis
  proof (cases q)
    case (Inl err)
    then show ?thesis using p s r by (simp add: pair_route_def)
  next
    case (Inr x)
    obtain c k reg where x: "x = (c, k, reg)" by (rule prod_cases3)
    obtain q2 e2 where i: "pair_install (bundle_route_id b) (pair_verified_at pv) c k e1 = (q2, e2)"
      by (rule prod.exhaust)
    have "reaches cr hx e1 e2" using calls_reach(11) [of cr hx e1 _ _ c k] i by (metis snd_conv)
    moreover have "e' = end_pairing reg e2" using p s Inr x i by (simp add: pair_route_def)
    ultimately show ?thesis using r reaches_trans calls_reach(10) by blast
  qed
qed

lemma reaches_ok: "reaches cr hx e e' \<Longrightarrow> engine_ok cr e \<Longrightarrow> engine_ok cr e'"
  unfolding reaches_def engine_run_def using engine_machine.run_inv by blast

section \<open>An engine with nothing left\<close>

definition forgotten :: "engine \<Rightarrow> bool" where
  "forgotten e \<longleftrightarrow>
     eng_stop e \<and> eng_stopped e \<and> eng_routes e = [] \<and> (\<exists>b. ep_book (eng_endpoint e) = Some b \<and> paired b = [])"

lemma forgottenI:
  assumes "engine_ok cr e" "eng_stop e" "eng_stopped e" "eng_routes e = []"
  shows "forgotten e"
proof -
  obtain qs where "ep_secrets (eng_endpoint e) = Some qs" "fst ` set qs \<subseteq> route_nodes e"
    using assms(1) unfolding engine_ok_def by blast
  then have "ep_secrets (eng_endpoint e) = Some []" using assms(4) by (simp add: route_nodes_def)
  then show ?thesis using assms by (auto simp: forgotten_def paired_secrets_def ep_book_def)
qed

lemma wipe_forgets:
  assumes "engine_ok cr e"
  shows "forgotten (wipe e)"
proof (rule forgottenI [of cr])
  show "engine_ok cr (wipe e)" by (rule reaches_ok [OF calls_reach(14) [of cr plain_hex] assms])
  show "eng_stop (wipe e)" "eng_stopped (wipe e)" using halted_wipe [of e] by (simp_all add: halted_def)
  show "eng_routes (wipe e) = []" by (simp add: wipe_def Let_def fold_on_book_fields)
qed

lemma forgotten_reaches:
  assumes "reaches cr hx e e'" "engine_ok cr e" "forgotten e"
  shows "forgotten e'"
proof -
  obtain es where es: "e' = engine_run cr hx es e" using assms(1) by (auto simp: reaches_def)
  then have "halted e e'" using halted_run assms(3) by (simp add: forgotten_def)
  then have "eng_stop e'" "eng_stopped e'" "eng_routes e' = []"
    using assms(3) by (simp_all add: halted_def forgotten_def)
  then show ?thesis using reaches_ok [OF assms(1,2)] by (intro forgottenI)
qed

end
