(* ===== verification/Ffi.thy ===== *)
theory Ffi
  imports Engine_Calls
begin

text \<open>
  \<open>link-ffi/src/lib.rs\<close>: the engine behind UniFFI's synchronous calls. The records that cross to Kotlin and
  their conversions, \<open>block_on\<close> with the three kinds of thread a call can come from, every method of
  \<open>LinkEngine\<close> and \<open>LinkSocket\<close>, and the tasks left on the engine's own runtime. The thread is an argument
  of each call, as are the answers of the network that the engine's calls take.
\<close>

section \<open>Records and conversions\<close>

record link_route =
  lr_route_id :: string
  lr_card :: bytes
  lr_paired_route_secret :: bytes
  lr_card_serial :: u64
  lr_card_verified_at :: u64

record link_config =
  lc_transport_seed :: bytes
  lc_relay_urls :: "string list"
  lc_allow_direct :: bool
  lc_routes :: "link_route list"

record link_pairing_bundle =
  lb_route_id :: string
  lb_server_card :: bytes
  lb_pairing_secret :: bytes
  lb_expires_at :: u64

record link_path =
  lp_status :: string
  lp_relay :: "string option"
  lp_direct :: "socket_addr option"
  lp_cause :: string

record link_http_request =
  lq_route_id :: string
  lq_method :: string
  lq_path :: string
  lq_authorization :: string
  lq_body :: bytes

record link_http_response =
  ls_status :: nat
  ls_body :: bytes
  ls_witness_refused :: bool
  ls_path :: link_path

datatype link_error = LConfig string | LRoute string | LTransport string | LSocket string | LStopped

fun link_error_from :: "engine_error \<Rightarrow> link_error" where
  "link_error_from (EConfig m) = LConfig m"
| "link_error_from (ERoute m) = LRoute m"
| "link_error_from (ETransport m) = LTransport m"
| "link_error_from (ESocket m) = LSocket m"
| "link_error_from EStopped = LStopped"

definition route_from :: "link_route \<Rightarrow> route" where
  "route_from r =
     \<lparr>route_id = lr_route_id r, route_card_bytes = lr_card r, route_secret = lr_paired_route_secret r,
      route_serial = lr_card_serial r, card_verified_at = lr_card_verified_at r\<rparr>"

definition link_route_from :: "route \<Rightarrow> link_route" where
  "link_route_from r =
     \<lparr>lr_route_id = route_id r, lr_card = route_card_bytes r, lr_paired_route_secret = route_secret r,
      lr_card_serial = route_serial r, lr_card_verified_at = card_verified_at r\<rparr>"

definition request_from :: "link_http_request \<Rightarrow> json_request" where
  "request_from q =
     \<lparr>req_route_id = lq_route_id q, req_method = lq_method q, req_path = lq_path q,
      req_authorization = lq_authorization q, req_body = lq_body q\<rparr>"

definition link_path_from :: "path_info \<Rightarrow> link_path" where
  "link_path_from p =
     \<lparr>lp_status = info_status p, lp_relay = info_relay p, lp_direct = info_direct p, lp_cause = info_cause p\<rparr>"

definition link_response_from :: "json_response \<Rightarrow> link_http_response" where
  "link_response_from r =
     \<lparr>ls_status = resp_status r, ls_body = resp_body r, ls_witness_refused = resp_witness_refused r,
      ls_path = link_path_from (resp_path r)\<rparr>"

lemma route_conversions [simp]:
  "route_from (link_route_from r) = r" "link_route_from (route_from l) = l"
  by (simp_all add: route_from_def link_route_from_def)

section \<open>The engine object\<close>

text \<open>The thread a call comes from: one in no Tokio runtime, one of the engine's own runtime (a socket
  callback), or one of another runtime, served from a helper thread.\<close>

datatype thread = PlainThread | OwnRuntime | OtherRuntime

record link_engine =
  core :: engine
  spawned_stops :: nat

definition own_runtime_text :: string where
  "own_runtime_text =
     ''the engine cannot be called from its own runtime (a socket callback); call it from another thread''"

definition block_on :: "thread \<Rightarrow> (engine \<Rightarrow> 'a \<times> engine) \<Rightarrow> link_engine \<Rightarrow> (link_error + 'a) \<times> link_engine" where
  "block_on th call l =
     (if th = OwnRuntime then (Inl (LConfig own_runtime_text), l)
      else case call (core l) of (r, e) \<Rightarrow> (Inr r, l\<lparr>core := e\<rparr>))"

text \<open>\<open>Ok(self.block_on(\<dots>)??)\<close>.\<close>

definition engine_method ::
  "thread \<Rightarrow> (engine \<Rightarrow> 'a engine_call) \<Rightarrow> link_engine \<Rightarrow> (link_error + 'a) \<times> link_engine" where
  "engine_method th call l =
     (case block_on th call l of
        (Inl err, l) \<Rightarrow> (Inl err, l)
      | (Inr (Inl err), l) \<Rightarrow> (Inl (link_error_from err), l)
      | (Inr (Inr x), l) \<Rightarrow> (Inr x, l))"

definition ffi_start ::
  "crypto \<Rightarrow> nat \<Rightarrow> u64 \<Rightarrow> string + socket_addr \<Rightarrow> string + unit \<Rightarrow> link_config \<Rightarrow> link_error + link_engine" where
  "ffi_start cr ident t bound runtime_new c =
     (let config = \<lparr>transport_seed = lc_transport_seed c, relay_urls_cfg = lc_relay_urls c,
                    engine_allow_direct = lc_allow_direct c, engine_routes = map route_from (lc_routes c)\<rparr>
      in case runtime_new of
           Inl err \<Rightarrow> Inl (LTransport err)
         | Inr _ \<Rightarrow>
             (case engine_start cr False ident t bound config of
                Inl err \<Rightarrow> Inl (link_error_from err)
              | Inr e \<Rightarrow> Inr \<lparr>core = e, spawned_stops = 0\<rparr>))"

datatype listener_call = OnOpen | OnText string | OnClosed string

text \<open>The spawned task of \<open>open_socket\<close>: what the listener hears of the messages, in order.\<close>

fun listen :: "incoming_message list \<Rightarrow> listener_call list" where
  "listen [] = []"
| "listen (IncomingText t # ms) = OnText t # listen ms"
| "listen (IncomingClosed reason # ms) = [OnClosed reason]"

record link_socket =
  ls_socket :: virtual_socket
  ls_session :: nat
  ls_heard :: "listener_call list"

definition ffi_open_socket ::
  "crypto \<Rightarrow> thread \<Rightarrow> call_env \<Rightarrow> string + virtual_url \<Rightarrow> string + unit \<Rightarrow> string + unit \<Rightarrow> string \<Rightarrow> link_engine \<Rightarrow>
   (link_error + link_socket) \<times> link_engine" where
  "ffi_open_socket cr th v url stream upgrade ident l =
     map_prod (map_sum id (\<lambda>(sock, i). \<lparr>ls_socket = sock, ls_session = i, ls_heard = [OnOpen]\<rparr>)) id
       (engine_method th (engine_open_socket cr v url stream upgrade ident) l)"

definition ffi_request_json_with_timeout ::
  "crypto \<Rightarrow> hex_lib \<Rightarrow> thread \<Rightarrow> call_env \<Rightarrow> exchange \<Rightarrow> link_http_request \<Rightarrow> nat \<Rightarrow> link_engine \<Rightarrow>
   (link_error + link_http_response) \<times> link_engine" where
  "ffi_request_json_with_timeout cr hx th v w q timeout l =
     map_prod (map_sum id link_response_from) id
       (engine_method th (request_json cr hx v w (request_from q) timeout) l)"

definition ffi_request_json ::
  "crypto \<Rightarrow> hex_lib \<Rightarrow> thread \<Rightarrow> call_env \<Rightarrow> exchange \<Rightarrow> link_http_request \<Rightarrow> link_engine \<Rightarrow>
   (link_error + link_http_response) \<times> link_engine" where
  "ffi_request_json cr hx th v w q l = ffi_request_json_with_timeout cr hx th v w q HTTP_REQUEST_TIMEOUT l"

definition ffi_retire_route ::
  "crypto \<Rightarrow> thread \<Rightarrow> call_env \<Rightarrow> exchange \<Rightarrow> string \<Rightarrow> link_engine \<Rightarrow> (link_error + unit) \<times> link_engine" where
  "ffi_retire_route cr th v w ident l = engine_method th (retire_route cr v w ident) l"

definition ffi_finalize_route ::
  "crypto \<Rightarrow> thread \<Rightarrow> call_env \<Rightarrow> exchange \<Rightarrow> string \<Rightarrow> link_engine \<Rightarrow> (link_error + unit) \<times> link_engine" where
  "ffi_finalize_route cr th v w ident l = engine_method th (finalize_route cr v w ident) l"

text \<open>\<open>None\<close> asks for more draws of a provisional route, as in the engine's \<open>pair_route\<close>.\<close>

definition ffi_pair_route ::
  "crypto \<Rightarrow> thread \<Rightarrow> pair_env \<Rightarrow> link_pairing_bundle \<Rightarrow> link_engine \<Rightarrow>
   ((link_error + link_route) \<times> link_engine) option" where
  "ffi_pair_route cr th pv b l =
     (let bundle = \<lparr>bundle_route_id = lb_route_id b, bundle_card = lb_server_card b,
                    bundle_secret = lb_pairing_secret b, bundle_expires_at = lb_expires_at b\<rparr>
      in if th = OwnRuntime then Some (Inl (LConfig own_runtime_text), l)
         else map_option (\<lambda>(res, e). (map_sum link_error_from link_route_from res, l\<lparr>core := e\<rparr>))
                (pair_route cr pv bundle (core l)))"

definition ffi_upsert_route :: "crypto \<Rightarrow> thread \<Rightarrow> link_route \<Rightarrow> link_engine \<Rightarrow> (link_error + unit) \<times> link_engine" where
  "ffi_upsert_route cr th r l = engine_method th (upsert_route cr (route_from r)) l"

definition ffi_remove_route :: "thread \<Rightarrow> string \<Rightarrow> link_engine \<Rightarrow> (link_error + unit) \<times> link_engine" where
  "ffi_remove_route th ident l = engine_method th (remove_route ident) l"

definition ffi_reannounce :: "thread \<Rightarrow> link_engine \<Rightarrow> (link_error + unit) \<times> link_engine" where
  "ffi_reannounce th l = engine_method th engine_reannounce l"

text \<open>A stop that cannot wait is left to the runtime.\<close>

definition ffi_stop :: "thread \<Rightarrow> link_engine \<Rightarrow> link_engine" where
  "ffi_stop th l =
     (case block_on th (\<lambda>e. ((), engine_stop e)) l of
        (Inl _, l) \<Rightarrow> l\<lparr>spawned_stops := spawned_stops l + 1\<rparr>
      | (Inr _, l) \<Rightarrow> l)"

definition run_spawned_stop :: "link_engine \<Rightarrow> link_engine" where
  "run_spawned_stop l =
     (if spawned_stops l = 0 then l
      else l\<lparr>core := engine_stop (core l), spawned_stops := spawned_stops l - 1\<rparr>)"

section \<open>The socket object\<close>

definition ffi_send_text :: "string \<Rightarrow> virtual_socket \<Rightarrow> virtual_socket \<times> (link_error + unit)" where
  "ffi_send_text t s = map_prod id (map_sum (LSocket \<circ> socket_error_text) id) (send_text t s)"

definition ffi_disconnect :: "virtual_socket \<Rightarrow> virtual_socket \<times> (link_error + unit)" where
  "ffi_disconnect s = map_prod id (map_sum (LSocket \<circ> socket_error_text) id) (socket_close s)"

definition ffi_path :: "Session.link_session \<Rightarrow> link_path" where
  "ffi_path x = link_path_from (path_of_session x)"

section \<open>A host\<close>

text \<open>The calls of a host, from whatever threads, and what runs beside them.\<close>

datatype host_event =
    HostOpen thread call_env "string + virtual_url" "string + unit" "string + unit" string
  | HostRequest thread call_env exchange link_http_request
  | HostRetire thread call_env exchange string
  | HostFinalize thread call_env exchange string
  | HostPair thread pair_env link_pairing_bundle
  | HostUpsert thread link_route
  | HostRemove thread string
  | HostReannounce thread
  | HostStop thread
  | SpawnedStop
  | EngineTask engine_event

fun host_step :: "crypto \<Rightarrow> hex_lib \<Rightarrow> host_event \<Rightarrow> link_engine \<Rightarrow> link_engine" where
  "host_step cr hx (HostOpen th v url stream upgrade ident) l = snd (ffi_open_socket cr th v url stream upgrade ident l)"
| "host_step cr hx (HostRequest th v w q) l = snd (ffi_request_json cr hx th v w q l)"
| "host_step cr hx (HostRetire th v w ident) l = snd (ffi_retire_route cr th v w ident l)"
| "host_step cr hx (HostFinalize th v w ident) l = snd (ffi_finalize_route cr th v w ident l)"
| "host_step cr hx (HostPair th pv b) l = (case ffi_pair_route cr th pv b l of Some (_, l) \<Rightarrow> l | None \<Rightarrow> l)"
| "host_step cr hx (HostUpsert th r) l = snd (ffi_upsert_route cr th r l)"
| "host_step cr hx (HostRemove th ident) l = snd (ffi_remove_route th ident l)"
| "host_step cr hx (HostReannounce th) l = snd (ffi_reannounce th l)"
| "host_step cr hx (HostStop th) l = ffi_stop th l"
| "host_step cr hx SpawnedStop l = run_spawned_stop l"
| "host_step cr hx (EngineTask ev) l = (if engine_task ev then l\<lparr>core := engine_step cr hx ev (core l)\<rparr> else l)"

definition host_run :: "crypto \<Rightarrow> hex_lib \<Rightarrow> host_event list \<Rightarrow> link_engine \<Rightarrow> link_engine" where
  "host_run cr hx evs l = fold (host_step cr hx) evs l"

section \<open>The host's engine is the engine\<close>

lemma engine_method_own [simp]: "engine_method OwnRuntime call l = (Inl (LConfig own_runtime_text), l)"
  by (simp add: engine_method_def block_on_def)

lemma engine_method_core:
  "core (snd (engine_method th call l)) = (if th = OwnRuntime then core l else snd (call (core l)))"
  by (auto simp: engine_method_def block_on_def split: prod.split sum.split)

lemma engine_method_error:
  "isl (fst (call (core l))) \<Longrightarrow> isl (fst (engine_method th call l))"
  by (auto simp: engine_method_def block_on_def split: prod.split sum.split)

lemma engine_method_reaches:
  "reaches cr hx (core l) (snd (call (core l))) \<Longrightarrow> reaches cr hx (core l) (core (snd (engine_method th call l)))"
  by (simp add: engine_method_core)

lemma ffi_pair_reaches: "ffi_pair_route cr th pv b l = Some (res, l') \<Longrightarrow> reaches cr hx (core l) (core l')"
  by (auto simp: ffi_pair_route_def Let_def split: if_splits intro: pair_route_reaches)

lemma ffi_stop_core: "core (ffi_stop th l) = (if th = OwnRuntime then core l else engine_stop (core l))"
  by (simp add: ffi_stop_def block_on_def)

lemma host_step_reaches: "reaches cr hx (core l) (core (host_step cr hx ev l))"
proof (cases ev)
  case (HostPair th pv b)
  then show ?thesis using ffi_pair_reaches by (auto split: option.split)
qed (auto simp: ffi_open_socket_def ffi_request_json_def ffi_request_json_with_timeout_def ffi_retire_route_def
  ffi_finalize_route_def ffi_upsert_route_def ffi_remove_route_def ffi_reannounce_def ffi_stop_core
  run_spawned_stop_def intro!: engine_method_reaches)

lemma host_run_reaches: "reaches cr hx (core l) (core (host_run cr hx evs l))"
  unfolding host_run_def
proof (induction evs arbitrary: l)
  case (Cons ev evs)
  then show ?case using reaches_trans [OF host_step_reaches Cons.IH] by simp
qed simp

lemma listen_ends_once: "listen (ms @ IncomingClosed reason # ns) = listen (ms @ [IncomingClosed reason])"
  by (induction ms rule: listen.induct) simp_all

text \<open>Once the engine has stopped, whatever the host does.\<close>

lemma stopped_host:
  assumes "eng_stop (core l)" "eng_stopped (core l)"
  shows "eng_stop (core (host_run cr hx evs l)) \<and> eng_stopped (core (host_run cr hx evs l))"
proof -
  obtain es where "core (host_run cr hx evs l) = engine_run cr hx es (core l)"
    using host_run_reaches unfolding reaches_def by blast
  then show ?thesis using halted_run [OF assms, of cr hx es] by (simp add: halted_def)
qed

lemma engine_stop_stops: "eng_stop (engine_stop e) \<and> eng_stopped (engine_stop e)"
  using halted_finish [of "signal_stop e"] by (simp add: engine_stop_def signal_stop_def halted_def)

lemma stopped_methods:
  assumes "eng_stop (core l)" "eng_stopped (core l)"
  shows "isl (fst (ffi_request_json cr hx th v w q l))" "isl (fst (ffi_open_socket cr th v url stream upgrade ident l))"
    "isl (fst (ffi_upsert_route cr th r l))" "isl (fst (ffi_retire_route cr th v w ident l))"
    "isl (fst (ffi_remove_route th ident l))"
  using assms
  by (auto simp: ffi_request_json_def ffi_request_json_with_timeout_def ffi_open_socket_def ffi_upsert_route_def
      ffi_retire_route_def ffi_remove_route_def isl_map_sum request_json_def reserve_file_request_def
      request_json_reserved_def engine_open_socket_def upsert_route_def retire_route_def delete_route_def
      remove_route_def intro!: engine_method_error split: sum.split)


end
