(* ===== verification/Web_Page.thy ===== *)
theory Web_Page
  imports Engine_Calls
begin

text \<open>
  \<open>link-web/src/web.rs\<close>: the engine behind wasm-bindgen. JavaScript values and the readers that take them
  apart, the records that go across both ways, the capture of a request (its body checked, its file
  reservation made and its bytes copied before anything is sent) and \<open>WebEngine\<close>: a call checks its
  arguments at once and leaves a task on the page's event loop, which runs later, also after a stop.
\<close>

section \<open>JavaScript values\<close>

text \<open>A number is NaN, an infinity or a double's mantissa and exponent. A typed array says what its buffer
  is; a property whose getter throws is \<open>None\<close>. Functions are named by a number.\<close>

datatype js_number = NotFinite | Finite int int

datatype js_buffer = FixedBuffer | SharedBuffer | ResizableBuffer | DetachedBuffer

datatype js =
    JUndefined
  | JNull
  | JBool bool
  | JString string
  | JNumber js_number
  | JBigInt int
  | JUint8Array js_buffer bytes
  | JArray "js list"
  | JFunction nat
  | JObject "(string \<times> js option) list"

definition MAX_SAFE_INTEGER :: nat where "MAX_SAFE_INTEGER = 2 ^ 53 - 1"

fun engine_error_text :: "engine_error \<Rightarrow> string" where
  "engine_error_text (EConfig m) = ''configuration: '' @ m"
| "engine_error_text (ERoute m) = ''route: '' @ m"
| "engine_error_text (ETransport m) = ''transport: '' @ m"
| "engine_error_text (ESocket m) = ''socket: '' @ m"
| "engine_error_text EStopped = ''the engine is stopped''"

definition invalid :: "string \<Rightarrow> string" where
  "invalid m = ''configuration: '' @ m"

text \<open>\<open>Reflect::get\<close> on the objects that matter here; typed arrays, arrays and functions have no property of
  the names that are read.\<close>

definition is_object :: "js \<Rightarrow> bool" where
  "is_object v = (case v of JUint8Array _ _ \<Rightarrow> True | JArray _ \<Rightarrow> True | JObject _ \<Rightarrow> True | _ \<Rightarrow> False)"

definition field :: "js \<Rightarrow> string \<Rightarrow> string + js" where
  "field object name =
     (if \<not> is_object object then Inl (invalid (''expected an object holding '' @ name))
      else case object of
             JObject ps \<Rightarrow>
               (case map_of ps name of
                  None \<Rightarrow> Inr JUndefined
                | Some None \<Rightarrow> Inl (invalid (name @ '' could not be read''))
                | Some (Some v) \<Rightarrow> Inr v)
           | _ \<Rightarrow> Inr JUndefined)"

definition js_string :: "js \<Rightarrow> string \<Rightarrow> string + string" where
  "js_string object name =
     (case field object name of
        Inl e \<Rightarrow> Inl e
      | Inr (JString s) \<Rightarrow> Inr s
      | Inr _ \<Rightarrow> Inl (invalid (name @ '' must be a string'')))"

definition js_bytes :: "js \<Rightarrow> string \<Rightarrow> string + bytes" where
  "js_bytes object name =
     (case field object name of
        Inl e \<Rightarrow> Inl e
      | Inr (JUint8Array k b) \<Rightarrow> Inr (if k = DetachedBuffer then [] else b)
      | Inr _ \<Rightarrow> Inl (invalid (name @ '' must be a Uint8Array'')))"

text \<open>The value of a finite number when it is whole.\<close>

fun whole :: "js_number \<Rightarrow> int option" where
  "whole NotFinite = None"
| "whole (Finite m x) =
     (if x \<ge> 0 then Some (m * 2 ^ nat x)
      else if m mod 2 ^ nat (- x) = 0 then Some (m div 2 ^ nat (- x)) else None)"

definition js_integer :: "js \<Rightarrow> string \<Rightarrow> string + u64" where
  "js_integer object name =
     (let bad = Inl (invalid (name @ '' must be a non-negative safe integer''))
      in case field object name of
           Inl e \<Rightarrow> Inl e
         | Inr (JNumber x) \<Rightarrow>
             (case whole x of
                Some k \<Rightarrow> if 0 \<le> k \<and> k \<le> int MAX_SAFE_INTEGER then Inr (word_of_int k) else bad
              | None \<Rightarrow> bad)
         | Inr _ \<Rightarrow> bad)"

definition js_list :: "js \<Rightarrow> string \<Rightarrow> string + js list" where
  "js_list object name =
     (case field object name of
        Inl e \<Rightarrow> Inl e
      | Inr (JArray vs) \<Rightarrow> Inr vs
      | Inr _ \<Rightarrow> Inl (invalid (name @ '' must be an array'')))"

definition wide :: "js \<Rightarrow> string \<Rightarrow> string + u64" where
  "wide object name =
     (case field object name of
        Inl e \<Rightarrow> Inl e
      | Inr (JBigInt k) \<Rightarrow>
          if 0 \<le> k \<and> k < 2 ^ 64 then Inr (word_of_int k) else Inl (invalid (name @ '' must be a u64 BigInt''))
      | Inr _ \<Rightarrow> js_integer object name)"

section \<open>Records across the boundary\<close>

definition route_in :: "js \<Rightarrow> string + route" where
  "route_in v =
     (case js_string v ''routeId'' of Inl e \<Rightarrow> Inl e | Inr ident \<Rightarrow>
      (case js_bytes v ''card'' of Inl e \<Rightarrow> Inl e | Inr cd \<Rightarrow>
       (case wide v ''cardSerial'' of Inl e \<Rightarrow> Inl e | Inr sn \<Rightarrow>
        (case wide v ''cardVerifiedAt'' of Inl e \<Rightarrow> Inl e | Inr at \<Rightarrow>
         (case js_bytes v ''pairedRouteSecret'' of Inl e \<Rightarrow> Inl e | Inr k \<Rightarrow>
            Inr \<lparr>route_id = ident, route_card_bytes = cd, route_secret = k, route_serial = sn,
                 card_verified_at = at\<rparr>)))))"

definition route_out :: "route \<Rightarrow> js" where
  "route_out r =
     JObject [(''routeId'', Some (JString (route_id r))),
              (''card'', Some (JUint8Array FixedBuffer (route_card_bytes r))),
              (''pairedRouteSecret'', Some (JUint8Array FixedBuffer (route_secret r))),
              (''cardSerial'', Some (JBigInt (uint (route_serial r)))),
              (''cardVerifiedAt'', Some (JBigInt (uint (card_verified_at r))))]"

text \<open>The text of an address is a parameter.\<close>

definition path_out :: "(socket_addr \<Rightarrow> string) \<Rightarrow> path_info \<Rightarrow> js" where
  "path_out show_addr p =
     (let optional = (\<lambda>v. case v of Some s \<Rightarrow> JString s | None \<Rightarrow> JNull)
      in JObject [(''status'', Some (JString (info_status p))), (''relay'', Some (optional (info_relay p))),
                  (''direct'', Some (optional (map_option show_addr (info_direct p)))),
                  (''cause'', Some (JString (info_cause p)))])"

definition response_out :: "(socket_addr \<Rightarrow> string) \<Rightarrow> json_response \<Rightarrow> js" where
  "response_out show_addr r =
     JObject [(''status'', Some (JNumber (Finite (int (resp_status r)) 0))),
              (''body'', Some (JUint8Array FixedBuffer (resp_body r))),
              (''witnessRefused'', Some (JBool (resp_witness_refused r))),
              (''path'', Some (path_out show_addr (resp_path r)))]"

definition callback :: "js \<Rightarrow> string \<Rightarrow> string + nat option" where
  "callback listener name =
     (case field listener name of
        Inl e \<Rightarrow> Inl e
      | Inr JUndefined \<Rightarrow> Inr None
      | Inr JNull \<Rightarrow> Inr None
      | Inr (JFunction f) \<Rightarrow> Inr (Some f)
      | Inr _ \<Rightarrow> Inl (invalid (''listener '' @ name @ '' must be a function'')))"

definition bundle_in :: "js \<Rightarrow> string + pairing_bundle" where
  "bundle_in v =
     (case js_string v ''routeId'' of Inl e \<Rightarrow> Inl e | Inr ident \<Rightarrow>
      (case js_bytes v ''serverCard'' of Inl e \<Rightarrow> Inl e | Inr cd \<Rightarrow>
       (case js_integer v ''expiresAt'' of Inl e \<Rightarrow> Inl e | Inr t \<Rightarrow>
        (case js_bytes v ''pairingSecret'' of Inl e \<Rightarrow> Inl e | Inr k \<Rightarrow>
           Inr \<lparr>bundle_route_id = ident, bundle_card = cd, bundle_secret = k, bundle_expires_at = t\<rparr>))))"

section \<open>Capturing a request\<close>

text \<open>\<open>stableRequestBody\<close>: a \<open>Uint8Array\<close> over a fixed buffer that is neither shared nor detached.\<close>

definition stable_request_body :: "js \<Rightarrow> bytes option" where
  "stable_request_body v =
     (case v of JUint8Array k b \<Rightarrow> if k = FixedBuffer then Some b else None | _ \<Rightarrow> None)"

text \<open>The metadata and the body's view.\<close>

definition request_in :: "js \<Rightarrow> string + json_request \<times> bytes" where
  "request_in v =
     (case js_string v ''routeId'' of Inl e \<Rightarrow> Inl e | Inr ident \<Rightarrow>
      (case js_string v ''method'' of Inl e \<Rightarrow> Inl e | Inr m \<Rightarrow>
       (case js_string v ''path'' of Inl e \<Rightarrow> Inl e | Inr p \<Rightarrow>
        (case js_string v ''authorization'' of Inl e \<Rightarrow> Inl e | Inr a \<Rightarrow>
         (case field v ''body'' of Inl e \<Rightarrow> Inl e | Inr body \<Rightarrow>
          (case stable_request_body body of
             None \<Rightarrow> Inl (invalid ''body must be a Uint8Array over a fixed, non-shared buffer'')
           | Some b \<Rightarrow>
               Inr (\<lparr>req_route_id = ident, req_method = m, req_path = p, req_authorization = a, req_body = []\<rparr>, b)))))))"

text \<open>\<open>copied\<close> tells whether the buffer could still be copied.\<close>

definition capture_request ::
  "hex_lib \<Rightarrow> bool \<Rightarrow> js \<Rightarrow> engine \<Rightarrow> (string + json_request \<times> file_permit option) \<times> engine" where
  "capture_request hx copied v e =
     (case request_in v of
        Inl err \<Rightarrow> (Inl err, e)
      | Inr (captured, body) \<Rightarrow>
          (case validate_http_request_length hx captured (length body) of
             Inl err \<Rightarrow> (Inl (engine_error_text err), e)
           | Inr (m, r) \<Rightarrow>
               (case (if is_file r then map_prod (map_sum id Some) id (reserve_file_request e) else (Inr None, e)) of
                  (Inl err, e) \<Rightarrow> (Inl (engine_error_text err), e)
                | (Inr permit, e) \<Rightarrow>
                    if copied then (Inr (captured\<lparr>req_body := body\<rparr>, permit), e)
                    else (Inl (invalid ''body could not be copied from its fixed buffer''), drop_permit permit e))))"

section \<open>The engine object of the page\<close>

text \<open>\<open>web_taken\<close> says that the cell of the engine is empty; \<open>web_tasks\<close> are the futures not yet run, each
  with its own reference to the engine.\<close>

datatype web_task =
    TaskPair pairing_bundle
  | TaskUpsert route
  | TaskRetire string
  | TaskFinalize string
  | TaskRemove string
  | TaskRequest json_request "file_permit option"
  | TaskOpen string string "nat option \<times> nat option \<times> nat option"
  | TaskWipe

record web_engine =
  web_core :: engine
  web_taken :: bool
  web_shutdown :: bool
  web_tasks :: "web_task list"

fun all_in :: "('a \<Rightarrow> string + 'b) \<Rightarrow> 'a list \<Rightarrow> string + 'b list" where
  "all_in f [] = Inr []"
| "all_in f (v # vs) =
     (case f v of Inl e \<Rightarrow> Inl e | Inr x \<Rightarrow> (case all_in f vs of Inl e \<Rightarrow> Inl e | Inr xs \<Rightarrow> Inr (x # xs)))"

definition url_in :: "js \<Rightarrow> string + string" where
  "url_in v = (case v of JString s \<Rightarrow> Inr s | _ \<Rightarrow> Inl (invalid ''relayUrls must hold strings''))"

definition config_in :: "js \<Rightarrow> string + engine_config" where
  "config_in v =
     (case js_list v ''routes'' of Inl e \<Rightarrow> Inl e | Inr rs \<Rightarrow>
       (case all_in route_in rs of Inl e \<Rightarrow> Inl e | Inr routes \<Rightarrow>
        (case js_list v ''relayUrls'' of Inl e \<Rightarrow> Inl e | Inr us \<Rightarrow>
         (case all_in url_in us of Inl e \<Rightarrow> Inl e | Inr urls \<Rightarrow>
          (case js_bytes v ''transportSeed'' of Inl e \<Rightarrow> Inl e | Inr sd \<Rightarrow>
             Inr \<lparr>transport_seed = sd, relay_urls_cfg = urls, engine_allow_direct = False, engine_routes = routes\<rparr>)))))"

definition web_start ::
  "crypto \<Rightarrow> nat \<Rightarrow> u64 \<Rightarrow> string + socket_addr \<Rightarrow> js \<Rightarrow> string + web_engine" where
  "web_start cr ident t bound config =
     (case config_in config of
        Inl e \<Rightarrow> Inl e
      | Inr c \<Rightarrow>
          (case engine_start cr True ident t bound c of
             Inl e \<Rightarrow> Inl (engine_error_text e)
           | Inr e \<Rightarrow> Inr \<lparr>web_core = e, web_taken = False, web_shutdown = False, web_tasks = []\<rparr>))"

text \<open>\<open>run\<close>: the promise is rejected at once, or its task waits.\<close>

definition web_run :: "web_task \<Rightarrow> web_engine \<Rightarrow> (string + unit) \<times> web_engine" where
  "web_run task w =
     (if web_taken w then (Inl (engine_error_text EStopped), w)
      else (Inr (), w\<lparr>web_tasks := web_tasks w @ [task]\<rparr>))"

definition web_pair_route :: "js \<Rightarrow> web_engine \<Rightarrow> (string + unit) \<times> web_engine" where
  "web_pair_route v w = (case bundle_in v of Inl e \<Rightarrow> (Inl e, w) | Inr b \<Rightarrow> web_run (TaskPair b) w)"

definition web_upsert_route :: "js \<Rightarrow> web_engine \<Rightarrow> (string + unit) \<times> web_engine" where
  "web_upsert_route v w = (case route_in v of Inl e \<Rightarrow> (Inl e, w) | Inr r \<Rightarrow> web_run (TaskUpsert r) w)"

definition web_retire_route :: "string \<Rightarrow> web_engine \<Rightarrow> (string + unit) \<times> web_engine" where
  "web_retire_route ident w = web_run (TaskRetire ident) w"

definition web_finalize_route :: "string \<Rightarrow> web_engine \<Rightarrow> (string + unit) \<times> web_engine" where
  "web_finalize_route ident w = web_run (TaskFinalize ident) w"

definition web_remove_route :: "string \<Rightarrow> web_engine \<Rightarrow> (string + unit) \<times> web_engine" where
  "web_remove_route ident w = web_run (TaskRemove ident) w"

definition web_request :: "hex_lib \<Rightarrow> bool \<Rightarrow> js \<Rightarrow> web_engine \<Rightarrow> (string + unit) \<times> web_engine" where
  "web_request hx copied v w =
     (if web_taken w then (Inl (engine_error_text EStopped), w)
      else case capture_request hx copied v (web_core w) of
             (Inl e, c) \<Rightarrow> (Inl e, w\<lparr>web_core := c\<rparr>)
           | (Inr (q, permit), c) \<Rightarrow> web_run (TaskRequest q permit) (w\<lparr>web_core := c\<rparr>))"

definition web_open_socket :: "string \<Rightarrow> string \<Rightarrow> js \<Rightarrow> web_engine \<Rightarrow> (string + unit) \<times> web_engine" where
  "web_open_socket url ident listener w =
     (case callback listener ''onOpen'' of Inl e \<Rightarrow> (Inl e, w) | Inr a \<Rightarrow>
      (case callback listener ''onText'' of Inl e \<Rightarrow> (Inl e, w) | Inr b \<Rightarrow>
       (case callback listener ''onClosed'' of Inl e \<Rightarrow> (Inl e, w) | Inr c \<Rightarrow>
          web_run (TaskOpen url ident (a, b, c)) w)))"

definition web_stop :: "web_engine \<Rightarrow> web_engine" where
  "web_stop w =
     (if web_shutdown w then w
      else w\<lparr>web_taken := True, web_shutdown := True,
             web_tasks := web_tasks w @ (if web_taken w then [] else [TaskWipe])\<rparr>)"

section \<open>The event loop\<close>

text \<open>What a task meets outside, and what its promise settles with.\<close>

record web_env =
  web_call :: call_env
  web_exchange :: exchange
  web_pairing :: pair_env
  parse_url :: "string \<Rightarrow> string + virtual_url"
  web_stream :: "string + unit"
  web_upgrade :: "string + unit"
  show_addr :: "socket_addr \<Rightarrow> string"

datatype web_result = ResultJs js | ResultSocket virtual_socket nat

definition settled :: "('a \<Rightarrow> web_result) \<Rightarrow> 'a engine_call \<Rightarrow> (string + web_result) \<times> engine" where
  "settled f = map_prod (map_sum engine_error_text f) id"

abbreviation undefined_result :: "'a \<Rightarrow> web_result" where
  "undefined_result \<equiv> \<lambda>_. ResultJs JUndefined"

fun run_task ::
  "crypto \<Rightarrow> hex_lib \<Rightarrow> web_env \<Rightarrow> web_task \<Rightarrow> engine \<Rightarrow> ((string + web_result) \<times> engine) option" where
  "run_task cr hx v (TaskPair b) e = map_option (settled (ResultJs \<circ> route_out)) (pair_route cr (web_pairing v) b e)"
| "run_task cr hx v (TaskUpsert r) e = Some (settled undefined_result (upsert_route cr r e))"
| "run_task cr hx v (TaskRetire ident) e =
     Some (settled undefined_result (retire_route cr (web_call v) (web_exchange v) ident e))"
| "run_task cr hx v (TaskFinalize ident) e =
     Some (settled undefined_result (finalize_route cr (web_call v) (web_exchange v) ident e))"
| "run_task cr hx v (TaskRemove ident) e = Some (settled undefined_result (remove_route ident e))"
| "run_task cr hx v (TaskRequest q permit) e =
     Some (settled (ResultJs \<circ> response_out (show_addr v))
       (request_json_reserved cr hx (web_call v) (web_exchange v) q HTTP_REQUEST_TIMEOUT permit e))"
| "run_task cr hx v (TaskOpen url ident fs) e =
     Some (settled (\<lambda>(sock, i). ResultSocket sock i)
       (engine_open_socket cr (web_call v) (parse_url v url) (web_stream v) (web_upgrade v) ident e))"
| "run_task cr hx v TaskWipe e = Some (Inr (ResultJs JUndefined), wipe e)"

text \<open>What the listener's functions are called with, in order; \<open>fs\<close> are \<open>onOpen\<close>, \<open>onText\<close> and \<open>onClosed\<close>.\<close>

fun page_listen ::
  "nat option \<times> nat option \<times> nat option \<Rightarrow> incoming_message list \<Rightarrow> (nat \<times> js) list" where
  "page_listen fs [] = []"
| "page_listen (a, b, c) (IncomingText t # ms) =
     (case b of Some f \<Rightarrow> [(f, JString t)] | None \<Rightarrow> []) @ page_listen (a, b, c) ms"
| "page_listen (a, b, c) (IncomingClosed reason # ms) =
     (case c of Some f \<Rightarrow> [(f, JString reason)] | None \<Rightarrow> [])"

text \<open>The handle of a socket.\<close>

definition page_send_text :: "string \<Rightarrow> virtual_socket \<Rightarrow> virtual_socket \<times> (string + unit)" where
  "page_send_text t s = map_prod id (map_sum (\<lambda>err. ''socket: '' @ socket_error_text err) id) (send_text t s)"

definition page_disconnect :: "virtual_socket \<Rightarrow> virtual_socket \<times> (string + unit)" where
  "page_disconnect s = map_prod id (map_sum (\<lambda>err. ''socket: '' @ socket_error_text err) id) (socket_close s)"

definition page_path :: "(socket_addr \<Rightarrow> string) \<Rightarrow> Session.link_session \<Rightarrow> js" where
  "page_path sa x = path_out sa (path_of_session x)"

datatype page_event =
    CallPair js
  | CallUpsert js
  | CallRetire string
  | CallFinalize string
  | CallRemove string
  | CallRequest bool js
  | CallOpen string string js
  | CallStop
  | RunTask nat web_env
  | OwnTask engine_event

definition step_task :: "crypto \<Rightarrow> hex_lib \<Rightarrow> nat \<Rightarrow> web_env \<Rightarrow> web_engine \<Rightarrow> web_engine" where
  "step_task cr hx i v w =
     (if i < length (web_tasks w) then
        (case run_task cr hx v (web_tasks w ! i) (web_core w) of
           None \<Rightarrow> w
         | Some (_, e) \<Rightarrow> w\<lparr>web_core := e, web_tasks := take i (web_tasks w) @ drop (i + 1) (web_tasks w)\<rparr>)
      else w)"

fun web_step :: "crypto \<Rightarrow> hex_lib \<Rightarrow> page_event \<Rightarrow> web_engine \<Rightarrow> web_engine" where
  "web_step cr hx (CallPair v) w = snd (web_pair_route v w)"
| "web_step cr hx (CallUpsert v) w = snd (web_upsert_route v w)"
| "web_step cr hx (CallRetire ident) w = snd (web_retire_route ident w)"
| "web_step cr hx (CallFinalize ident) w = snd (web_finalize_route ident w)"
| "web_step cr hx (CallRemove ident) w = snd (web_remove_route ident w)"
| "web_step cr hx (CallRequest copied v) w = snd (web_request hx copied v w)"
| "web_step cr hx (CallOpen url ident l) w = snd (web_open_socket url ident l w)"
| "web_step cr hx CallStop w = web_stop w"
| "web_step cr hx (RunTask i v) w = step_task cr hx i v w"
| "web_step cr hx (OwnTask ev) w = (if engine_task ev then w\<lparr>web_core := engine_step cr hx ev (web_core w)\<rparr> else w)"

section \<open>Values survive the crossing\<close>

lemma field_simps [simp]: "field (JObject ps) name =
    (case map_of ps name of
       None \<Rightarrow> Inr JUndefined
     | Some None \<Rightarrow> Inl (invalid (name @ '' could not be read''))
     | Some (Some v) \<Rightarrow> Inr v)"
  by (simp add: field_def is_object_def)

text \<open>A paired route survives the page's storage. Whatever route the engine hands to the page, with
  any identifier, card, secret and 64-bit serial and second, the record read back from that value
  is the same route.\<close>

theorem route_crosses_exactly: "route_in (route_out r) = Inr r"
proof -
  have b: "0 \<le> uint x \<and> uint x < 2 ^ 64" for x :: u64 using uint_lt2p [of x] by simp
  show ?thesis using b [of "route_serial r"] b [of "card_verified_at r"]
    by (simp add: route_in_def route_out_def js_string_def js_bytes_def wide_def)
qed

text \<open>A number is taken only when it is a whole one that a double holds exactly, and then at its value.\<close>

lemma js_integer_exact:
  assumes "js_integer object name = Inr n"
  shows "\<exists>x. field object name = Inr (JNumber x) \<and> whole x = Some (uint n) \<and> uint n \<le> 2 ^ 53 - 1"
proof -
  obtain x k where x: "field object name = Inr (JNumber x)" "whole x = Some k" "0 \<le> k" "k \<le> int MAX_SAFE_INTEGER"
      "n = word_of_int k"
    using assms by (auto simp: js_integer_def Let_def split: sum.splits js.splits option.splits if_splits)
  then have "uint n = k" by (simp add: MAX_SAFE_INTEGER_def uint_word_of_int_eq take_bit_int_eq_self)
  then show ?thesis using x by (simp add: MAX_SAFE_INTEGER_def)
qed

section \<open>Capturing\<close>

lemma validate_length_body:
  "validate_http_request_length hx (q\<lparr>req_body := b\<rparr>) n = validate_http_request_length hx q n"
  by (simp add: validate_http_request_length_def cong: option.case_cong if_cong)

lemma reserve_then_drop:
  "reserve_file_request e = (Inr g, e') \<Longrightarrow> drop_permit (Some g) e' = e \<and> permit_gate g = eng_gate e'"
  by (auto simp: reserve_file_request_def drop_permit_def drop_holder_def split: if_splits)

lemma reserve_refused: "reserve_file_request e = (Inl err, e') \<Longrightarrow> e' = e"
  by (auto simp: reserve_file_request_def split: if_splits)

text \<open>C28: A captured request is one the engine takes, and a failed capture costs nothing. When a capture
  succeeds, the copied request passes the engine's own check, it holds the engine's file reservation
  exactly when its route moves a file, and that reservation is all that changed. When it fails, for
  whatever value the page gave or because the buffer could not be copied any more, the engine is
  as it was: the reservation has been given back.\<close>

theorem capture_is_all_or_nothing:
  "case capture_request hx copied v e of
     (Inl _, e') \<Rightarrow> e' = e
   | (Inr (q, permit), e') \<Rightarrow>
       \<exists>m r. validate_http_request hx q = Inr (m, r) \<and> permit_matches e' permit r \<and> drop_permit permit e' = e"
proof (cases "request_in v")
  case (Inr x)
  obtain captured body where x: "x = (captured, body)" by (rule prod.exhaust)
  show ?thesis
  proof (cases "validate_http_request_length hx captured (length body)")
    case (Inr y)
    obtain m r where y: "y = (m, r)" by (rule prod.exhaust)
    have valid: "validate_http_request hx (captured\<lparr>req_body := body\<rparr>) = Inr (m, r)"
      using Inr y by (simp add: validate_http_request_def validate_length_body)
    obtain q e1 where q: "reserve_file_request e = (q, e1)" by (rule prod.exhaust)
    show ?thesis
    proof (cases "is_file r")
      case True
      then show ?thesis
        using \<open>request_in v = Inr x\<close> x Inr y valid q reserve_then_drop [of e _ e1] reserve_refused [of e _ e1]
        by (cases q) (auto simp: capture_request_def permit_matches_def)
    next
      case False
      then show ?thesis
        using \<open>request_in v = Inr x\<close> x Inr y valid
        by (simp add: capture_request_def permit_matches_def drop_permit_def)
    qed
  qed (use Inr x in \<open>simp add: capture_request_def\<close>)
qed (simp add: capture_request_def)

section \<open>The page's engine is the engine\<close>

lemma settled_core: "settled f c = (res, e) \<Longrightarrow> e = snd c"
  by (auto simp: settled_def map_prod_def split: prod.splits)

lemma run_task_reaches:
  assumes "run_task cr hx v task e = Some (res, e')"
  shows "reaches cr hx e e'"
proof (cases task)
  case (TaskPair b)
  then obtain q where "pair_route cr (web_pairing v) b e = Some (q, e')"
    using assms by (auto simp: settled_def)
  then show ?thesis by (rule pair_route_reaches)
qed (use assms in \<open>auto dest!: settled_core\<close>)

lemma capture_reaches: "reaches cr hx e (snd (capture_request hx' copied v e))"
proof -
  obtain q e1 where q: "reserve_file_request e = (q, e1)" by (rule prod.exhaust)
  have "reaches cr hx e e1" using calls_reach(4) [of cr hx e] q by simp
  then show ?thesis using reserve_then_drop [of e _ e1] reserve_refused [of e _ e1] q
    by (cases q) (auto simp: capture_request_def drop_permit_def split: sum.split prod.split)
qed

lemma web_run_fields [simp]:
  "web_core (snd (web_run task w)) = web_core w" "web_taken (snd (web_run task w)) = web_taken w"
  "web_shutdown (snd (web_run task w)) = web_shutdown w"
  by (simp_all add: web_run_def)

lemma web_run_taken: "web_taken w \<Longrightarrow> web_run task w = (Inl (engine_error_text EStopped), w)"
  by (simp add: web_run_def)

lemmas page_calls = web_pair_route_def web_upsert_route_def web_retire_route_def web_finalize_route_def
  web_remove_route_def web_open_socket_def

lemma web_step_reaches: "reaches cr hx (web_core w) (web_core (web_step cr hx ev w))"
proof (cases ev)
  case (CallRequest copied v)
  obtain q c where q: "capture_request hx copied v (web_core w) = (q, c)" by (rule prod.exhaust)
  then have "reaches cr hx (web_core w) c" using capture_reaches [of cr hx "web_core w" hx copied v] by simp
  then show ?thesis using CallRequest q by (auto simp: web_request_def split: sum.split)
next
  case (RunTask i v)
  then show ?thesis by (auto simp: step_task_def split: option.split intro: run_task_reaches)
next
  case CallStop
  then show ?thesis by (simp add: web_stop_def)
qed (auto simp: page_calls split: sum.split)

text \<open>Once the page has stopped, no call adds a task and the answers come at once.\<close>

definition web_ok :: "crypto \<Rightarrow> web_engine \<Rightarrow> bool" where
  "web_ok cr w \<longleftrightarrow>
     engine_ok cr (web_core w) \<and> (web_taken w \<longleftrightarrow> web_shutdown w) \<and>
     (web_shutdown w \<and> TaskWipe \<notin> set (web_tasks w) \<longrightarrow> forgotten (web_core w))"

lemma call_taken:
  assumes "web_taken w"
  shows "isl (fst (web_pair_route v w)) \<and> isl (fst (web_upsert_route v w)) \<and> isl (fst (web_retire_route ident w)) \<and>
    isl (fst (web_finalize_route ident w)) \<and> isl (fst (web_remove_route ident w)) \<and>
    isl (fst (web_request hx copied v w)) \<and> isl (fst (web_open_socket url ident v w))"
  using assms by (simp add: page_calls web_request_def web_run_taken split: sum.split)

lemma step_task_forgotten:
  assumes ok: "web_ok cr w" and i: "i < length (web_tasks w)"
    and run: "run_task cr hx v (web_tasks w ! i) (web_core w) = Some (res, e)"
    and gone: "web_shutdown w" "TaskWipe \<notin> set (take i (web_tasks w) @ drop (i + 1) (web_tasks w))"
  shows "forgotten e"
proof (cases "web_tasks w ! i = TaskWipe")
  case True
  then show ?thesis using run ok wipe_forgets by (auto simp: web_ok_def)
next
  case False
  then have "TaskWipe \<notin> set (web_tasks w)"
    using gone(2) id_take_nth_drop [OF i] by (metis Suc_eq_plus1 set_append set_ConsD Un_iff)
  then have "forgotten (web_core w)" "engine_ok cr (web_core w)" using ok gone(1) by (simp_all add: web_ok_def)
  then show ?thesis using forgotten_reaches run_task_reaches [OF run] by blast
qed

lemma web_step_fields:
  assumes "web_taken w \<longleftrightarrow> web_shutdown w"
  shows "web_taken (web_step cr hx ev w) \<longleftrightarrow> web_shutdown (web_step cr hx ev w)"
  using assms
  by (cases ev) (auto simp: page_calls web_request_def web_stop_def step_task_def split: sum.split option.split prod.split)

lemma web_step_tasks:
  assumes "web_taken w \<longleftrightarrow> web_shutdown w" "\<forall>i v. ev \<noteq> RunTask i v"
    "web_shutdown (web_step cr hx ev w)" "TaskWipe \<notin> set (web_tasks (web_step cr hx ev w))"
  shows "web_shutdown w \<and> TaskWipe \<notin> set (web_tasks w)"
  using assms
  by (cases ev) (auto simp: page_calls web_request_def web_stop_def web_run_def split: sum.splits if_splits prod.splits)

lemma web_step_ok:
  assumes ok: "web_ok cr w"
  shows "web_ok cr (web_step cr hx ev w)"
proof -
  let ?w = "web_step cr hx ev w"
  have e: "engine_ok cr (web_core ?w)"
    using reaches_ok [OF web_step_reaches [of cr hx w ev]] ok by (simp add: web_ok_def)
  have f: "web_taken ?w \<longleftrightarrow> web_shutdown ?w" using web_step_fields ok by (simp add: web_ok_def)
  have "forgotten (web_core ?w)" if gone: "web_shutdown ?w" "TaskWipe \<notin> set (web_tasks ?w)"
  proof (cases "\<exists>i v. ev = RunTask i v")
    case True
    then obtain i v where ev: "ev = RunTask i v" by blast
    show ?thesis
    proof (cases "i < length (web_tasks w) \<and> run_task cr hx v (web_tasks w ! i) (web_core w) \<noteq> None")
      case True
      then obtain res e' where "run_task cr hx v (web_tasks w ! i) (web_core w) = Some (res, e')" by auto
      then show ?thesis using True gone step_task_forgotten [OF ok] by (simp add: ev step_task_def)
    next
      case False
      then have "?w = w" by (auto simp: ev step_task_def split: option.split)
      then show ?thesis using ok gone by (simp add: web_ok_def)
    qed
  next
    case False
    then have "web_shutdown w \<and> TaskWipe \<notin> set (web_tasks w)"
      using web_step_tasks [of w ev cr hx] gone ok by (simp add: web_ok_def)
    then have "forgotten (web_core w)" "engine_ok cr (web_core w)" using ok by (simp_all add: web_ok_def)
    then show ?thesis using forgotten_reaches web_step_reaches by blast
  qed
  then show ?thesis using e f by (simp add: web_ok_def)
qed

interpretation web: machine "web_step cr hx" "web_ok cr" for cr hx
  by unfold_locales (rule web_step_ok)

lemma web_start_ok: "web_start cr ident t bound config = Inr w \<Longrightarrow> web_ok cr w"
  by (auto simp: web_start_def web_ok_def intro: engine_start_ok split: sum.splits)

text \<open>C9: A stopped page has forgotten everything. After a start and any calls of the page, tasks of the event
  loop in any order and activity of the engine's own tasks, once \<open>stop\<close> was called and the task behind its
  promise has run, the engine is stopped, its route table is empty and its tag book holds no paired
  secret, also when calls made before the stop run after it; and every further call of the page is
  rejected.\<close>

theorem stopped_page_forgets:
  assumes "web_start cr ident t bound config = Inr w0"
    and "w = fold (web_step cr hx) evs w0"
    and "web_shutdown w" "TaskWipe \<notin> set (web_tasks w)"
  shows "eng_stop (web_core w) \<and> eng_stopped (web_core w) \<and> eng_routes (web_core w) = [] \<and>
    (\<exists>b. ep_book (eng_endpoint (web_core w)) = Some b \<and> paired b = []) \<and>
    isl (fst (web_pair_route v w)) \<and> isl (fst (web_upsert_route v w)) \<and> isl (fst (web_retire_route route w)) \<and>
    isl (fst (web_finalize_route route w)) \<and> isl (fst (web_remove_route route w)) \<and>
    isl (fst (web_request hx copied v w)) \<and> isl (fst (web_open_socket url route v w))"
proof -
  have ok: "web_ok cr w" unfolding assms(2) by (rule web.run_inv) (rule web_start_ok [OF assms(1)])
  then have "forgotten (web_core w)" "web_taken w" using assms(3,4) by (simp_all add: web_ok_def)
  then show ?thesis using call_taken [of w] by (auto simp: forgotten_def)
qed

text \<open>A page to evaluate at.\<close>

definition home_page :: js where
  "home_page =
     JObject [(''transportSeed'', Some (JUint8Array FixedBuffer (replicate 32 7))),
              (''relayUrls'', Some (JArray [JString ''wss://r''])), (''routes'', Some (JArray []))]"

lemma home_page_config: "config_in home_page = Inr home_config"
  by (simp add: config_in_def home_page_def home_config_def js_list_def js_bytes_def url_in_def)

lemma home_page_start:
  obtains w where "web_start plain_crypto 0 0 (Inr (socket (V4 1) 5)) home_page = Inr w"
    "\<not> web_taken w" "\<not> web_shutdown w" "web_tasks w = []"
proof -
  obtain sd :: "32 arr" where sd: "to_arr (replicate 32 7) = Some sd" by (auto simp: to_arr_def)
  have "browser_url (spec_plain ''wss://r'') = Inr ''wss://r:443/''" by code_simp
  then have "\<exists>e. engine_start plain_crypto True 0 0 (Inr (socket (V4 1) 5)) home_config = Inr e"
    using sd by (auto simp: engine_start_def home_config_def endpoint_open_def endpoint_config_new_def Let_def
        browser_config_check_def simp del: to_arr_eq_Some)
  then show ?thesis using that by (auto simp: web_start_def home_page_config)
qed

theorem stopped_page_forgets_witness:
  "\<forall>v. \<exists>w0. web_start plain_crypto 0 0 (Inr (socket (V4 1) 5)) home_page = Inr w0 \<and>
     (let w = fold (web_step plain_crypto plain_hex) [CallRemove ''home'', CallStop, RunTask 1 v, RunTask 0 v] w0
      in web_shutdown w \<and> TaskWipe \<notin> set (web_tasks w) \<and> eng_routes (web_core w) = [] \<and>
         isl (fst (web_remove_route ''home'' w)))"
proof
  fix v
  obtain w0 where w0: "web_start plain_crypto 0 0 (Inr (socket (V4 1) 5)) home_page = Inr w0"
    "\<not> web_taken w0" "\<not> web_shutdown w0" "web_tasks w0 = []"
    by (rule home_page_start)
  let ?w = "fold (web_step plain_crypto plain_hex) [CallRemove ''home'', CallStop, RunTask 1 v, RunTask 0 v] w0"
  have s: "web_shutdown ?w" "TaskWipe \<notin> set (web_tasks ?w)"
    using w0 by (simp_all add: web_remove_route_def web_run_def web_stop_def step_task_def settled_def map_prod_def split: prod.split)
  show "\<exists>w0. web_start plain_crypto 0 0 (Inr (socket (V4 1) 5)) home_page = Inr w0 \<and>
     (let w = fold (web_step plain_crypto plain_hex) [CallRemove ''home'', CallStop, RunTask 1 v, RunTask 0 v] w0
      in web_shutdown w \<and> TaskWipe \<notin> set (web_tasks w) \<and> eng_routes (web_core w) = [] \<and>
         isl (fst (web_remove_route ''home'' w)))"
    using w0(1) s stopped_page_forgets [OF w0(1) refl s] unfolding Let_def by blast
qed

end
