(* ===== verification/Spec2Isabelle.thy ===== *)
theory Spec2Isabelle
  imports Network Net_Monitor Relay_Transport Web_Timer Ffi Web_Page
begin

text \<open>
  \<^bold>\<open>ForgeSworn Link\<close>: authenticated sessions between nodes named by a key, over a relay first and directly
  when an address is proved, with relay addressing by rotating tags instead of identities, and on top of
  them a blob service, virtual WebSockets and an engine of paired routes for an Android app and for a page.
  The sources are the crates under \<open>src/crates\<close>.

  \<^bold>\<open>How the parts interact.\<close> A node publishes a signed address card (\<open>link-core\<close>). Its endpoint
  (\<open>link-endpoint\<close>) keeps a pool of drivers, each in a session with a relay (\<open>link-relay\<close>), by identity or,
  with a tag book, by the tags of its pairs. A path socket carries the datagrams of each session by the
  relay or by UDP to an address that a probe proved; the task of each session decides between them and
  reports the path. TLS with raw keys ties a session to a node. The blob service (\<open>link-blossom\<close>), the
  virtual WebSocket (\<open>link-websocket\<close>) and the engine (\<open>link-engine\<close>) use the sessions; \<open>link-ffi\<close> and
  \<open>link-web\<close> are the engine's two hosts.

  \<^bold>\<open>Conventions.\<close> A struct is a record, an enum a datatype, a fixed array \<open>n arr\<close>, an integer a word of its
  width (a \<open>nat\<close> where the code only counts and no bound is near), an error the left of a sum. A mutable
  object is a record that its operations take and return. What the program asks of its environment is an
  argument: results of sockets and dials, clocks, random draws, the peer's bytes, and what other tasks did
  while a call waited. Each task is a function from an event to its next state, so a theorem over every list
  of events covers every interleaving at the points where the code awaits. Third-party code is a parameter:
  \<open>crypto\<close> (Ed25519, SHA-256, HMAC, HKDF, secp256k1), \<open>hex_lib\<close>, the raw-key signature check of \<open>rustls\<close>;
  a theorem that relies on such code names what it relies on (\<open>ed25519_correct\<close>, \<open>secp_dh_correct\<close>,
  \<open>hex_correct\<close>, \<open>raw_key_correct\<close>), and its witness evaluates it at \<open>plain_crypto\<close>, \<open>plain_hex\<close> or
  \<open>plain_raw_verify\<close>. Times of the relay are rational seconds and its token buckets exact, where the source
  has \<open>f64\<close>; other times are milliseconds or Unix seconds.

  \<^bold>\<open>The theories and what they show.\<close>

  \<^item> \<open>Link_Prelude\<close>: words, byte strings, arrays, big-endian integers, and the interfaces \<open>codec\<close>, \<open>prefix_codec\<close>
    and \<open>machine\<close> that the components interpret. \<open>Primitives\<close>: the parameter \<open>crypto\<close>. \<open>Net_Addr\<close>, \<open>Streams\<close>:
    socket addresses and the two halves of a stream.
  \<^item> \<open>Node_Id\<close> (\<open>link-core/src/id.rs\<close>): node ids have one base-32 text, and the shift register that writes it
    computes the digits of the key. \<open>Card\<close> (\<open>card.rs\<close>): \<open>verify\<close> accepts exactly the acceptable cards and
    reports the first of its nine rules that fails. \<open>Rendezvous\<close> (\<open>rendezvous.rs\<close>): two different derivations
    agree only by a collision of HKDF. \<open>Wire\<close> (\<open>wire.rs\<close>): frames have one spelling, sealed probes open only under
    their key, the signed inputs of the program never coincide. \<open>Path_Status\<close> (\<open>path.rs\<close>). \<open>Tls\<close> (\<open>tls.rs\<close>): an
    accepted handshake was signed by the node it presents, and by the pinned one where one is pinned.
  \<^item> \<open>Relay\<close> and \<open>Relay_System\<close> (\<open>link-relay/src/lib.rs\<close>): the relay as one machine over all connections. Its
    counters and caps hold, nothing of a session outlives it, a datagram by identity names a node that
    authenticated, a tag reaches at most its two ends and never the sender, the byte budget bounds traffic.
  \<^item> \<open>Rendezvous_Book\<close> (\<open>link-endpoint/src/rendezvous_book.rs\<close>): the cached send tag is always the fresh one, and
    the two ends of a pair meet within one epoch of clock skew.
  \<^item> \<open>Relay_Spec\<close> and \<open>Relay_Client\<close> (\<open>relay_client.rs\<close>): relay URLs, the driver and the pool. A tag-mode driver
    names nobody, a status says what the driver does, every relay of the list is reached by fail-over.
    \<open>Relay_Transport\<close> (\<open>relay_tls.rs\<close>, \<open>relay_socket.rs\<close>, \<open>relay_socket/native.rs\<close>, \<open>relay_socket/web.rs\<close>): the
    certificate a relay must show, the socket of a page and the shutdown barrier, which opens only when every
    socket is closed. \<open>Inbound_Queue\<close> (\<open>relay_socket/inbound.rs\<close>): only the oldest datagrams are lost.
    \<open>Web_Timer\<close> (\<open>rt.rs\<close>): a page's timers are never early and stay in the range a browser takes.
    \<open>Net_Monitor\<close> (\<open>netmon.rs\<close>).
  \<^item> \<open>Path_Socket\<close> (\<open>path_socket.rs\<close>): an address belongs to a peer only after a proof under the session's key; the
    newest session owns the peer. \<open>Session\<close> (\<open>session.rs\<close>): the path reports are a trace of the specification's
    state machine (a refinement), follow the socket, and probing ends; control messages arrive as sent.
    \<open>Endpoint\<close> (\<open>endpoint.rs\<close>): a session is with the node of the card, or there is none and no slot is left;
    the endpoint's own cards verify.
  \<^item> \<open>Network\<close>: the relay and its clients together. A client and a relay agree on the handshake, and a datagram
    sent under a tag arrives at the other end of the pair, attributed to the sender.
  \<^item> \<open>Blossom\<close> (\<open>link-blossom\<close>): the wire format, server and client; a finished response is complete, and a fetch
    delivers exactly the blob or an error. \<open>Virtual_Socket\<close> (\<open>link-websocket\<close>): one terminal message, and last.
  \<^item> \<open>Engine_Http\<close>, \<open>Engine\<close>, \<open>Engine_Safety\<close> (\<open>link-engine\<close>): the request allowlist is exact and responses are
    bounded; the engine's state is well formed at every moment, a response came over a session with the
    node of the route's card, wiping forgets every secret, stopping is final. \<open>Engine_Calls\<close>: every call is a
    sequence of the engine's events, so the hosts inherit its theorems. \<open>Ffi\<close> (\<open>link-ffi\<close>): stopping works from any
    thread. \<open>Web_Page\<close> (\<open>link-web\<close>): a captured request is valid, a failed capture costs nothing, and a stopped
    page has forgotten everything.

  \<^bold>\<open>Bounds and termination.\<close> No definition uses fuel. Loops that are not structural have a measure: eviction of
    a tag's holders and of queued datagrams by the number of entries, the chain of a long sleep by the time
    left, numerals by the number, a blob's pieces and a control stream by the bytes that remain, the body of
    a fetched blob by the bytes still to come. The two operations
    that draw at random until a draw is free (a provisional route and the engine's pairing, which uses it) take
    the list of draws and return \<open>None\<close> when it does not hold a free one. Queues, histories and frames have the
    bounds of the source as constants.

  \<^bold>\<open>Not modelled.\<close> The executables \<open>link-relay/src/main.rs\<close> and \<open>link-spike\<close> (command line and start-up), the
  build scripts, crate roots and binding generators, redacting \<open>Debug\<close> implementations, logging, binding and
  accepting of sockets with the relay's own TLS set-up, the spawning half of \<open>rt.rs\<close>, the traits quinn
  wants of a socket and its batching, and the glue of UniFFI and wasm-bindgen: they only call libraries.
  The wake-ups of watchers are modelled where a component's behaviour rests on them (a driver's senders,
  the page's socket). The memory that \<open>Zeroize\<close> clears has no counterpart; what is shown is that no secret
  stays in a reachable state. Numbers and library texts inside some error messages are left out.
\<close>

end
